(* ===== verification/Prelude.thy ===== *)
theory Prelude
  imports Main "HOL-Library.Word"
begin

text \<open>
  Shared vocabulary of the development: the outcomes of C++ code as values, the
  \<open>std::find_if\<close> / \<open>vector::erase\<close> idiom the managers are built on, byte strings, and
  the collections of facts the component proofs draw from.
\<close>

section \<open>Collections\<close>

named_theorems result_simps \<open>equations that evaluate the result combinators\<close>
named_theorems fine_intros \<open>rules that take a function returning a result apart\<close>
named_theorems find_simps \<open>facts on first-match search in a vector\<close>

section \<open>Outcomes of C++ code\<close>

text \<open>
  \<open>Throw w\<close> is an exception derived from \<open>std::exception\<close> whose \<open>what()\<close> starts with \<open>w\<close>;
  the other constructors are undefined behaviour, a blocked thread, or \<open>std::terminate\<close> (an
  exception that leaves a destructor), which no \<open>catch\<close> clause of the program can intercept.
\<close>

datatype cpp_error =
    Throw string
  | NullDeref
  | OutOfBounds
  | Uninitialised
  | Dangling
  | SelfDeadlock
  | IntOverflow
  | DivByZero
  | Terminates

type_synonym 'a result = "cpp_error + 'a"

fun rbind :: "'e + 'a \<Rightarrow> ('a \<Rightarrow> 'e + 'b) \<Rightarrow> 'e + 'b" where
  "rbind (Inl e) f = Inl e"
| "rbind (Inr x) f = f x"

lemma rbind_Inr_iff [result_simps]: "rbind r f = Inr y \<longleftrightarrow> (\<exists>x. r = Inr x \<and> f x = Inr y)"
  by (cases r) auto

lemma rbind_Inl_iff [result_simps]:
  "rbind r f = Inl e \<longleftrightarrow> r = Inl e \<or> (\<exists>x. r = Inr x \<and> f x = Inl e)"
  by (cases r) auto

lemma rbind_assoc: "rbind (rbind r f) g = rbind r (\<lambda>x. rbind (f x) g)"
  by (cases r) auto

lemma rbind_cong [fundef_cong]:
  "r = r' \<Longrightarrow> (\<And>x. r' = Inr x \<Longrightarrow> f x = f' x) \<Longrightarrow> rbind r f = rbind r' f'"
  by (cases r) auto

text \<open>A loop over a range whose body may fail.\<close>

fun rfold :: "('b \<Rightarrow> 'a \<Rightarrow> 'e + 'a) \<Rightarrow> 'b list \<Rightarrow> 'a \<Rightarrow> 'e + 'a" where
  "rfold f [] s = Inr s"
| "rfold f (x # xs) s = rbind (f x s) (rfold f xs)"

lemma rfold_append: "rfold f (xs @ ys) s = rbind (rfold f xs s) (rfold f ys)"
  by (induction xs arbitrary: s) (auto simp: rbind_assoc intro: rbind_cong)

text \<open>Where no step fails and the steps keep an invariant, the loop is \<open>fold\<close>.\<close>

lemma rfold_fold:
  assumes "I s" "\<And>x s. x \<in> set xs \<Longrightarrow> I s \<Longrightarrow> f x s = Inr (g x s) \<and> I (g x s)"
  shows "rfold f xs s = Inr (fold g xs s) \<and> I (fold g xs s)"
  using assms by (induction xs arbitrary: s) auto

text \<open>An invariant that knows which part of the range is done.\<close>

lemma rfold_prefix:
  assumes "P [] s" "\<And>ps x qs s. xs = ps @ x # qs \<Longrightarrow> P ps s \<Longrightarrow> \<exists>s'. f x s = Inr s' \<and> P (ps @ [x]) s'"
  shows "\<exists>s'. rfold f xs s = Inr s' \<and> P xs s'"
proof -
  have "\<exists>s'. rfold f ps s = Inr s' \<and> P ps s'" if "xs = ps @ qs" for ps qs
    using that
  proof (induction ps arbitrary: qs rule: rev_induct)
    case (snoc x ps)
    then obtain s' where "rfold f ps s = Inr s'" "P ps s'" by fastforce
    with assms(2) [of ps x qs s'] snoc.prems show ?case by (auto simp: rfold_append)
  qed (use assms(1) in simp)
  from this [of xs "[]"] show ?thesis by simp
qed

text \<open>Chains of \<open>else if\<close> are taken apart branch by branch, without evaluating the conditions.\<close>

lemma if_eqE:
  assumes "(if b then x else y) = r"
  obtains "b" "x = r" | "\<not> b" "y = r"
  using assms by (cases b) auto

lemma rbind_InrE:
  assumes "rbind r f = Inr y"
  obtains x where "r = Inr x" "f x = Inr y"
  using assms by (auto simp: rbind_Inr_iff)

text \<open>
  \<open>fine P r\<close>: \<open>r\<close> is no exception, and where it is a value, the value satisfies \<open>P\<close>. The rules
  below take a function apart along its binds and branches.
\<close>

definition fine :: "('a \<Rightarrow> bool) \<Rightarrow> 'a result \<Rightarrow> bool" where
  "fine P r = (case r of Inl e \<Rightarrow> (\<forall>w. e \<noteq> Throw w) | Inr x \<Rightarrow> P x)"

lemma fine_Inr [fine_intros]: "P x \<Longrightarrow> fine P (Inr x)"
  by (simp add: fine_def)

lemma fine_Inl [fine_intros]: "e \<in> {NullDeref, OutOfBounds, Uninitialised, Dangling} \<Longrightarrow> fine P (Inl e)"
  by (auto simp: fine_def)

lemma fine_if [fine_intros]: "(b \<Longrightarrow> fine P r) \<Longrightarrow> (\<not> b \<Longrightarrow> fine P s) \<Longrightarrow> fine P (if b then r else s)"
  by simp

lemma fine_rbind: "fine Q r \<Longrightarrow> (\<And>x. Q x \<Longrightarrow> fine P (f x)) \<Longrightarrow> fine P (rbind r f)"
  by (cases r) (auto simp: fine_def)

lemma fine_let [fine_intros]: "fine P (f x) \<Longrightarrow> fine P (let y = x in f y)"
  by simp

text \<open>
  What a call that locks and waits does: it returns a value, it sleeps until another call changes
  the state, or it waits for something only its own thread could provide, or that can be provided
  only while it does not wait.
\<close>

datatype 'a outcome = Returns 'a | Waits | Deadlocks

section \<open>First match in a vector\<close>

text \<open>
  \<open>find_if P xs\<close> is the distance of \<open>std::find_if(begin, end, P)\<close> from \<open>begin\<close>; it is
  \<open>length xs\<close>, the position of \<open>end()\<close>, where nothing matches.
\<close>

fun find_if :: "('a \<Rightarrow> bool) \<Rightarrow> 'a list \<Rightarrow> nat" where
  "find_if P [] = 0"
| "find_if P (x # xs) = (if P x then 0 else Suc (find_if P xs))"

definition erase_at :: "nat \<Rightarrow> 'a list \<Rightarrow> 'a list" where
  "erase_at i xs = take i xs @ drop (Suc i) xs"

definition insert_at :: "nat \<Rightarrow> 'a \<Rightarrow> 'a list \<Rightarrow> 'a list" where
  "insert_at i x xs = take i xs @ x # drop i xs"

lemma find_if_le [simp]: "find_if P xs \<le> length xs"
  by (induction xs) auto

lemma find_if_less_iff [find_simps]: "find_if P xs < length xs \<longleftrightarrow> (\<exists>x \<in> set xs. P x)"
  by (induction xs) auto

lemma find_if_end_iff [find_simps]: "find_if P xs = length xs \<longleftrightarrow> (\<forall>x \<in> set xs. \<not> P x)"
  by (induction xs) auto

lemma find_if_nth: "find_if P xs < length xs \<Longrightarrow> P (xs ! find_if P xs)"
  by (induction xs) auto

lemma find_if_least: "i < find_if P xs \<Longrightarrow> \<not> P (xs ! i)"
proof (induction xs arbitrary: i)
  case (Cons x xs)
  then show ?case by (cases i) (auto split: if_splits)
qed simp

lemma find_if_split:
  assumes "find_if P xs < length xs"
  obtains ys x zs where "xs = ys @ x # zs" "P x" "\<forall>y \<in> set ys. \<not> P y" "find_if P xs = length ys"
  using assms
proof (induction xs arbitrary: thesis)
  case Nil
  then show ?case by simp
next
  case (Cons x xs)
  show ?case
  proof (cases "P x")
    case True
    then show ?thesis using Cons.prems(1) [of "[]" x xs] by simp
  next
    case False
    with Cons.prems(2) have "find_if P xs < length xs" by simp
    then obtain ys y zs where "xs = ys @ y # zs" "P y" "\<forall>y \<in> set ys. \<not> P y"
      "find_if P xs = length ys" using Cons.IH by blast
    with False show ?thesis using Cons.prems(1) [of "x # ys" y zs] by simp
  qed
qed

lemma find_if_append_hit [find_simps]:
  "\<forall>y \<in> set ys. \<not> P y \<Longrightarrow> P x \<Longrightarrow> find_if P (ys @ x # zs) = length ys"
  by (induction ys) auto

lemma find_if_snoc:
  "find_if P (xs @ [x]) = (if \<exists>y \<in> set xs. P y then find_if P xs
     else if P x then length xs else Suc (length xs))"
  by (induction xs) auto

lemma erase_at_middle [simp]: "erase_at (length ys) (ys @ x # zs) = ys @ zs"
  by (simp add: erase_at_def)

lemma insert_at_middle [simp]: "insert_at (length ys) x (ys @ zs) = ys @ x # zs"
  by (simp add: insert_at_def)

lemma length_erase_at: "i < length xs \<Longrightarrow> length (erase_at i xs) = length xs - 1"
  by (simp add: erase_at_def)

lemma length_insert_at: "i \<le> length xs \<Longrightarrow> length (insert_at i x xs) = Suc (length xs)"
  by (simp add: insert_at_def)

lemma erase_insert_at: "i \<le> length xs \<Longrightarrow> erase_at i (insert_at i x xs) = xs"
  by (simp add: erase_at_def insert_at_def)

lemma insert_at_nth: "i \<le> length xs \<Longrightarrow> insert_at i x xs ! i = x"
  by (simp add: insert_at_def nth_append)

lemma set_erase_at_subset: "set (erase_at i xs) \<subseteq> set xs"
  by (auto simp: erase_at_def dest: in_set_takeD in_set_dropD)

lemma map_erase_at: "map f (erase_at i xs) = erase_at i (map f xs)"
  by (simp add: erase_at_def take_map drop_map)

lemma distinct_erase_at: "distinct xs \<Longrightarrow> distinct (erase_at i xs)"
  by (simp add: erase_at_def set_take_disj_set_drop_if_distinct)

section \<open>Bytes, characters and machine integers\<close>

type_synonym byte = "8 word"
type_synonym size_t = "64 word"

definition char_byte :: "char \<Rightarrow> byte" where
  "char_byte c = of_nat (of_char c)"

definition byte_char :: "byte \<Rightarrow> char" where
  "byte_char b = char_of (unat b)"

lemma char_byte_char [simp]: "byte_char (char_byte c) = c"
proof -
  have "of_char c < (256 :: nat)" by simp
  then have "unat (of_nat (of_char c) :: byte) = of_char c"
    by (simp add: unat_of_nat)
  then show ?thesis by (simp add: char_byte_def byte_char_def)
qed

lemma byte_char_byte [simp]: "char_byte (byte_char b) = b"
proof -
  have "unat b < 256" using unsigned_less [of b] by simp
  then have "of_char (char_of (unat b) :: char) = unat b" by simp
  then show ?thesis by (simp add: char_byte_def byte_char_def)
qed

lemma inj_char_byte: "inj char_byte"
  by (rule inj_on_inverseI [where g = byte_char]) simp

text \<open>A hexadecimal digit as \<open>std::hex\<close> prints it.\<close>

definition hex_char :: "nat \<Rightarrow> char" where
  "hex_char n = (if n < 10 then char_of (48 + n) else char_of (87 + n))"

lemma of_char_hex_char: "n < 16 \<Longrightarrow> of_char (hex_char n) = (if n < 10 then 48 + n else 87 + n)"
  by (simp add: hex_char_def)

lemma hex_char_inj:
  assumes "m < 16" "n < 16"
  shows "hex_char m = hex_char n \<longleftrightarrow> m = n"
proof
  assume "hex_char m = hex_char n"
  then have "(of_char (hex_char m) :: nat) = of_char (hex_char n)" by (rule arg_cong)
  with assms show "m = n" by (simp add: of_char_hex_char split: if_splits)
qed simp

lemma hex_char_not_hyphen:
  assumes "n < 16"
  shows "hex_char n \<noteq> CHR ''-''"
proof
  assume "hex_char n = CHR ''-''"
  then have "(of_char (hex_char n) :: nat) = of_char (CHR ''-'')" by (rule arg_cong)
  with assms show False by (simp add: of_char_hex_char split: if_splits)
qed

text \<open>A 32-bit \<open>int\<close> as the integer it denotes: conversion from a wider integer wraps.\<close>

definition wrap32 :: "int \<Rightarrow> int" where
  "wrap32 i = (i + 2147483648) mod 4294967296 - 2147483648"

lemma wrap32_id: "- 2147483648 \<le> i \<Longrightarrow> i < 2147483648 \<Longrightarrow> wrap32 i = i"
  by (simp add: wrap32_def)

lemma wrap32_range: "- 2147483648 \<le> wrap32 i \<and> wrap32 i < 2147483648"
  by (simp add: wrap32_def)

end
