(* ===== verification/FileTree.thy ===== *)
theory FileTree
  imports Prelude "HOL-Library.Sublist"
begin

text \<open>
  The functions of \<open>src/src/components/io/io.cpp\<close> that change files and folders, on a tree of files as
  \<open>std::filesystem\<close> sees it: without links, each path given by the names from the root. \<open>ok\<close> tells
  whether the system permits an operation; what it does not permit changes nothing and throws. Calls
  that fail half-way, as on a full device, are not covered.
\<close>

section \<open>Trees\<close>

datatype fs_node = Folder | File string

type_synonym fs_path = "string list"
type_synonym fs_tree = "(fs_path \<times> fs_node) list"

definition put_node :: "fs_path \<Rightarrow> fs_node \<Rightarrow> fs_tree \<Rightarrow> fs_tree" where
  "put_node p n t = (p, n) # filter (\<lambda>e. fst e \<noteq> p) t"

definition cut :: "fs_path \<Rightarrow> fs_tree \<Rightarrow> fs_tree" where
  "cut p t = filter (\<lambda>e. \<not> prefix p (fst e)) t"

definition empty_below :: "fs_path \<Rightarrow> fs_tree \<Rightarrow> bool" where
  "empty_below p t \<longleftrightarrow> list_all (\<lambda>e. \<not> strict_prefix p (fst e)) t"

definition has_parent :: "fs_path \<Rightarrow> fs_tree \<Rightarrow> bool" where
  "has_parent p t \<longleftrightarrow> p \<noteq> [] \<and> map_of t (butlast p) = Some Folder"

section \<open>The operations of the library\<close>

text \<open>The tree afterwards, and whether the call returns instead of throwing.\<close>

definition fs_create_directory :: "fs_path \<Rightarrow> fs_tree \<Rightarrow> fs_tree \<times> bool" where
  "fs_create_directory p t = (case map_of t p of
     Some Folder \<Rightarrow> (t, True)
   | Some (File s) \<Rightarrow> (t, False)
   | None \<Rightarrow> if has_parent p t then (put_node p Folder t, True) else (t, False))"

text \<open>Everything at and below the path goes; a path that does not exist is no error. The root stays.\<close>

definition fs_remove_all :: "fs_path \<Rightarrow> fs_tree \<Rightarrow> fs_tree \<times> bool" where
  "fs_remove_all p t = (if p = [] then ([([], Folder)], False) else (cut p t, True))"

definition fs_remove :: "fs_path \<Rightarrow> fs_tree \<Rightarrow> fs_tree \<times> bool" where
  "fs_remove p t = (case map_of t p of
     None \<Rightarrow> (t, True)
   | Some (File s) \<Rightarrow> (cut p t, True)
   | Some Folder \<Rightarrow> if p \<noteq> [] \<and> empty_below p t then (cut p t, True) else (t, False))"

definition moved :: "fs_path \<Rightarrow> fs_path \<Rightarrow> fs_tree \<Rightarrow> fs_tree" where
  "moved old new t =
     map (\<lambda>(p, n). (if prefix old p then new @ drop (length old) p else p, n)) (cut new t)"

definition fs_rename :: "fs_path \<Rightarrow> fs_path \<Rightarrow> fs_tree \<Rightarrow> fs_tree \<times> bool" where
  "fs_rename old new t = (case map_of t old of
     None \<Rightarrow> (t, False)
   | Some n \<Rightarrow>
       if old = new then (t, True)
       else if prefix old new then (t, False)
       else (case map_of t new of
           None \<Rightarrow> if has_parent new t then (moved old new t, True) else (t, False)
         | Some (File s) \<Rightarrow> if n = Folder then (t, False) else (moved old new t, True)
         | Some Folder \<Rightarrow>
             if n = Folder \<and> empty_below new t then (moved old new t, True) else (t, False)))"

definition fs_copy_file :: "fs_path \<Rightarrow> fs_path \<Rightarrow> fs_tree \<Rightarrow> fs_tree \<times> bool" where
  "fs_copy_file src dst t = (case map_of t src of
     Some (File s) \<Rightarrow>
       if map_of t dst = None \<and> has_parent dst t then (put_node dst (File s) t, True) else (t, False)
   | _ \<Rightarrow> (t, False))"

section \<open>The functions of the program\<close>

definition try_fs :: "bool \<Rightarrow> (fs_tree \<Rightarrow> fs_tree \<times> bool) \<Rightarrow> fs_tree \<Rightarrow> fs_tree \<times> bool" where
  "try_fs ok f t = (if ok then f t else (t, False))"

definition create_directory :: "bool \<Rightarrow> fs_path \<Rightarrow> fs_tree \<Rightarrow> fs_tree \<times> bool" where
  "create_directory ok path = try_fs ok (fs_create_directory path)"

definition remove_directory :: "bool \<Rightarrow> fs_path \<Rightarrow> fs_tree \<Rightarrow> fs_tree \<times> bool" where
  "remove_directory ok path = try_fs ok (fs_remove_all path)"

definition rename_directory :: "bool \<Rightarrow> fs_path \<Rightarrow> fs_path \<Rightarrow> fs_tree \<Rightarrow> fs_tree \<times> bool" where
  "rename_directory ok old_path new_path = try_fs ok (fs_rename old_path new_path)"

definition move_directory :: "bool \<Rightarrow> fs_path \<Rightarrow> fs_path \<Rightarrow> fs_tree \<Rightarrow> fs_tree \<times> bool" where
  "move_directory ok old_path new_path = try_fs ok (fs_rename old_path new_path)"

definition copy_file :: "bool \<Rightarrow> fs_path \<Rightarrow> fs_path \<Rightarrow> fs_tree \<Rightarrow> fs_tree \<times> bool" where
  "copy_file ok src_path dst_path = try_fs ok (fs_copy_file src_path dst_path)"

definition move_file :: "bool \<Rightarrow> fs_path \<Rightarrow> fs_path \<Rightarrow> fs_tree \<Rightarrow> fs_tree \<times> bool" where
  "move_file ok src_path dst_path = try_fs ok (fs_rename src_path dst_path)"

definition rename_file :: "bool \<Rightarrow> fs_path \<Rightarrow> fs_path \<Rightarrow> fs_tree \<Rightarrow> fs_tree \<times> bool" where
  "rename_file ok old_path new_path = try_fs ok (fs_rename old_path new_path)"

definition remove_file :: "bool \<Rightarrow> fs_path \<Rightarrow> fs_tree \<Rightarrow> fs_tree \<times> bool" where
  "remove_file ok path = try_fs ok (fs_remove path)"

text \<open>Without a file the size is 0, as for an empty one.\<close>

definition file_size :: "fs_path \<Rightarrow> fs_tree \<Rightarrow> nat" where
  "file_size path t = (case map_of t path of Some (File s) \<Rightarrow> length s | _ \<Rightarrow> 0)"

datatype fs_call =
    CreateDirectory fs_path | RemoveDirectory fs_path | RenameDirectory fs_path fs_path
  | MoveDirectory fs_path fs_path | CopyFile fs_path fs_path | MoveFile fs_path fs_path
  | RenameFile fs_path fs_path | RemoveFile fs_path

fun fs_do :: "fs_call \<times> bool \<Rightarrow> fs_tree \<Rightarrow> fs_tree \<times> bool" where
  "fs_do (CreateDirectory p, ok) t = create_directory ok p t"
| "fs_do (RemoveDirectory p, ok) t = remove_directory ok p t"
| "fs_do (RenameDirectory p q, ok) t = rename_directory ok p q t"
| "fs_do (MoveDirectory p q, ok) t = move_directory ok p q t"
| "fs_do (CopyFile p q, ok) t = copy_file ok p q t"
| "fs_do (MoveFile p q, ok) t = move_file ok p q t"
| "fs_do (RenameFile p q, ok) t = rename_file ok p q t"
| "fs_do (RemoveFile p, ok) t = remove_file ok p t"

definition fs_run :: "(fs_call \<times> bool) list \<Rightarrow> fs_tree \<Rightarrow> fs_tree" where
  "fs_run cs t = fold (\<lambda>c t. fst (fs_do c t)) cs t"

section \<open>Lemmas\<close>

definition wf_tree :: "fs_tree \<Rightarrow> bool" where
  "wf_tree t \<longleftrightarrow> map_of t [] = Some Folder \<and>
     (\<forall>p x. map_of t (p @ [x]) \<noteq> None \<longrightarrow> map_of t p = Some Folder)"

lemma wf_treeD: "wf_tree t \<Longrightarrow> map_of t (p @ [x]) = Some n \<Longrightarrow> map_of t p = Some Folder"
  unfolding wf_tree_def by (metis option.distinct(1))

text \<open>All folders on the way to a path exist.\<close>

lemma wf_tree_above: "wf_tree t \<Longrightarrow> map_of t (p @ r) = Some n \<Longrightarrow> r \<noteq> [] \<Longrightarrow> map_of t p = Some Folder"
proof (induction r arbitrary: n rule: rev_induct)
  case (snoc x r)
  then have f: "map_of t (p @ r) = Some Folder" using wf_treeD [of t "p @ r" x] by simp
  with snoc show ?case by (cases "r = []") auto
qed simp

lemma wf_tree_below_file: "wf_tree t \<Longrightarrow> map_of t p = Some (File s) \<Longrightarrow> r \<noteq> [] \<Longrightarrow> map_of t (p @ r) = None"
  using wf_tree_above by (metis fs_node.distinct(1) not_Some_eq option.inject)

lemma map_of_filter_key: "map_of (filter (\<lambda>e. P (fst e)) t) q = (if P q then map_of t q else None)"
  by (induction t) auto

lemma map_of_put_node [simp]: "map_of (put_node p n t) q = (if q = p then Some n else map_of t q)"
  using map_of_filter_key [of "\<lambda>q. q \<noteq> p" t q] by (simp add: put_node_def)

lemma map_of_cut [simp]: "map_of (cut p t) q = (if prefix p q then None else map_of t q)"
  using map_of_filter_key [of "\<lambda>q. \<not> prefix p q" t q] by (simp add: cut_def)

lemma empty_below_iff: "empty_below p t \<longleftrightarrow> (\<forall>r. r \<noteq> [] \<longrightarrow> map_of t (p @ r) = None)"
proof
  assume e: "empty_below p t"
  show "\<forall>r. r \<noteq> [] \<longrightarrow> map_of t (p @ r) = None"
  proof (intro allI impI)
    fix r :: "string list"
    assume "r \<noteq> []"
    then have "strict_prefix p (p @ r)" by (simp add: strict_prefix_def)
    with e have "p @ r \<notin> fst ` set t" by (auto simp: empty_below_def list_all_iff)
    then show "map_of t (p @ r) = None" by (simp add: map_of_eq_None_iff)
  qed
next
  assume a: "\<forall>r. r \<noteq> [] \<longrightarrow> map_of t (p @ r) = None"
  show "empty_below p t"
    unfolding empty_below_def list_all_iff
  proof
    fix e assume e: "e \<in> set t"
    show "\<not> strict_prefix p (fst e)"
    proof
      assume "strict_prefix p (fst e)"
      then obtain r where "fst e = p @ r" "r \<noteq> []" by (auto simp: strict_prefix_def prefix_def)
      with a have "map_of t (fst e) = None" by simp
      with e show False by (simp add: map_of_eq_None_iff)
    qed
  qed
qed

lemma map_of_relocate:
  assumes "\<forall>e \<in> set t. \<not> prefix new (fst e)"
  shows "map_of (map (\<lambda>(p, n). (if prefix old p then new @ drop (length old) p else p, n)) t) q =
    (if prefix new q then map_of t (old @ drop (length new) q)
     else if prefix old q then None else map_of t q)"
  using assms
proof (induction t)
  case (Cons e t)
  obtain p n where e: "e = (p, n)" by (cases e)
  with Cons.prems have p: "\<not> prefix new p" by simp
  let ?g = "\<lambda>(p, n). (if prefix old p then new @ drop (length old) p else p, n)"
  have ih: "map_of (map ?g t) q = (if prefix new q then map_of t (old @ drop (length new) q)
     else if prefix old q then None else map_of t q)" using Cons by simp
  show ?case
  proof (cases "prefix old p")
    case True
    then obtain r where r: "p = old @ r" by (auto simp: prefix_def)
    show ?thesis
    proof (cases "prefix new q")
      case True
      then obtain s where "q = new @ s" by (auto simp: prefix_def)
      with r ih show ?thesis by (simp add: e)
    next
      case False
      then have "q \<noteq> new @ r" by auto
      with False r ih show ?thesis by (auto simp: e)
    qed
  next
    case False
    have "old @ s \<noteq> p" for s using False by auto
    moreover have "prefix new q \<Longrightarrow> q \<noteq> p" using p by auto
    moreover have "prefix old q \<Longrightarrow> q \<noteq> p" using False by auto
    ultimately show ?thesis using False ih by (auto simp: e)
  qed
qed simp

lemma map_of_moved:
  assumes "\<not> prefix new old" "\<not> prefix old new"
  shows "map_of (moved old new t) q =
    (if prefix new q then map_of t (old @ drop (length new) q) else if prefix old q then None else map_of t q)"
proof -
  have "\<forall>e \<in> set (cut new t). \<not> prefix new (fst e)" by (simp add: cut_def)
  from map_of_relocate [OF this, of old q]
  have m: "map_of (moved old new t) q = (if prefix new q then map_of (cut new t) (old @ drop (length new) q)
     else if prefix old q then None else map_of (cut new t) q)" by (simp only: moved_def)
  have "\<not> prefix new (old @ s)" for s
    using assms prefix_same_cases [of new "old @ s" old] by (metis prefixI)
  with m show ?thesis by simp
qed

lemma fs_rename_done:
  assumes wf: "wf_tree t" and run: "fs_rename old new t = (t', True)" and ne: "old \<noteq> new"
  shows "t' = moved old new t \<and> \<not> prefix old new \<and> \<not> prefix new old \<and> map_of t old \<noteq> None \<and> new \<noteq> [] \<and>
    map_of t (butlast new) = Some Folder \<and> (\<forall>r. r \<noteq> [] \<longrightarrow> map_of t (new @ r) = None)"
proof -
  from run obtain n where n: "map_of t old = Some n" by (auto simp: fs_rename_def split: option.splits)
  from run n ne have po: "\<not> prefix old new" by (auto simp: fs_rename_def split: if_splits)
  from run n ne po have t': "t' = moved old new t"
    by (auto simp: fs_rename_def split: option.splits fs_node.splits if_splits)
  have below: "map_of t (new @ r) = None" if "r \<noteq> []" for r
  proof (cases "map_of t new")
    case None
    with wf_tree_above [OF wf _ that] show ?thesis by (cases "map_of t (new @ r)") auto
  next
    case (Some m)
    show ?thesis
    proof (cases m)
      case (File s)
      with Some wf_tree_below_file [OF wf _ that] show ?thesis by simp
    next
      case Folder
      with run n ne po Some have "empty_below new t" by (auto simp: fs_rename_def split: if_splits)
      with that show ?thesis by (simp add: empty_below_iff)
    qed
  qed
  have pn: "\<not> prefix new old"
  proof
    assume "prefix new old"
    with ne obtain r where "old = new @ r" "r \<noteq> []" by (auto simp: prefix_def)
    with below n show False by simp
  qed
  then have new: "new \<noteq> []" by auto
  have "map_of t (butlast new) = Some Folder"
  proof (cases "map_of t new")
    case None
    with run n ne po show ?thesis by (auto simp: fs_rename_def has_parent_def split: if_splits)
  next
    case (Some m)
    then show ?thesis using wf_treeD [OF wf, of "butlast new" "last new" m] new by simp
  qed
  with t' po pn n new below show ?thesis by simp
qed

lemma wf_tree_moved:
  assumes wf: "wf_tree t" and po: "\<not> prefix old new" and pn: "\<not> prefix new old" and new: "new \<noteq> []"
    and par: "map_of t (butlast new) = Some Folder"
  shows "wf_tree (moved old new t)"
  unfolding wf_tree_def map_of_moved [OF pn po]
proof (intro conjI allI impI)
  have "old \<noteq> []" using po by auto
  then show "(if prefix new [] then map_of t (old @ drop (length new) []) else if prefix old [] then None else map_of t [])
      = Some Folder" using new wf by (simp add: wf_tree_def)
next
  fix p x
  assume a: "(if prefix new (p @ [x]) then map_of t (old @ drop (length new) (p @ [x]))
     else if prefix old (p @ [x]) then None else map_of t (p @ [x])) \<noteq> None"
  show "(if prefix new p then map_of t (old @ drop (length new) p) else if prefix old p then None else map_of t p)
      = Some Folder"
  proof (cases "prefix new (p @ [x])")
    case True
    show ?thesis
    proof (cases "prefix new p")
      case True
      then obtain s where "p = new @ s" by (auto simp: prefix_def)
      with a wf_treeD [OF wf, of "old @ s" x] show ?thesis by auto
    next
      case False
      with True have n: "new = p @ [x]" by (simp add: prefix_snoc)
      then have "\<not> prefix old p" using po by auto
      with False n par show ?thesis by simp
    qed
  next
    case False
    with a have "map_of t (p @ [x]) \<noteq> None" "\<not> prefix old (p @ [x])" by (auto split: if_splits)
    with False wf show ?thesis by (auto simp: wf_tree_def)
  qed
qed

lemma fs_rename_refused: "fs_rename old new t = (t', False) \<Longrightarrow> t' = t"
  by (auto simp: fs_rename_def split: option.splits fs_node.splits if_splits)

lemma fs_rename_self: "fst (fs_rename p p t) = t"
  by (simp add: fs_rename_def split: option.splits)

lemma fs_rename_cases:
  assumes "wf_tree t"
  obtains "fst (fs_rename old new t) = t"
  | "fst (fs_rename old new t) = moved old new t" "\<not> prefix old new" "\<not> prefix new old" "new \<noteq> []"
    "map_of t (butlast new) = Some Folder"
proof (cases "old = new")
  case True
  then show ?thesis using that(1) fs_rename_self by blast
next
  case ne: False
  obtain t' b where r: "fs_rename old new t = (t', b)" by (cases "fs_rename old new t")
  show ?thesis
  proof (cases b)
    case True
    with r fs_rename_done [OF assms _ ne, of t'] that(2) show ?thesis by simp
  next
    case False
    with r have "fst (fs_rename old new t) = t" using fs_rename_refused [of old new t t'] by simp
    then show ?thesis by (rule that(1))
  qed
qed

lemma wf_tree_rename: "wf_tree t \<Longrightarrow> wf_tree (fst (fs_rename old new t))"
  by (rule fs_rename_cases [of t old new]) (simp_all add: wf_tree_moved)

lemma wf_tree_cut: "wf_tree t \<Longrightarrow> p \<noteq> [] \<Longrightarrow> wf_tree (cut p t)"
  by (auto simp: wf_tree_def)

lemma wf_tree_put:
  assumes "wf_tree t" "map_of t p = None" "has_parent p t"
  shows "wf_tree (put_node p n t)"
  unfolding wf_tree_def map_of_put_node
proof (intro conjI allI impI)
  show "(if [] = p then Some n else map_of t []) = Some Folder"
    using assms by (auto simp: wf_tree_def has_parent_def)
next
  fix q x
  assume a: "(if q @ [x] = p then Some n else map_of t (q @ [x])) \<noteq> None"
  have "map_of t q = Some Folder"
  proof (cases "q @ [x] = p")
    case True
    then show ?thesis using assms(3) by (auto simp: has_parent_def)
  next
    case False
    with a obtain m where "map_of t (q @ [x]) = Some m" by auto
    with wf_treeD [OF assms(1)] show ?thesis by blast
  qed
  with assms(2) show "(if q = p then Some n else map_of t q) = Some Folder" by auto
qed

lemma wf_tree_do:
  assumes "wf_tree t"
  shows "wf_tree (fst (fs_do c t))"
proof -
  have root: "map_of t [] = Some Folder" using assms by (simp add: wf_tree_def)
  have create: "wf_tree (fst (fs_create_directory p t))" for p
    using assms wf_tree_put [OF assms, of p Folder]
    by (auto simp: fs_create_directory_def split: option.splits fs_node.splits)
  have remove_all: "wf_tree (fst (fs_remove_all p t))" for p
    using assms wf_tree_cut [OF assms, of p] by (auto simp: fs_remove_all_def wf_tree_def)
  have remove: "wf_tree (fst (fs_remove p t))" for p
    using assms root wf_tree_cut [OF assms, of p]
    by (cases "p = []") (auto simp: fs_remove_def split: option.splits fs_node.splits)
  have copy: "wf_tree (fst (fs_copy_file p q t))" for p q
    using assms wf_tree_put [OF assms, of q] by (auto simp: fs_copy_file_def split: option.splits fs_node.splits)
  note calls = create remove_all remove copy wf_tree_rename [OF assms]
  show ?thesis
    by (cases "(c, t)" rule: fs_do.cases)
      (simp_all add: create_directory_def remove_directory_def rename_directory_def move_directory_def
        copy_file_def move_file_def rename_file_def remove_file_def try_fs_def assms calls)
qed

lemma wf_tree_run: "wf_tree t \<Longrightarrow> wf_tree (fs_run cs t)"
  by (induction cs arbitrary: t) (simp_all add: fs_run_def wf_tree_do)

lemma rename_and_back:
  assumes wf: "wf_tree t" and run: "fs_rename old new t = (t1, True)" and free: "map_of t new = None"
  shows "\<exists>t2. fs_rename new old t1 = (t2, True) \<and> map_of t2 = map_of t"
proof -
  have ne: "old \<noteq> new" using run free by (auto simp: fs_rename_def)
  from fs_rename_done [OF wf run ne] obtain n where t1: "t1 = moved old new t"
    and po: "\<not> prefix old new" and pn: "\<not> prefix new old" and n: "map_of t old = Some n" and new: "new \<noteq> []"
    and below: "\<And>r. r \<noteq> [] \<Longrightarrow> map_of t (new @ r) = None" by blast
  note m = map_of_moved [OF pn po]
  have old: "old \<noteq> []" using po by auto
  have "\<not> prefix old (butlast old)" using old prefix_length_le [of old "butlast old"] by (cases old) auto
  moreover have "\<not> prefix new (butlast old)" using pn prefixeq_butlast prefix_order.trans by blast
  moreover have "map_of t (butlast old) = Some Folder"
    using wf_treeD [OF wf, of "butlast old" "last old" n] old n by simp
  ultimately have "has_parent old t1" using old by (simp add: has_parent_def t1 m)
  moreover have "map_of t1 new = Some n" "map_of t1 old = None" using n pn by (simp_all add: t1 m)
  ultimately have run2: "fs_rename new old t1 = (moved new old t1, True)"
    using ne pn by (simp add: fs_rename_def)
  have "map_of (moved new old t1) q = map_of t q" for q
  proof (cases "prefix old q")
    case True
    then obtain s where "q = old @ s" by (auto simp: prefix_def)
    then show ?thesis by (simp add: map_of_moved [OF po pn] t1 m)
  next
    case nold: False
    show ?thesis
    proof (cases "prefix new q")
      case True
      then obtain s where "q = new @ s" by (auto simp: prefix_def)
      then have "map_of t q = None" using free below by (cases "s = []") simp_all
      with True nold show ?thesis by (simp add: map_of_moved [OF po pn])
    next
      case False
      with nold show ?thesis by (simp add: map_of_moved [OF po pn] t1 m)
    qed
  qed
  with run2 show ?thesis by blast
qed

lemma file_no_prefix:
  assumes "wf_tree t" "map_of t p = Some (File s)" "map_of t q \<noteq> None" "p \<noteq> q"
  shows "\<not> prefix p q"
proof
  assume "prefix p q"
  then obtain r where "q = p @ r" by (auto simp: prefix_def)
  with assms wf_tree_below_file [OF assms(1,2), of r] show False by auto
qed

text \<open>A file that is renamed to the name of another replaces it.\<close>

lemma rename_replaces:
  assumes wf: "wf_tree t" and f: "map_of t old = Some (File s)" "map_of t new = Some (File s')" "old \<noteq> new"
  shows "\<exists>t'. fs_rename old new t = (t', True) \<and> map_of t' = (map_of t)(old := None, new \<mapsto> File s)"
proof -
  have "\<not> prefix old new" "\<not> prefix new old"
    using file_no_prefix [OF wf f(1), of new] file_no_prefix [OF wf f(2), of old] f by simp_all
  note m = map_of_moved [OF this(2,1)]
  have run: "fs_rename old new t = (moved old new t, True)"
    using f \<open>\<not> prefix old new\<close> by (simp add: fs_rename_def)
  have "map_of (moved old new t) q = ((map_of t)(old := None, new \<mapsto> File s)) q" for q
  proof (cases "prefix new q")
    case True
    then obtain r where "q = new @ r" by (auto simp: prefix_def)
    then show ?thesis
      using f wf_tree_below_file [OF wf f(1), of r] wf_tree_below_file [OF wf f(2), of r]
        \<open>\<not> prefix new old\<close> by (cases "r = []") (auto simp: m)
  next
    case nnew: False
    show ?thesis
    proof (cases "prefix old q")
      case True
      then obtain r where r: "q = old @ r" by (auto simp: prefix_def)
      then show ?thesis
        using nnew wf_tree_below_file [OF wf f(1), of r] by (cases "r = []") (auto simp: m)
    next
      case False
      with nnew show ?thesis by (auto simp: m)
    qed
  qed
  with run show ?thesis by blast
qed

fun touched :: "fs_call \<Rightarrow> fs_path list" where
  "touched (CreateDirectory p) = [p]"
| "touched (RemoveDirectory p) = [p]"
| "touched (RenameDirectory p q) = [p, q]"
| "touched (MoveDirectory p q) = [p, q]"
| "touched (CopyFile p q) = [q]"
| "touched (MoveFile p q) = [p, q]"
| "touched (RenameFile p q) = [p, q]"
| "touched (RemoveFile p) = [p]"

lemma do_frame:
  assumes wf: "wf_tree t" and q: "\<forall>p \<in> set (touched c). \<not> prefix p q"
  shows "map_of (fst (fs_do (c, ok) t)) q = map_of t q"
proof -
  have rename: "map_of (fst (fs_rename old new t)) q = map_of t q" if "\<not> prefix old q" "\<not> prefix new q" for old new
    by (rule fs_rename_cases [OF wf, of old new]) (simp_all add: map_of_moved that)
  have create: "map_of (fst (fs_create_directory p t)) q = map_of t q" if "\<not> prefix p q" for p
    using that by (auto simp: fs_create_directory_def split: option.splits fs_node.splits)
  have remove_all: "map_of (fst (fs_remove_all p t)) q = map_of t q" if "\<not> prefix p q" for p
    using that by (auto simp: fs_remove_all_def)
  have remove: "map_of (fst (fs_remove p t)) q = map_of t q" if "\<not> prefix p q" for p
    using that by (auto simp: fs_remove_def split: option.splits fs_node.splits)
  have copy: "map_of (fst (fs_copy_file p p' t)) q = map_of t q" if "\<not> prefix p' q" for p p'
    using that by (auto simp: fs_copy_file_def split: option.splits fs_node.splits)
  show ?thesis
    using q by (cases c) (simp_all add: create_directory_def remove_directory_def rename_directory_def
        move_directory_def copy_file_def move_file_def rename_file_def remove_file_def try_fs_def
        create remove_all remove copy rename)
qed

section \<open>Properties\<close>



end
