(* ===== verification/Json.thy ===== *)
theory Json
  imports Prelude Complex_Main "HOL-Library.List_Lexorder" "HOL-Library.Char_ord"
begin

text \<open>
  The JSON values of \<open>nlohmann::json\<close> (\<open>src/libs/nlohmann/json.hpp\<close>) and the operations the
  program uses on them. An object is a \<open>std::map\<close> and so a list of pairs in increasing key
  order; a finite \<open>double\<close> is the rational number it denotes (the program stores and copies
  doubles but computes nothing with the ones kept in JSON values).
\<close>

section \<open>Values\<close>

type_synonym double = rat

datatype json =
    JNull
  | JBool bool
  | JInt int
  | JFloat double
  | JStr string
  | JArr "json list"
  | JObj "(string \<times> json) list"

fun is_object :: "json \<Rightarrow> bool" where
  "is_object (JObj m) = True"
| "is_object _ = False"

fun is_array :: "json \<Rightarrow> bool" where
  "is_array (JArr xs) = True"
| "is_array _ = False"

section \<open>Ordered maps\<close>

fun obj_put :: "string \<Rightarrow> 'v \<Rightarrow> (string \<times> 'v) list \<Rightarrow> (string \<times> 'v) list" where
  "obj_put k v [] = [(k, v)]"
| "obj_put k v ((k', v') # m) =
     (if k = k' then (k, v) # m
      else if k < k' then (k, v) # (k', v') # m
      else (k', v') # obj_put k v m)"

definition obj_erase :: "string \<Rightarrow> (string \<times> 'v) list \<Rightarrow> (string \<times> 'v) list" where
  "obj_erase k m = filter (\<lambda>(k', _). k' \<noteq> k) m"

definition ordered_obj :: "(string \<times> 'v) list \<Rightarrow> bool" where
  "ordered_obj m \<longleftrightarrow> sorted_wrt (<) (map fst m)"

lemma map_of_obj_put [simp]: "map_of (obj_put k v m) = (map_of m)(k \<mapsto> v)"
  by (induction m) (auto simp: fun_eq_iff)

lemma map_of_obj_erase [simp]: "map_of (obj_erase k m) = (map_of m)(k := None)"
  by (induction m) (auto simp: obj_erase_def fun_eq_iff)

lemma fst_obj_put: "fst ` set (obj_put k v m) = insert k (fst ` set m)"
  by (simp flip: dom_map_of_conv_image_fst)

lemma set_obj_put: "set (obj_put k v m) \<subseteq> insert (k, v) (set m)"
  by (induction m) (auto split: if_split_asm)

lemma snd_obj_put: "snd ` set (obj_put k v m) \<subseteq> insert v (snd ` set m)"
  using image_mono [OF set_obj_put, of snd k v m] by simp

lemma fst_obj_erase: "fst ` set (obj_erase k m) = fst ` set m - {k}"
  by (auto simp: obj_erase_def image_iff)

lemma ordered_obj_Nil [simp]: "ordered_obj []"
  by (simp add: ordered_obj_def)

lemma ordered_obj_Cons [simp]:
  "ordered_obj ((k, v) # m) \<longleftrightarrow> (\<forall>k' \<in> fst ` set m. k < k') \<and> ordered_obj m"
  by (auto simp: ordered_obj_def)

lemma ordered_obj_put [simp]: "ordered_obj m \<Longrightarrow> ordered_obj (obj_put k v m)"
proof (induction m)
  case (Cons p m)
  then show ?case by (cases p) (force simp: fst_obj_put not_less_iff_gr_or_eq)
qed simp

lemma ordered_obj_erase [simp]: "ordered_obj m \<Longrightarrow> ordered_obj (obj_erase k m)"
  by (induction m) (auto simp: obj_erase_def)

lemma ordered_obj_distinct: "ordered_obj m \<Longrightarrow> distinct (map fst m)"
  by (induction m) (auto simp: ordered_obj_def)

lemma ordered_obj_eqI:
  assumes "ordered_obj m" "ordered_obj m'" "map_of m = map_of m'"
  shows "m = m'"
proof (rule map_sorted_distinct_set_unique [where f = fst])
  have d: "distinct (map fst m)" "distinct (map fst m')" using assms ordered_obj_distinct by auto
  with assms(3) show eq: "set m = set m'" by (simp add: map_of_inject_set)
  from d show "distinct (map fst m)" "distinct (map fst m')" by auto
  show "inj_on fst (set m \<union> set m')" using d(2) eq by (simp add: distinct_map)
  show "sorted (map fst m)" "sorted (map fst m')"
    using assms(1,2) unfolding ordered_obj_def
    by (auto simp: sorted_wrt_mono_rel [of _ "(<)" "(\<le>)"])
qed

section \<open>Operations\<close>

text \<open>\<open>contains\<close>, \<open>find\<close>, \<open>empty\<close> and \<open>size\<close>.\<close>

fun j_find :: "string \<Rightarrow> json \<Rightarrow> json option" where
  "j_find k (JObj m) = map_of m k"
| "j_find k _ = None"

definition j_contains :: "string \<Rightarrow> json \<Rightarrow> bool" where
  "j_contains k j \<longleftrightarrow> j_find k j \<noteq> None"

fun j_empty :: "json \<Rightarrow> bool" where
  "j_empty JNull = True"
| "j_empty (JArr xs) = (xs = [])"
| "j_empty (JObj m) = (m = [])"
| "j_empty _ = False"

fun j_size :: "json \<Rightarrow> nat" where
  "j_size JNull = 0"
| "j_size (JArr xs) = length xs"
| "j_size (JObj m) = length m"
| "j_size _ = 1"

text \<open>
  \<open>operator[](key)\<close> on a constant value: an absent key fails the library's assertion, a value
  that is no object throws \<open>type_error\<close> 305.
\<close>

fun j_at :: "string \<Rightarrow> json \<Rightarrow> json result" where
  "j_at k (JObj m) = (case map_of m k of None \<Rightarrow> Inl OutOfBounds | Some v \<Rightarrow> Inr v)"
| "j_at k _ = Inl (Throw ''type_error.305'')"

text \<open>
  \<open>operator[](key)\<close> on a mutable value: null becomes an object, an absent key is inserted with
  the value null. \<open>j_slot\<close> returns the element the reference denotes; \<open>j_put\<close> is the value
  after an assignment through the reference.
\<close>

fun j_slot :: "string \<Rightarrow> json \<Rightarrow> json result" where
  "j_slot k JNull = Inr JNull"
| "j_slot k (JObj m) = Inr (case map_of m k of None \<Rightarrow> JNull | Some v \<Rightarrow> v)"
| "j_slot k _ = Inl (Throw ''type_error.305'')"

fun j_put :: "string \<Rightarrow> json \<Rightarrow> json \<Rightarrow> json result" where
  "j_put k v JNull = Inr (JObj [(k, v)])"
| "j_put k v (JObj m) = Inr (JObj (obj_put k v m))"
| "j_put k v _ = Inl (Throw ''type_error.305'')"

text \<open>The chained form \<open>j[k1]...[kn] = v\<close>.\<close>

fun j_assign :: "string list \<Rightarrow> json \<Rightarrow> json \<Rightarrow> json result" where
  "j_assign [] v j = Inr v"
| "j_assign (k # ks) v j = rbind (j_slot k j) (\<lambda>c. rbind (j_assign ks v c) (\<lambda>c'. j_put k c' j))"

fun j_erase :: "string \<Rightarrow> json \<Rightarrow> json result" where
  "j_erase k (JObj m) = Inr (JObj (obj_erase k m))"
| "j_erase k _ = Inl (Throw ''type_error.307'')"

fun j_push_back :: "json \<Rightarrow> json \<Rightarrow> json result" where
  "j_push_back v JNull = Inr (JArr [v])"
| "j_push_back v (JArr xs) = Inr (JArr (xs @ [v]))"
| "j_push_back v _ = Inl (Throw ''type_error.308'')"

text \<open>Range-based \<open>for\<close> over a value: a scalar is a sequence of one, null of none.\<close>

fun j_elems :: "json \<Rightarrow> json list" where
  "j_elems JNull = []"
| "j_elems (JArr xs) = xs"
| "j_elems (JObj m) = map snd m"
| "j_elems j = [j]"

text \<open>Conversions: \<open>get<int>()\<close> narrows to 32 bits, and a double is cut towards zero.\<close>

definition trunc_int :: "double \<Rightarrow> int" where
  "trunc_int d = (if 0 \<le> d then \<lfloor>d\<rfloor> else \<lceil>d\<rceil>)"

fun j_get_int :: "json \<Rightarrow> int result" where
  "j_get_int (JInt i) = Inr (wrap32 i)"
| "j_get_int (JFloat d) = Inr (wrap32 (trunc_int d))"
| "j_get_int (JBool b) = Inr (if b then 1 else 0)"
| "j_get_int _ = Inl (Throw ''type_error.302'')"

fun j_get_bool :: "json \<Rightarrow> bool result" where
  "j_get_bool (JBool b) = Inr b"
| "j_get_bool _ = Inl (Throw ''type_error.302'')"

fun j_get_string :: "json \<Rightarrow> string result" where
  "j_get_string (JStr s) = Inr s"
| "j_get_string _ = Inl (Throw ''type_error.302'')"

text \<open>\<open>value(key, default)\<close> for a string default.\<close>

fun j_value_string :: "string \<Rightarrow> string \<Rightarrow> json \<Rightarrow> string result" where
  "j_value_string k d (JObj m) = (case map_of m k of None \<Rightarrow> Inr d | Some v \<Rightarrow> j_get_string v)"
| "j_value_string k d _ = Inl (Throw ''type_error.306'')"

fun j_value :: "string \<Rightarrow> json \<Rightarrow> json \<Rightarrow> json result" where
  "j_value k d (JObj m) = (case map_of m k of None \<Rightarrow> Inr d | Some v \<Rightarrow> Inr v)"
| "j_value k d _ = Inl (Throw ''type_error.306'')"

text \<open>
  \<open>merge_patch\<close> walks the members of the patch in key order, erasing the ones that are null
  and merging the others into the member of the same name, which \<open>operator[]\<close> creates.
\<close>

fun merge_patch :: "json \<Rightarrow> json \<Rightarrow> json"
  and merge_members :: "(string \<times> json) list \<Rightarrow> (string \<times> json) list \<Rightarrow> (string \<times> json) list" where
  "merge_patch j (JObj p) = JObj (merge_members (case j of JObj m \<Rightarrow> m | _ \<Rightarrow> []) p)"
| "merge_patch j p = p"
| "merge_members m [] = m"
| "merge_members m ((k, v) # p) =
     merge_members
       (if v = JNull then obj_erase k m
        else obj_put k (merge_patch (case map_of m k of None \<Rightarrow> JNull | Some c \<Rightarrow> c) v) m) p"

section \<open>Well-formed values\<close>

text \<open>Every object, at every depth, is in key order: what \<open>std::map\<close> guarantees.\<close>

fun wf_json :: "json \<Rightarrow> bool" where
  "wf_json (JArr xs) = list_all wf_json xs"
| "wf_json (JObj m) = (ordered_obj m \<and> list_all (\<lambda>p. wf_json (snd p)) m)"
| "wf_json _ = True"

lemma wf_json_find: "wf_json j \<Longrightarrow> j_find k j = Some c \<Longrightarrow> wf_json c"
  by (cases j) (auto simp: list_all_iff dest!: map_of_SomeD)

lemma wf_json_put: "wf_json j \<Longrightarrow> wf_json v \<Longrightarrow> j_put k v j = Inr j' \<Longrightarrow> wf_json j'"
  using snd_obj_put by (cases j) (fastforce simp: list_all_iff)+

lemma wf_json_slot: "wf_json j \<Longrightarrow> j_slot k j = Inr c \<Longrightarrow> wf_json c"
  by (cases j) (auto simp: list_all_iff split: option.splits dest!: map_of_SomeD)

lemma wf_json_assign: "wf_json j \<Longrightarrow> wf_json v \<Longrightarrow> j_assign ks v j = Inr j' \<Longrightarrow> wf_json j'"
proof (induction ks arbitrary: j j')
  case (Cons k ks)
  then show ?case by (auto simp: rbind_Inr_iff intro: wf_json_put wf_json_slot)
qed simp

lemma wf_json_erase: "wf_json j \<Longrightarrow> j_erase k j = Inr j' \<Longrightarrow> wf_json j'"
  using ordered_obj_erase by (cases j) (auto simp: list_all_iff obj_erase_def)

section \<open>Paths\<close>

text \<open>The value a chain of keys leads to, where every step exists.\<close>

fun j_path :: "string list \<Rightarrow> json \<Rightarrow> json option" where
  "j_path [] j = Some j"
| "j_path (k # ks) j = (case j_find k j of None \<Rightarrow> None | Some c \<Rightarrow> j_path ks c)"

lemma j_find_put: "j_put k v j = Inr j' \<Longrightarrow> j_find k' j' = (if k' = k then Some v else j_find k' j)"
  by (cases j) auto

lemma j_find_erase: "j_erase k j = Inr j' \<Longrightarrow> j_find k' j' = (if k' = k then None else j_find k' j)"
  by (cases j) auto

lemma j_slot_find: "j_slot k j = Inr c \<Longrightarrow> c = (case j_find k j of None \<Rightarrow> JNull | Some c' \<Rightarrow> c')"
  by (cases j) (auto split: option.splits)

lemma j_put_ok_iff_slot: "(\<exists>j'. j_put k v j = Inr j') \<longleftrightarrow> (\<exists>c. j_slot k j = Inr c)"
  by (cases j) auto

lemma j_path_assign: "j_assign ks v j = Inr j' \<Longrightarrow> j_path ks j' = Some v"
proof (induction ks arbitrary: j j')
  case (Cons k ks)
  then show ?case by (auto simp: rbind_Inr_iff j_find_put)
qed simp

text \<open>Two paths diverge when neither is a prefix of the other.\<close>

fun diverge :: "string list \<Rightarrow> string list \<Rightarrow> bool" where
  "diverge (k # ks) (l # ls) = (k \<noteq> l \<or> diverge ks ls)"
| "diverge _ _ = False"

lemma j_path_JNull: "diverge ks ls \<Longrightarrow> j_path ls JNull = None"
  by (cases ls) (auto elim: diverge.elims)

lemma j_path_assign_diverge:
  "j_assign ks v j = Inr j' \<Longrightarrow> diverge ks ls \<Longrightarrow> j_path ls j' = j_path ls j"
proof (induction ks ls arbitrary: j j' rule: diverge.induct)
  case (1 k ks l ls)
  from 1(2) obtain c c' where c: "j_slot k j = Inr c" "j_assign ks v c = Inr c'" "j_put k c' j = Inr j'"
    by (auto simp: rbind_Inr_iff)
  show ?case
  proof (cases "k = l")
    case True
    with 1(3) have d: "diverge ks ls" by simp
    with 1(1) c(2) have "j_path ls c' = j_path ls c" by blast
    then show ?thesis using True c d j_slot_find [OF c(1)]
      by (auto simp: j_find_put j_path_JNull split: option.splits)
  next
    case False
    then show ?thesis using c(3) by (simp add: j_find_put)
  qed
qed auto

end
