(* ===== verification/TcpClient.thy ===== *)
theory TcpClient
  imports Json
begin

text \<open>
  The JSON client over TCP (\<open>src/src/components/network/socketclient.cpp\<close>). A socket of asio is the
  bytes that can be read from it, in the pieces single reads return; name resolution, the answers of
  connection attempts, and the parser and printer of JSON are arguments.
\<close>

section \<open>State\<close>

text \<open>
  \<open>arrived\<close> are the pieces the system already holds, \<open>coming\<close> those that follow; \<open>peer_closes\<close> tells
  whether the other side closes after them or stays silent. \<open>sent\<close> is what was written.
\<close>

record tcp_client =
  host :: string
  port :: string
  is_open :: bool
  arrived :: "string list"
  coming :: "string list"
  peer_closes :: bool
  sent :: string

abbreviation newline :: char where
  "newline \<equiv> CHR 0x0A"

section \<open>Connecting\<close>

text \<open>
  What a connection attempt does to the socket: it cannot be created, or it is created and the other
  side refuses, which leaves the socket open, or accepts.
\<close>

datatype attempt = NoSocket | Refused | Accepted

fun connect_range :: "(string \<Rightarrow> attempt) \<Rightarrow> string list \<Rightarrow> bool \<Rightarrow> bool \<times> bool" where
  "connect_range attempts [] opened = (opened, False)"
| "connect_range attempts (e # es) opened = (case attempts e of
     Accepted \<Rightarrow> (True, True)
   | Refused \<Rightarrow> connect_range attempts es True
   | NoSocket \<Rightarrow> connect_range attempts es False)"

definition Connect ::
    "(string \<Rightarrow> string \<Rightarrow> string list option) \<Rightarrow> (string \<Rightarrow> attempt) \<Rightarrow> tcp_client \<Rightarrow> tcp_client \<times> bool" where
  "Connect resolve attempts c = (case resolve (host c) (port c) of
     None \<Rightarrow> (c, False)
   | Some endpoints \<Rightarrow>
       (let (opened, ok) = connect_range attempts endpoints (is_open c) in (c\<lparr>is_open := opened\<rparr>, ok)))"

definition IsConnected :: "tcp_client \<Rightarrow> bool" where
  "IsConnected c = is_open c"

definition Disconnect :: "tcp_client \<Rightarrow> tcp_client" where
  "Disconnect c = (if is_open c then c\<lparr>is_open := False\<rparr> else c)"

text \<open>Nothing catches what \<open>resolve\<close> and \<open>connect\<close> throw.\<close>

definition CheckServerExistence ::
    "(string \<Rightarrow> string \<Rightarrow> string list option) \<Rightarrow> (string \<Rightarrow> attempt) \<Rightarrow> tcp_client \<Rightarrow> bool result" where
  "CheckServerExistence resolve attempts c = (case resolve (host c) (port c) of
     None \<Rightarrow> Inl (Throw ''resolve'')
   | Some endpoints \<Rightarrow>
       (let (opened, ok) = connect_range attempts endpoints False in
        if \<not> ok then Inl (Throw ''connect'') else Inr opened))"

definition SetTimeout :: "int \<Rightarrow> tcp_client \<Rightarrow> tcp_client" where
  "SetTimeout timeout c = c"

section \<open>Sending and receiving\<close>

text \<open>
  \<open>write n\<close> tells, for a message of \<open>n\<close> bytes, how many are written and whether that succeeds;
  \<open>dump\<close> throws for strings that are no UTF-8.
\<close>

definition Send ::
    "(json \<Rightarrow> string option) \<Rightarrow> (nat \<Rightarrow> nat \<times> bool) \<Rightarrow> json \<Rightarrow> tcp_client \<Rightarrow> tcp_client \<times> bool" where
  "Send dump write data c = (case dump data of
     None \<Rightarrow> (c, False)
   | Some message \<Rightarrow>
       (let (n, ok) = write (length message) in (c\<lparr>sent := sent c @ take n message\<rparr>, ok)))"

text \<open>\<open>available\<close>: the number of bytes, or an error of a closed socket.\<close>

definition available :: "tcp_client \<Rightarrow> nat option" where
  "available c = (if is_open c then Some (length (concat (arrived c))) else None)"

text \<open>
  \<open>read_until\<close> reads piece after piece into the buffer until that holds the delimiter. At the end of
  the stream it throws; while the other side is silent it waits.
\<close>

datatype until = Got string "string list" | EndOfStream | Silent

fun read_until :: "bool \<Rightarrow> string \<Rightarrow> string list \<Rightarrow> until" where
  "read_until closes buf ps =
     (if newline \<in> set buf then Got buf ps
      else (case ps of
          [] \<Rightarrow> if closes then EndOfStream else Silent
        | p # ps \<Rightarrow> read_until closes (buf @ p) ps))"

declare read_until.simps [simp del]

text \<open>The socket after \<open>rest\<close> is left of the pieces.\<close>

definition leave :: "string list \<Rightarrow> tcp_client \<Rightarrow> tcp_client" where
  "leave rest c = (let k = length (arrived c @ coming c) - length rest in
     c\<lparr>arrived := drop k (arrived c), coming := drop (k - length (arrived c)) (coming c)\<rparr>)"

text \<open>
  The buffer is a local variable: what was read behind the newline goes with it. The answer is the
  response (unchanged where nothing is parsed), whether it was received, and the client.
\<close>

definition Receive ::
    "(string \<Rightarrow> json option) \<Rightarrow> json \<Rightarrow> int \<Rightarrow> tcp_client \<Rightarrow> (json \<times> bool \<times> tcp_client) outcome" where
  "Receive parse response timeout c = (case available c of
     None \<Rightarrow> Returns (response, False, c)
   | Some n \<Rightarrow>
       if n > 0
       then (case read_until (peer_closes c) [] (arrived c @ coming c) of
               Silent \<Rightarrow> Waits
             | EndOfStream \<Rightarrow> Returns (response, False, leave [] c)
             | Got buf rest \<Rightarrow>
                 (let c = leave rest c in
                  case parse (takeWhile (\<lambda>x. x \<noteq> newline) buf) of
                    None \<Rightarrow> Returns (response, False, c)
                  | Some j \<Rightarrow> Returns (j, True, c)))
       else Returns (response, False, c))"

text \<open>One read of as many bytes as are available: some of the pieces that arrived.\<close>

definition ClearSocket :: "nat \<Rightarrow> tcp_client \<Rightarrow> tcp_client" where
  "ClearSocket k c = (case available c of
     None \<Rightarrow> c
   | Some n \<Rightarrow> if n > 0 then c\<lparr>arrived := drop k (arrived c)\<rparr> else c)"

section \<open>Lemmas\<close>

lemma read_until_scan:
  assumes "\<forall>p \<in> set pre. newline \<notin> set p" "newline \<notin> set buf"
  shows "read_until closes buf (pre @ ps) = read_until closes (buf @ concat pre) ps"
  using assms
proof (induction pre arbitrary: buf)
  case (Cons p pre)
  then have "read_until closes buf ((p # pre) @ ps) = read_until closes (buf @ p) (pre @ ps)"
    by (subst read_until.simps) simp
  with Cons show ?case by simp
qed simp

lemma read_until_silent:
  assumes "newline \<notin> set (concat ps)" "newline \<notin> set buf"
  shows "read_until closes buf ps = (if closes then EndOfStream else Silent)"
  using read_until_scan [of ps buf closes "[]"] assms by (simp add: read_until.simps)

lemma read_until_hit:
  assumes "\<forall>p \<in> set pre. newline \<notin> set p"
  shows "read_until closes [] (pre @ (u @ newline # v) # rest) = Got (concat pre @ u @ newline # v) rest"
proof -
  have "newline \<notin> set (concat pre)" using assms by simp
  then have "read_until closes (concat pre) ((u @ newline # v) # rest) =
      read_until closes (concat pre @ u @ newline # v) rest"
    by (subst read_until.simps) simp
  also have "\<dots> = Got (concat pre @ u @ newline # v) rest" by (subst read_until.simps) simp
  finally show ?thesis using read_until_scan [OF assms, of "[]"] by simp
qed

lemma leave_all: "leave [] c = c\<lparr>arrived := [], coming := []\<rparr>"
  by (simp add: leave_def)

lemma leave_suffix:
  "arrived c @ coming c = ps @ rest \<Longrightarrow> arrived (leave rest c) @ coming (leave rest c) = rest"
proof -
  assume a: "arrived c @ coming c = ps @ rest"
  have "drop (length ps) (arrived c @ coming c) = rest" using a by simp
  moreover have "length (arrived c @ coming c) - length rest = length ps" using a by simp
  ultimately show ?thesis by (simp add: leave_def Let_def)
qed

lemma Receive_silent:
  assumes "newline \<notin> set (concat (arrived c @ coming c))"
  shows "Receive parse r t c =
    (if is_open c \<and> concat (arrived c) \<noteq> []
     then (if peer_closes c then Returns (r, False, c\<lparr>arrived := [], coming := []\<rparr>) else Waits)
     else Returns (r, False, c))"
proof -
  have "read_until (peer_closes c) [] (arrived c @ coming c) =
      (if peer_closes c then EndOfStream else Silent)"
    using assms by (intro read_until_silent) simp_all
  then show ?thesis by (simp add: Receive_def available_def leave_all)
qed

lemma Receive_line:
  assumes "is_open c" "concat (arrived c) \<noteq> []" "newline \<notin> set (concat pre)"
    "arrived c @ coming c = pre @ (u @ newline # v) # rest" "newline \<notin> set u"
  shows "Receive parse r t c =
    (case parse (concat pre @ u) of
       None \<Rightarrow> Returns (r, False, leave rest c)
     | Some j \<Rightarrow> Returns (j, True, leave rest c))"
proof -
  have "read_until (peer_closes c) [] (arrived c @ coming c) = Got (concat pre @ u @ newline # v) rest"
    unfolding assms(4) using assms(3) by (intro read_until_hit) simp
  moreover have "takeWhile (\<lambda>x. x \<noteq> newline) (concat pre @ u @ newline # v) = concat pre @ u"
    using assms(3,5) takeWhile_append2 [of "concat pre @ u" "\<lambda>x. x \<noteq> newline" "newline # v"] by auto
  ultimately show ?thesis using assms(1,2) by (simp add: Receive_def available_def Let_def)
qed

definition send_all ::
    "(json \<Rightarrow> string option) \<Rightarrow> (json \<times> (nat \<Rightarrow> nat \<times> bool)) list \<Rightarrow> tcp_client \<Rightarrow> tcp_client" where
  "send_all dump msgs p = fold (\<lambda>(d, w) p. fst (Send dump w d p)) msgs p"

lemma send_all_no_newline:
  assumes "\<forall>d s. dump d = Some s \<longrightarrow> newline \<notin> set s" "newline \<notin> set (sent p)"
  shows "newline \<notin> set (sent (send_all dump msgs p))"
  using assms(2)
proof (induction msgs arbitrary: p)
  case (Cons m msgs)
  obtain d w where m: "m = (d, w)" by (cases m)
  have "newline \<notin> set (sent (fst (Send dump w d p)))"
    using assms(1) Cons.prems
    by (auto simp: Send_def split: option.splits prod.splits dest: in_set_takeD)
  with Cons.IH show ?case by (simp add: send_all_def m)
qed (simp add: send_all_def)

lemma connect_range_opened:
  "es \<noteq> [] \<Longrightarrow> attempts (last es) = Refused \<Longrightarrow> \<forall>e \<in> set es. attempts e \<noteq> Accepted \<Longrightarrow>
     connect_range attempts es b = (True, False)"
proof (induction es arbitrary: b)
  case (Cons e es)
  then show ?case by (cases "es = []") (auto split: attempt.splits)
qed simp

lemma connect_range_ok: "snd (connect_range attempts es b) \<longleftrightarrow> (\<exists>e \<in> set es. attempts e = Accepted)"
  by (induction es arbitrary: b) (auto split: attempt.splits)

lemma connect_range_ok_open: "connect_range attempts es b = (p, True) \<Longrightarrow> p"
  by (induction es arbitrary: b) (auto split: attempt.splits)

text \<open>A refused connection leaves the client connected, as far as it can tell.\<close>

lemma refused_is_connected:
  assumes "resolve (host c) (port c) = Some es" "es \<noteq> []" "\<forall>e \<in> set es. attempts e = Refused"
  shows "\<exists>c'. Connect resolve attempts c = (c', False) \<and> IsConnected c'"
  using assms connect_range_opened [of es attempts "is_open c"]
  by (simp add: Connect_def IsConnected_def)

text \<open>The question whether a server exists is answered with yes or not at all.\<close>

lemma CheckServerExistence_never_false: "CheckServerExistence resolve attempts c \<noteq> Inr False"
  by (auto simp: CheckServerExistence_def split: option.splits prod.splits dest: connect_range_ok_open)

section \<open>Properties\<close>

text \<open>C37. Messages are sent without an end of line and received up to one. Whatever one client sends to
  another, however the network cuts it, is never received: the receiver answers false, losing
  the data when the sender closes, or waits for ever, whatever the timeout. Of lines that arrive from
  elsewhere the first is parsed, and what was read together with its end is lost.\<close>

theorem messages_between_clients:
  assumes "\<forall>d s. dump d = Some s \<longrightarrow> newline \<notin> set s"
  shows "(sent p = [] \<and> concat (arrived c @ coming c) = sent (send_all dump msgs p) \<longrightarrow>
      Receive parse r t c =
       (if is_open c \<and> concat (arrived c) \<noteq> []
        then (if peer_closes c then Returns (r, False, c\<lparr>arrived := [], coming := []\<rparr>) else Waits)
        else Returns (r, False, c))) \<and>
    (is_open b \<and> concat (arrived b) \<noteq> [] \<and> newline \<notin> set (concat pre @ u) \<and>
     arrived b @ coming b = pre @ (u @ newline # v) # rest \<longrightarrow>
      (\<exists>b'. Receive parse r t b =
          (case parse (concat pre @ u) of None \<Rightarrow> Returns (r, False, b') | Some j \<Rightarrow> Returns (j, True, b')) \<and>
        arrived b' @ coming b' = rest))"
proof (intro conjI impI)
  assume s: "sent p = [] \<and> concat (arrived c @ coming c) = sent (send_all dump msgs p)"
  with send_all_no_newline [OF assms, of p msgs]
  have "newline \<notin> set (concat (arrived c @ coming c))" by (simp only: s) simp
  then show "Receive parse r t c =
       (if is_open c \<and> concat (arrived c) \<noteq> []
        then (if peer_closes c then Returns (r, False, c\<lparr>arrived := [], coming := []\<rparr>) else Waits)
        else Returns (r, False, c))" by (rule Receive_silent)
next
  assume a: "is_open b \<and> concat (arrived b) \<noteq> [] \<and> newline \<notin> set (concat pre @ u) \<and>
     arrived b @ coming b = pre @ (u @ newline # v) # rest"
  have "arrived (leave rest b) @ coming (leave rest b) = rest"
    by (rule leave_suffix [where ps = "pre @ [u @ newline # v]"]) (simp add: a)
  moreover have "Receive parse r t b = (case parse (concat pre @ u) of
      None \<Rightarrow> Returns (r, False, leave rest b) | Some j \<Rightarrow> Returns (j, True, leave rest b))"
    using a by (intro Receive_line) simp_all
  ultimately show "\<exists>b'. Receive parse r t b =
      (case parse (concat pre @ u) of None \<Rightarrow> Returns (r, False, b') | Some j \<Rightarrow> Returns (j, True, b')) \<and>
    arrived b' @ coming b' = rest" by blast
qed

lemma messages_between_clients_witness:
  "let dump = (\<lambda>j. case j of JBool True \<Rightarrow> Some ''true'' | _ \<Rightarrow> Some ''null'');
       idle = \<lparr>host = ''mount'', port = ''4400'', is_open = True, arrived = [], coming = [],
         peer_closes = False, sent = []\<rparr>
   in Receive (\<lambda>_. None) JNull 10 (idle\<lparr>arrived := [''tr'', ''uenul''], coming := [''l'']\<rparr>) = Waits \<and>
      sent (send_all dump [(JBool True, \<lambda>n. (n, True)), (JNull, \<lambda>n. (n, True))] idle) = ''truenull''"
proof -
  let ?dump = "\<lambda>j. case j of JBool True \<Rightarrow> Some ''true'' | _ \<Rightarrow> Some ''null''"
  let ?idle = "\<lparr>host = ''mount'', port = ''4400'', is_open = True, arrived = [], coming = [],
         peer_closes = False, sent = []\<rparr>"
  let ?c = "?idle\<lparr>arrived := [''tr'', ''uenul''], coming := [''l'']\<rparr>"
  let ?msgs = "[(JBool True, \<lambda>n. (n, True)), (JNull, \<lambda>n. (n, True))]"
  have d: "\<forall>d s. ?dump d = Some s \<longrightarrow> newline \<notin> set s"
    by (auto split: json.splits bool.splits)
  have s: "sent (send_all ?dump ?msgs ?idle) = ''truenull''" by (simp add: send_all_def Send_def)
  have "Receive (\<lambda>_. None) JNull 10 ?c =
       (if is_open ?c \<and> concat (arrived ?c) \<noteq> []
        then (if peer_closes ?c then Returns (JNull, False, ?c\<lparr>arrived := [], coming := []\<rparr>) else Waits)
        else Returns (JNull, False, ?c))"
    by (rule messages_between_clients [OF d, THEN conjunct1, THEN mp, of ?idle ?c ?msgs])
      (unfold s, simp)
  then have "Receive (\<lambda>_. None) JNull 10 ?c = Waits" by simp
  with s show ?thesis by simp
qed

end
