(* ===== verification/Strings.thy ===== *)
theory Strings
  imports Prelude
begin

text \<open>
  The members of \<open>std::string\<close> the program uses: \<open>find\<close>, \<open>find_last_of\<close>, \<open>substr\<close> around
  them, and the laws the parsers of the components share. A search that fails is \<open>None\<close>
  (\<open>npos\<close>).
\<close>

section \<open>Searching\<close>

definition starts_with :: "string \<Rightarrow> string \<Rightarrow> bool" where
  "starts_with p s \<longleftrightarrow> take (length p) s = p"

fun str_find :: "string \<Rightarrow> string \<Rightarrow> nat option" where
  "str_find p [] = (if p = [] then Some 0 else None)"
| "str_find p (c # s) =
     (if starts_with p (c # s) then Some 0 else map_option Suc (str_find p s))"

text \<open>\<open>find_last_of\<close>: the last position whose character is in the given set.\<close>

fun find_last_of :: "string \<Rightarrow> string \<Rightarrow> nat option" where
  "find_last_of cs [] = None"
| "find_last_of cs (c # s) =
     (case find_last_of cs s of
        Some i \<Rightarrow> Some (Suc i)
      | None \<Rightarrow> if c \<in> set cs then Some 0 else None)"

lemma starts_with_iff: "starts_with p s \<longleftrightarrow> (\<exists>r. s = p @ r)"
  unfolding starts_with_def by (metis append_eq_conv_conj append_take_drop_id)

lemma str_find_Some:
  "str_find p s = Some n \<Longrightarrow> s = take n s @ p @ drop (n + length p) s \<and> n + length p \<le> length s"
proof (induction s arbitrary: n)
  case Nil
  then show ?case by (auto split: if_splits)
next
  case (Cons c s)
  show ?case
  proof (cases "starts_with p (c # s)")
    case True
    with Cons.prems have "n = 0" by simp
    moreover obtain r where "c # s = p @ r" using True by (auto simp: starts_with_iff)
    ultimately show ?thesis using arg_cong [of "c # s" "p @ r" length] by simp
  next
    case False
    with Cons.prems obtain m where "str_find p s = Some m" "n = Suc m" by auto
    with Cons.IH [of m] show ?thesis by simp
  qed
qed

lemma str_find_None_iff: "str_find p s = None \<longleftrightarrow> (\<nexists>u v. s = u @ p @ v)"
proof (induction s)
  case (Cons c s)
  show ?case
  proof
    assume n: "str_find p (c # s) = None"
    show "\<nexists>u v. c # s = u @ p @ v"
    proof
      assume "\<exists>u v. c # s = u @ p @ v"
      then obtain u v where uv: "c # s = u @ p @ v" by blast
      show False
      proof (cases u)
        case Nil
        with uv have "starts_with p (c # s)" by (auto simp: starts_with_iff)
        with n show False by simp
      next
        case (Cons d u')
        with uv have "s = u' @ p @ v" by simp
        with n Cons.IH show False by (auto split: if_splits)
      qed
    qed
  next
    assume n: "\<nexists>u v. c # s = u @ p @ v"
    then have "\<not> starts_with p (c # s)" by (metis append_Nil starts_with_iff)
    moreover have "\<nexists>u v. s = u @ p @ v" using n by (metis append_Cons)
    ultimately show "str_find p (c # s) = None" using Cons.IH by simp
  qed
qed auto

lemma str_find_char_None [simp]: "str_find [c] s = None \<longleftrightarrow> c \<notin> set s"
  unfolding str_find_None_iff by (metis append_Cons append_Nil in_set_conv_decomp)

lemma str_find_char_append: "c \<notin> set s \<Longrightarrow> str_find [c] (s @ c # t) = Some (length s)"
  by (induction s) (auto simp: starts_with_def)

lemma find_last_of_None [simp]: "find_last_of cs s = None \<longleftrightarrow> set s \<inter> set cs = {}"
  by (induction s) (auto split: option.splits)

lemma find_last_of_Some:
  "find_last_of cs s = Some n \<Longrightarrow>
     n < length s \<and> s ! n \<in> set cs \<and> set (drop (Suc n) s) \<inter> set cs = {}"
proof (induction s arbitrary: n)
  case (Cons c s)
  show ?case
  proof (cases "find_last_of cs s")
    case None
    with Cons.prems have "c \<in> set cs" "n = 0" by (auto split: if_splits)
    moreover have "set s \<inter> set cs = {}" using None by simp
    ultimately show ?thesis by simp
  next
    case (Some i)
    with Cons.prems Cons.IH [of i] show ?thesis by auto
  qed
qed simp

section \<open>Decimal numbers\<close>

text \<open>\<open>std::to_string\<close> of an unsigned number.\<close>

fun show_nat :: "nat \<Rightarrow> string" where
  "show_nat n = (if n < 10 then [char_of (48 + n)] else show_nat (n div 10) @ [char_of (48 + n mod 10)])"

declare show_nat.simps [simp del]

definition read_nat :: "string \<Rightarrow> nat" where
  "read_nat ds = foldl (\<lambda>n c. 10 * n + (of_char c - 48)) 0 ds"

lemma read_show_nat: "read_nat (show_nat n) = n"
proof (induction n rule: show_nat.induct)
  case (1 n)
  show ?case
  proof (cases "n < 10")
    case True
    then show ?thesis by (subst show_nat.simps) (simp add: read_nat_def)
  next
    case False
    with 1 have "read_nat (show_nat (n div 10)) = n div 10" by simp
    with False show ?thesis by (subst show_nat.simps) (simp add: read_nat_def)
  qed
qed

lemma show_nat_inj [simp]: "show_nat m = show_nat n \<longleftrightarrow> m = n"
  by (metis read_show_nat)

lemma show_nat_digits:
  "show_nat n \<noteq> [] \<and> (\<forall>c \<in> set (show_nat n). (48 :: nat) \<le> of_char c \<and> of_char c \<le> (57 :: nat))"
proof (induction n rule: show_nat.induct)
  case (1 n)
  show ?case
  proof (cases "n < 10")
    case True
    then show ?thesis by (subst (1 2) show_nat.simps) simp
  next
    case False
    with 1 show ?thesis by (subst (1 2) show_nat.simps) auto
  qed
qed

section \<open>Splitting at a delimiter\<close>

text \<open>
  The loop of \<open>ConfigManager::split\<close>. With an empty delimiter \<open>find\<close> answers 0 for ever and
  the loop does not end, so the function is partial.
\<close>

partial_function (option) split_loop :: "string \<Rightarrow> string list \<Rightarrow> string \<Rightarrow> string list option" where
  "split_loop delimiter tokens tempStr =
     (case str_find delimiter tempStr of
        None \<Rightarrow> Some (tokens @ [tempStr])
      | Some pos \<Rightarrow>
          split_loop delimiter (tokens @ [take pos tempStr]) (drop (pos + length delimiter) tempStr))"

definition split :: "string \<Rightarrow> string \<Rightarrow> string list option" where
  "split s delimiter = split_loop delimiter [] s"

fun join :: "string \<Rightarrow> string list \<Rightarrow> string" where
  "join d [] = []"
| "join d [t] = t"
| "join d (t # ts) = t @ d @ join d ts"

lemma join_Cons: "ts \<noteq> [] \<Longrightarrow> join d (t # ts) = t @ d @ join d ts"
  by (cases ts) auto

lemma split_loop_returns:
  assumes "delimiter \<noteq> []"
  shows "\<exists>ts. split_loop delimiter tokens s = Some (tokens @ ts) \<and> ts \<noteq> [] \<and> join delimiter ts = s"
proof (induction s arbitrary: tokens rule: length_induct)
  case (1 s)
  show ?case
  proof (cases "str_find delimiter s")
    case None
    then show ?thesis by (subst split_loop.simps) auto
  next
    case (Some pos)
    let ?r = "drop (pos + length delimiter) s"
    from str_find_Some [OF Some] have s: "s = take pos s @ delimiter @ ?r"
      and l: "pos + length delimiter \<le> length s" by auto
    from l assms have "length ?r < length s" by (cases delimiter) auto
    with 1 obtain ts where "split_loop delimiter (tokens @ [take pos s]) ?r
        = Some ((tokens @ [take pos s]) @ ts)" "ts \<noteq> []" "join delimiter ts = ?r" by blast
    with Some s show ?thesis by (subst split_loop.simps) (auto simp: join_Cons)
  qed
qed

lemma str_find_empty [simp]: "str_find [] s = Some 0"
  by (cases s) (auto simp: starts_with_def)

lemma split_loop_Some_nonempty: "split_loop delimiter tokens s = Some ts \<Longrightarrow> delimiter \<noteq> []"
  by (erule split_loop.raw_induct [where P = "\<lambda>d _ _ _. d \<noteq> []", rotated])
    (auto split: option.splits)

lemma split_loop_empty: "split_loop [] tokens s = None"
  using split_loop_Some_nonempty by fastforce

lemma split_loop_char:
  "c \<notin> set s \<Longrightarrow> split_loop [c] ts (s @ c # t) = split_loop [c] (ts @ [s]) t"
  by (subst split_loop.simps) (simp add: str_find_char_append)

lemma split_loop_char_last: "c \<notin> set s \<Longrightarrow> split_loop [c] ts s = Some (ts @ [s])"
  by (subst split_loop.simps) (simp flip: str_find_char_None)

lemma split_loop_join:
  "ks \<noteq> [] \<Longrightarrow> \<forall>k \<in> set ks. c \<notin> set k \<Longrightarrow> split_loop [c] ts (join [c] ks) = Some (ts @ ks)"
  by (induction "[c]" ks arbitrary: ts rule: join.induct)
    (simp_all add: split_loop_char_last split_loop_char)

end
