(* ===== verification/HttpClient.thy ===== *)
theory HttpClient
  imports Json Strings
begin

text \<open>
  The HTTP client (\<open>src/src/components/network/httpclient.cpp\<close>). What the library makes of a request,
  and the parser of JSON, are arguments. The four requests differ only in their method: parameters and
  data are taken and not used, and the client is one for plain HTTP whatever \<open>ssl_enabled\<close> says.
\<close>

datatype http_method = GET | POST | PUT | DELETE | HEAD

record http_client =
  server_host :: string
  server_port :: int
  ssl_enabled :: bool
  ca_cert_path :: string
  client_cert_path :: string
  client_key_path :: string

text \<open>A request: the server, the method and the path. The answer: the status and the body, or nothing.\<close>

type_synonym http_request = "string \<times> int \<times> http_method \<times> string"
type_synonym http = "http_request \<Rightarrow> (int \<times> string) option"

definition HttpClient :: "string \<Rightarrow> int \<Rightarrow> http_client" where
  "HttpClient h p = \<lparr>server_host = h, server_port = p, ssl_enabled = False, ca_cert_path = [],
     client_cert_path = [], client_key_path = []\<rparr>"

definition send_request ::
    "http \<Rightarrow> (string \<Rightarrow> string + json) \<Rightarrow> http_method \<Rightarrow> http_client \<Rightarrow> string \<Rightarrow> json \<times> string
       \<Rightarrow> bool \<times> json \<times> string" where
  "send_request http parse method c path out =
     (case http (server_host c, server_port c, method, path) of
        None \<Rightarrow> (False, fst out, ''Unknown error'')
      | Some (status, body) \<Rightarrow>
          if status \<noteq> 200 then (False, fst out, body)
          else (case parse body of
              Inl w \<Rightarrow> (False, fst out, w)
            | Inr j \<Rightarrow> (True, j, snd out)))"

type_synonym parameters = "string \<rightharpoonup> string"

definition SendGetRequest ::
    "http \<Rightarrow> (string \<Rightarrow> string + json) \<Rightarrow> http_client \<Rightarrow> string \<Rightarrow> parameters \<Rightarrow> json \<times> string \<Rightarrow> bool \<times> json \<times> string" where
  "SendGetRequest http parse c path params out = send_request http parse GET c path out"

definition SendPostRequest ::
    "http \<Rightarrow> (string \<Rightarrow> string + json) \<Rightarrow> http_client \<Rightarrow> string \<Rightarrow> parameters \<Rightarrow> json \<Rightarrow> json \<times> string
       \<Rightarrow> bool \<times> json \<times> string" where
  "SendPostRequest http parse c path params data out = send_request http parse POST c path out"

definition SendPutRequest ::
    "http \<Rightarrow> (string \<Rightarrow> string + json) \<Rightarrow> http_client \<Rightarrow> string \<Rightarrow> parameters \<Rightarrow> json \<Rightarrow> json \<times> string
       \<Rightarrow> bool \<times> json \<times> string" where
  "SendPutRequest http parse c path params data out = send_request http parse PUT c path out"

definition SendDeleteRequest ::
    "http \<Rightarrow> (string \<Rightarrow> string + json) \<Rightarrow> http_client \<Rightarrow> string \<Rightarrow> parameters \<Rightarrow> json \<times> string \<Rightarrow> bool \<times> json \<times> string" where
  "SendDeleteRequest http parse c path params out = send_request http parse DELETE c path out"

definition SetSslEnabled :: "bool \<Rightarrow> http_client \<Rightarrow> http_client" where
  "SetSslEnabled enabled c = c\<lparr>ssl_enabled := enabled\<rparr>"

definition SetCaCertPath :: "string \<Rightarrow> http_client \<Rightarrow> http_client" where
  "SetCaCertPath path c = c\<lparr>ca_cert_path := path\<rparr>"

definition SetClientCertPath :: "string \<Rightarrow> http_client \<Rightarrow> http_client" where
  "SetClientCertPath path c = c\<lparr>client_cert_path := path\<rparr>"

definition SetClientKeyPath :: "string \<Rightarrow> http_client \<Rightarrow> http_client" where
  "SetClientKeyPath path c = c\<lparr>client_key_path := path\<rparr>"

section \<open>Scanning\<close>

definition int_text :: "int \<Rightarrow> string" where
  "int_text i = (if i < 0 then CHR ''-'' # show_nat (nat (- i)) else show_nat (nat i))"

definition answers_ok :: "http \<Rightarrow> http_client \<Rightarrow> string \<Rightarrow> bool" where
  "answers_ok http c path \<longleftrightarrow>
     (case http (server_host c, server_port c, HEAD, path) of None \<Rightarrow> False | Some (status, body) \<Rightarrow> status = 200)"

text \<open>Where the last port is the greatest \<open>int\<close>, the counter overflows.\<close>

function scan_ports :: "http \<Rightarrow> http_client \<Rightarrow> int \<Rightarrow> int \<Rightarrow> int list \<Rightarrow> int list result" where
  "scan_ports http c port end_port open_ports =
     (if port \<le> end_port
      then (let found = (if answers_ok http c (''/'' @ int_text port) then open_ports @ [port] else open_ports)
            in if port \<ge> 2147483647 then Inl IntOverflow
               else scan_ports http c (port + 1) end_port found)
      else Inr open_ports)"
  by pat_completeness auto
termination
  by (relation "measure (\<lambda>(http, c, port, end_port, open_ports). nat (end_port + 1 - port))") auto

declare scan_ports.simps [simp del]

definition ScanPort :: "http \<Rightarrow> http_client \<Rightarrow> int \<Rightarrow> int \<Rightarrow> (bool \<times> int list) result" where
  "ScanPort http c start_port end_port =
     rbind (scan_ports http c start_port end_port []) (\<lambda>open_ports. Inr (True, open_ports))"

definition CheckServerStatus :: "http \<Rightarrow> http_client \<Rightarrow> bool \<times> string" where
  "CheckServerStatus http c =
     (case http (server_host c, server_port c, HEAD, ''/'') of
        None \<Rightarrow> (False, ''Unknown error'')
      | Some (status, body) \<Rightarrow> if status \<noteq> 200 then (False, int_text status) else (True, ''Running''))"

section \<open>Lemmas\<close>

text \<open>The scan asks one port of the server for the numbers as paths; it tells nothing of other ports.\<close>

lemma scan_ports_spec:
  assumes "end_port < 2147483647"
  shows "scan_ports http c port end_port ps =
    Inr (ps @ filter (\<lambda>p. answers_ok http c (''/'' @ int_text p)) [port..end_port])"
proof (induction "nat (end_port + 1 - port)" arbitrary: port ps)
  case 0
  then have "end_port < port" by simp
  then show ?case by (subst scan_ports.simps) simp
next
  case (Suc n)
  then have le: "port \<le> end_port" and n: "n = nat (end_port + 1 - (port + 1))" by linarith+
  from le assms have "\<not> port \<ge> 2147483647" by linarith
  with le Suc.hyps(1) [OF n] show ?case
    by (subst scan_ports.simps) (simp add: Let_def upto_rec1 del: upto.simps)
qed

lemma ScanPort_spec:
  "end_port < 2147483647 \<Longrightarrow> ScanPort http c start_port end_port =
     Inr (True, filter (\<lambda>p. answers_ok http c (''/'' @ int_text p)) [start_port..end_port])"
  by (simp add: ScanPort_def scan_ports_spec)

lemma ScanPort_overflow:
  assumes "start_port \<le> 2147483647"
  shows "ScanPort http c start_port 2147483647 = Inl IntOverflow"
proof -
  have "scan_ports http c p 2147483647 ps = Inl IntOverflow" if "p \<le> 2147483647" for p ps
    using that
  proof (induction "nat (2147483647 - p)" arbitrary: p ps)
    case 0
    then have "p = 2147483647" by linarith
    then show ?case by (subst scan_ports.simps) (simp add: Let_def)
  next
    case (Suc n)
    then have "p + 1 \<le> 2147483647" "n = nat (2147483647 - (p + 1))" by linarith+
    with Suc.hyps(1) [of "p + 1"] Suc.prems show ?case by (subst scan_ports.simps) (simp add: Let_def)
  qed
  with assms show ?thesis by (simp add: ScanPort_def)
qed

text \<open>An answer is true exactly for status 200 with a body that is JSON.\<close>

lemma send_request_ok:
  "send_request http parse m c path (j, e) = (True, r, w) \<longleftrightarrow>
     (\<exists>body. http (server_host c, server_port c, m, path) = Some (200, body) \<and> parse body = Inr r \<and> w = e)"
  by (auto simp: send_request_def split: option.splits sum.splits)

end
