(* ===== verification/Database.thy ===== *)
theory Database
  imports Prelude
begin

text \<open>
  The database (\<open>src/src/components/database/database.cpp\<close>). SQLite is an argument: \<open>exec\<close> gives, for a
  statement and the state of the database, the rows it hands to the callback, the code it returns, the
  error message it sets (none where memory is short), and the state afterwards.
\<close>

type_synonym 'd exec = "string \<Rightarrow> 'd \<Rightarrow> string option list list \<times> bool \<times> string option \<times> 'd"

definition DatabaseManager :: "(string \<Rightarrow> 'd + string) \<Rightarrow> string \<Rightarrow> 'd result" where
  "DatabaseManager sqlite3_open db_path = (case sqlite3_open db_path of
     Inl conn \<Rightarrow> Inr conn
   | Inr errmsg \<Rightarrow> Inl (Throw (''Failed to open database: '' @ errmsg)))"

text \<open>A null value becomes the empty text.\<close>

definition query_callback :: "string option list \<Rightarrow> string list list \<Rightarrow> string list list" where
  "query_callback argv rows =
     rows @ [foldl (\<lambda>row v. row @ [case v of Some s \<Rightarrow> s | None \<Rightarrow> []]) [] argv]"

definition execute_query :: "'d exec \<Rightarrow> string \<Rightarrow> 'd \<Rightarrow> (string list list \<times> 'd) result" where
  "execute_query exec sql conn =
     (let (argvs, ok, err_msg, conn) = exec sql conn; rows = fold query_callback argvs [] in
      if \<not> ok
      then (case err_msg of
          None \<Rightarrow> Inl NullDeref
        | Some w \<Rightarrow> Inl (Throw (''Failed to execute SQL query: '' @ w)))
      else Inr (rows, conn))"

definition execute_update :: "'d exec \<Rightarrow> string \<Rightarrow> 'd \<Rightarrow> (bool \<times> 'd) result" where
  "execute_update exec sql conn =
     (let (argvs, ok, err_msg, conn) = exec sql conn in
      if \<not> ok
      then (case err_msg of
          None \<Rightarrow> Inl NullDeref
        | Some w \<Rightarrow> Inl (Throw (''Failed to execute SQL update: '' @ w)))
      else Inr (True, conn))"

text \<open>A row identifier of 64 bits is cut to an \<open>int\<close>.\<close>

definition get_last_insert_id :: "('d \<Rightarrow> int) \<Rightarrow> 'd \<Rightarrow> int" where
  "get_last_insert_id last_insert_rowid conn = wrap32 (last_insert_rowid conn)"

section \<open>Lemmas\<close>

lemma query_callback_row:
  "query_callback argv rows = rows @ [map (\<lambda>v. case v of Some s \<Rightarrow> s | None \<Rightarrow> []) argv]"
proof -
  have "foldl (\<lambda>row v. row @ [f v]) r vs = r @ map f vs" for f :: "string option \<Rightarrow> string" and r vs
    by (induction vs arbitrary: r) simp_all
  then show ?thesis by (simp add: query_callback_def)
qed

text \<open>Rows come in the order and with the number of columns the database gives them.\<close>

lemma query_rows:
  "fold query_callback argvs rows = rows @ map (map (\<lambda>v. case v of Some s \<Rightarrow> s | None \<Rightarrow> [])) argvs"
  by (induction argvs arbitrary: rows) (simp_all add: query_callback_row)

lemma execute_query_rows:
  assumes "exec sql conn = (argvs, True, w, conn')"
  shows "execute_query exec sql conn =
    Inr (map (map (\<lambda>v. case v of Some s \<Rightarrow> s | None \<Rightarrow> [])) argvs, conn')"
  using assms by (simp add: execute_query_def query_rows)

text \<open>Every failure with a message is an exception; the answer of an update is never false.\<close>

lemma execute_update_never_false: "execute_update exec sql conn \<noteq> Inr (False, conn')"
  by (simp add: execute_update_def split: prod.splits option.splits)

lemma null_and_empty_alike:
  "query_callback [None] rows = query_callback [Some []] rows"
  by (simp add: query_callback_row)

end
