(* ===== verification/Registry.thy ===== *)
theory Registry
  imports Prelude
begin

text \<open>
  The contract shared by the managers that keep a vector of named objects (tasks, achievements,
  device messages): an object is appended, and removed by erasing the first one of its name. The
  consequences are proved here once from the two laws.
\<close>

lemma map_erase_find_if:
  "map f (if find_if (\<lambda>x. f x = n) xs = length xs then xs else erase_at (find_if (\<lambda>x. f x = n) xs) xs) =
     remove1 n (map f xs)"
proof (cases "find_if (\<lambda>x. f x = n) xs < length xs")
  case True
  then obtain ys x zs where s: "xs = ys @ x # zs" "f x = n" "\<forall>y \<in> set ys. f y \<noteq> n"
    "find_if (\<lambda>x. f x = n) xs = length ys" by (rule find_if_split)
  then have "n \<notin> set (map f ys)" by auto
  with s show ?thesis by (simp add: remove1_append)
next
  case False
  then have "\<forall>x \<in> set xs. f x \<noteq> n" by (simp add: find_simps)
  moreover from this have "find_if (\<lambda>x. f x = n) xs = length xs" by (simp add: find_simps)
  moreover from calculation have "n \<notin> set (map f xs)" by auto
  ultimately show ?thesis by (simp add: remove1_idem)
qed

locale named_list =
  fixes names :: "'s \<Rightarrow> string list" and delete :: "string \<Rightarrow> 's \<Rightarrow> 's"
  assumes names_delete: "names (delete n s) = remove1 n (names s)"
begin

lemma delete_absent: "n \<notin> set (names s) \<Longrightarrow> names (delete n s) = names s"
  by (simp add: names_delete remove1_idem)

lemma delete_count: "count_list (names (delete n s)) m = count_list (names s) m - (if m = n then 1 else 0)"
proof -
  have "count_list (remove1 n xs) m = count_list xs m - (if m = n then 1 else 0)" for xs
    by (induction xs) (auto simp: Suc_diff_Suc count_list_0_iff)
  then show ?thesis by (simp add: names_delete)
qed

lemma delete_distinct:
  "distinct (names s) \<Longrightarrow> distinct (names (delete n s)) \<and> set (names (delete n s)) = set (names s) - {n}"
  by (simp add: names_delete)

lemma delete_commute: "names (delete m (delete n s)) = names (delete n (delete m s))"
  by (simp add: names_delete remove1_commute)

end

locale named_registry = named_list names delete
  for names :: "'s \<Rightarrow> string list" and delete :: "string \<Rightarrow> 's \<Rightarrow> 's" +
  fixes append :: "'a \<Rightarrow> 's \<Rightarrow> 's" and key :: "'s \<Rightarrow> 'a \<Rightarrow> string"
  assumes names_append: "names (append x s) = names s @ [key s x]"
    and key_append: "key (append y s) x = key s x"
begin

lemma names_fold: "names (fold append xs s) = names s @ map (key s) xs"
  by (induction xs arbitrary: s) (simp_all add: names_append key_append)

lemma append_delete_fresh: "key s x \<notin> set (names s) \<Longrightarrow> names (delete (key s x) (append x s)) = names s"
  by (simp add: names_delete names_append remove1_append)

lemma append_delete_shadowed:
  "key s x \<in> set (names s) \<Longrightarrow> names (delete (key s x) (append x s)) = remove1 (key s x) (names s) @ [key s x]"
  by (simp add: names_delete names_append remove1_append)

end

end
