(* ===== verification/Device.thy ===== *)
theory Device
  imports Strings Registry Json
begin

text \<open>
  The UUID generator of \<open>src/src/components/property/uuid.cpp\<close> and the message list every device
  carries (\<open>src/src/components/device/device.hpp\<close>, \<open>device.cpp\<close>, with the messages of
  \<open>property/imessage.hpp\<close>). The random numbers are an argument: \<open>rnd i\<close> is the \<open>i\<close>-th value drawn,
  which \<open>uniform_int_distribution(0, 15)\<close> keeps below 16.
\<close>

section \<open>Identifiers\<close>

definition generateUUID :: "(nat \<Rightarrow> nat) \<Rightarrow> string" where
  "generateUUID rnd =
     concat (map (\<lambda>i. (if i = 8 \<or> i = 12 \<or> i = 16 \<or> i = 20 then ''-'' else []) @ [hex_char (rnd i)]) [0..<32])"

definition generateUUIDWithFormat :: "(nat \<Rightarrow> nat) \<Rightarrow> bool \<Rightarrow> bool \<Rightarrow> string" where
  "generateUUIDWithFormat rnd use_braces use_hyphens =
     (if use_braces then ''{'' else []) @
     [hex_char (rnd 0)] @ (if use_hyphens then ''-'' else []) @
     [hex_char (rnd 1)] @ ''-'' @
     [hex_char (rnd 2)] @ (if use_hyphens then ''-'' else []) @
     [hex_char (rnd 3)] @ ''-'' @
     map (\<lambda>i. hex_char (rnd (4 + i))) [0..<12] @
     (if use_braces then ''}'' else [])"

section \<open>Messages\<close>

datatype any_value = AnyInt int | AnyDouble double | AnyBool bool | AnyString string | AnyOther

record imessage =
  message_device_name :: string
  message_device_uuid :: string
  message_uuid :: string
  message_name :: string
  message_value :: any_value

text \<open>\<open>info_task\<close> is the task attached to the message, by its address.\<close>

record message_info =
  info_message :: imessage
  info_task :: "nat option"

text \<open>\<open>notified\<close> records the calls of every observer: the new and the old message.\<close>

record device =
  dev_name :: string
  dev_uuid :: string
  device_messages :: "message_info list"
  notified :: "(imessage \<times> imessage) list"

definition Device :: "(nat \<Rightarrow> nat) \<Rightarrow> string \<Rightarrow> device" where
  "Device rnd name =
     \<lparr>dev_name = name, dev_uuid = generateUUIDWithFormat rnd True True, device_messages = [], notified = []\<rparr>"

definition IANotifyObservers :: "imessage \<Rightarrow> imessage \<Rightarrow> device \<Rightarrow> device" where
  "IANotifyObservers newMessage oldMessage d = d\<lparr>notified := notified d @ [(newMessage, oldMessage)]\<rparr>"

definition message_matches :: "string \<Rightarrow> message_info \<Rightarrow> bool" where
  "message_matches identifier msg \<longleftrightarrow>
     message_uuid (info_message msg) = identifier \<or> message_name (info_message msg) = identifier"

definition IAFindMessage :: "string \<Rightarrow> device \<Rightarrow> nat" where
  "IAFindMessage identifier d = find_if (message_matches identifier) (device_messages d)"

text \<open>An insertion notifies through the one-argument overload, as a removal does.\<close>

definition IAInsertMessage :: "imessage \<Rightarrow> nat option \<Rightarrow> device \<Rightarrow> device" where
  "IAInsertMessage message task d =
     IANotifyObservers message message
       (d\<lparr>device_messages := device_messages d @ [\<lparr>info_message = message, info_task = task\<rparr>]\<rparr>)"

definition IACreateMessage :: "(nat \<Rightarrow> nat) \<Rightarrow> string \<Rightarrow> any_value \<Rightarrow> device \<Rightarrow> imessage" where
  "IACreateMessage rnd name val d =
     \<lparr>message_device_name = dev_name d, message_device_uuid = dev_uuid d,
      message_uuid = generateUUIDWithFormat rnd True True, message_name = name, message_value = val\<rparr>"

definition IAUpdateMessage :: "string \<Rightarrow> imessage \<Rightarrow> device \<Rightarrow> device" where
  "IAUpdateMessage identifier newMessage d =
     (let i = IAFindMessage identifier d in
      if i \<noteq> length (device_messages d) then
        (let old = info_message (device_messages d ! i) in
         IANotifyObservers newMessage old
           (d\<lparr>device_messages := (device_messages d)[i := (device_messages d ! i)\<lparr>info_message := newMessage\<rparr>]\<rparr>))
      else d)"

definition IARemoveMessage :: "string \<Rightarrow> device \<Rightarrow> device" where
  "IARemoveMessage identifier d =
     (let i = IAFindMessage identifier d in
      if i \<noteq> length (device_messages d) then
        (let removed = info_message (device_messages d ! i) in
         IANotifyObservers removed removed (d\<lparr>device_messages := erase_at i (device_messages d)\<rparr>))
      else d)"

text \<open>A pointer into the list, or null.\<close>

definition IAGetMessage :: "string \<Rightarrow> device \<Rightarrow> imessage option" where
  "IAGetMessage identifier d =
     (let i = IAFindMessage identifier d in
      if i \<noteq> length (device_messages d) then Some (info_message (device_messages d ! i)) else None)"

section \<open>Lemmas\<close>

lemma IAGetMessage_first:
  "IAGetMessage k d = map_option info_message (List.find (message_matches k) (device_messages d))"
proof -
  have "(if find_if P xs \<noteq> length xs then Some (f (xs ! find_if P xs)) else None) = map_option f (List.find P xs)"
    for P :: "message_info \<Rightarrow> bool" and f :: "message_info \<Rightarrow> imessage" and xs
    by (induction xs) auto
  then show ?thesis unfolding IAGetMessage_def IAFindMessage_def Let_def by blast
qed

section \<open>Properties\<close>

text \<open>The message list: a message inserted into a list without its name or identifier is the one
  found under either; a message inserted where one matches already stays hidden behind it; an
  update replaces the message found, keeps its task and its place and tells the observers both
  versions; a removal erases the message found and restores what an insertion hid.\<close>

theorem device_messages_spec:
  defines "fresh k d \<equiv> \<forall>x \<in> set (device_messages d). \<not> message_matches k x"
  shows "(fresh (message_name m) d \<longrightarrow> IAGetMessage (message_name m) (IAInsertMessage m t d) = Some m) \<and>
    (fresh (message_uuid m) d \<longrightarrow> IAGetMessage (message_uuid m) (IAInsertMessage m t d) = Some m) \<and>
    (\<not> fresh k d \<longrightarrow> IAGetMessage k (IAInsertMessage m t d) = IAGetMessage k d) \<and>
    (fresh k d \<longrightarrow> IAUpdateMessage k m d = d \<and> IARemoveMessage k d = d) \<and>
    (\<not> fresh k d \<longrightarrow> (\<exists>ys x zs. device_messages d = ys @ x # zs \<and> IAGetMessage k d = Some (info_message x) \<and>
       device_messages (IAUpdateMessage k m d) = ys @ x\<lparr>info_message := m\<rparr> # zs \<and>
       notified (IAUpdateMessage k m d) = notified d @ [(m, info_message x)] \<and>
       device_messages (IARemoveMessage k d) = ys @ zs))"
proof (intro conjI impI)
  have ins: "device_messages (IAInsertMessage m t d) = device_messages d @ [\<lparr>info_message = m, info_task = t\<rparr>]"
    by (simp add: IAInsertMessage_def IANotifyObservers_def)
  have found: "IAGetMessage j (IAInsertMessage m t d) = (if fresh j d then (if message_matches j \<lparr>info_message = m, info_task = t\<rparr>
      then Some m else None) else IAGetMessage j d)" for j
  proof -
    have "List.find P (xs @ [x]) = (if \<forall>y \<in> set xs. \<not> P y then (if P x then Some x else None) else List.find P xs)"
      for P :: "message_info \<Rightarrow> bool" and xs x
      by (induction xs) auto
    then show ?thesis by (simp add: IAGetMessage_first ins fresh_def)
  qed
  show "IAGetMessage (message_name m) (IAInsertMessage m t d) = Some m" if "fresh (message_name m) d"
    using that found by (simp add: message_matches_def)
  show "IAGetMessage (message_uuid m) (IAInsertMessage m t d) = Some m" if "fresh (message_uuid m) d"
    using that found by (simp add: message_matches_def)
  show "IAGetMessage k (IAInsertMessage m t d) = IAGetMessage k d" if "\<not> fresh k d"
    using that found by simp
  show "IAUpdateMessage k m d = d" "IARemoveMessage k d = d" if "fresh k d"
    using that find_if_end_iff [of "message_matches k" "device_messages d"]
    by (simp_all add: fresh_def IAUpdateMessage_def IARemoveMessage_def IAFindMessage_def)
  assume "\<not> fresh k d"
  then have "find_if (message_matches k) (device_messages d) < length (device_messages d)"
    by (simp add: fresh_def find_simps)
  then obtain ys x zs where s: "device_messages d = ys @ x # zs" "message_matches k x"
    "find_if (message_matches k) (device_messages d) = length ys" by (rule find_if_split)
  then show "\<exists>ys x zs. device_messages d = ys @ x # zs \<and> IAGetMessage k d = Some (info_message x) \<and>
       device_messages (IAUpdateMessage k m d) = ys @ x\<lparr>info_message := m\<rparr> # zs \<and>
       notified (IAUpdateMessage k m d) = notified d @ [(m, info_message x)] \<and>
       device_messages (IARemoveMessage k d) = ys @ zs"
    by (intro exI [of _ ys] exI [of _ x] exI [of _ zs])
      (simp add: IAGetMessage_def IAUpdateMessage_def IARemoveMessage_def IAFindMessage_def IANotifyObservers_def
        Let_def)
qed

lemma device_messages_spec_witness:
  "IAGetMessage ''gain'' (IAInsertMessage \<lparr>message_device_name = ''d'', message_device_uuid = [],
     message_uuid = ''u'', message_name = ''gain'', message_value = AnyInt 3\<rparr> None (Device (\<lambda>_. 0) ''d'')) =
   Some \<lparr>message_device_name = ''d'', message_device_uuid = [], message_uuid = ''u'', message_name = ''gain'',
     message_value = AnyInt 3\<rparr>"
proof -
  let ?m = "\<lparr>message_device_name = ''d'', message_device_uuid = [], message_uuid = ''u'',
    message_name = ''gain'', message_value = AnyInt 3\<rparr>"
  have "device_messages (Device (\<lambda>_. 0) ''d'') = []" by (simp add: Device_def)
  then show ?thesis using device_messages_spec [where d = "Device (\<lambda>_. 0) ''d''" and m = ?m and t = None] by simp
qed

text \<open>\<open>generateUUID\<close> gives 32 hexadecimal digits in groups of 8, 4, 4, 4 and 12; the identifier
  devices and messages carry, of \<open>generateUUIDWithFormat\<close>, has only 16 digits, in groups of 1, 1, 1,
  1 and 12, and a different draw of any of them gives a different identifier.\<close>

theorem uuid_shape:
  assumes "\<forall>i. rnd i < 16" and "\<forall>i. rnd' i < 16"
  shows "length (generateUUID rnd) = 36 \<and>
    filter (\<lambda>i. generateUUID rnd ! i = CHR ''-'') [0..<36] = [8, 13, 18, 23] \<and>
    length (generateUUIDWithFormat rnd True True) = 22 \<and>
    (generateUUIDWithFormat rnd b h = generateUUIDWithFormat rnd' b h \<longleftrightarrow> (\<forall>i < 16. rnd i = rnd' i))"
proof (intro conjI)
  have nh: "hex_char (rnd i) \<noteq> CHR ''-''" for i
    using assms(1) by (simp add: hex_char_not_hyphen)
  have inj: "hex_char (rnd i) = hex_char (rnd' i) \<longleftrightarrow> rnd i = rnd' i" for i
    using assms by (simp add: hex_char_inj)
  have up: "[0..<32] = [0, 1, 2, 3, 4, 5, 6, 7, 8, 9, 10, 11, 12, 13, 14, 15, 16, 17, 18, 19, 20, 21, 22, 23,
      24, 25, 26, 27, 28, 29, 30, 31 :: nat]" "[0..<36] = [0..<32] @ [32, 33, 34, 35 :: nat]"
    by code_simp+
  note u = generateUUID_def [of rnd, unfolded up, simplified]
  show "length (generateUUID rnd) = 36" by (simp add: u)
  show "filter (\<lambda>i. generateUUID rnd ! i = CHR ''-'') [0..<36] = [8, 13, 18, 23]"
    unfolding u up by (simp add: nh)
  show "length (generateUUIDWithFormat rnd True True) = 22" by (simp add: generateUUIDWithFormat_def)
  have "(\<forall>i < 16. rnd i = rnd' i) \<longleftrightarrow> (\<forall>i < 4. rnd i = rnd' i) \<and> (\<forall>i < 12. rnd (4 + i) = rnd' (4 + i))"
  proof
    assume h: "(\<forall>i < 4. rnd i = rnd' i) \<and> (\<forall>i < 12. rnd (4 + i) = rnd' (4 + i))"
    show "\<forall>i < 16. rnd i = rnd' i"
    proof (intro allI impI)
      fix i :: nat
      assume "i < 16"
      then show "rnd i = rnd' i" using h spec [OF conjunct2 [OF h], of "i - 4"] by (cases "i < 4") auto
    qed
  qed auto
  moreover have "(\<forall>i < 4. rnd i = rnd' i) \<longleftrightarrow> rnd 0 = rnd' 0 \<and> rnd 1 = rnd' 1 \<and> rnd 2 = rnd' 2 \<and> rnd 3 = rnd' 3"
    by (auto simp: less_Suc_eq numeral_eq_Suc)
  ultimately show "generateUUIDWithFormat rnd b h = generateUUIDWithFormat rnd' b h \<longleftrightarrow> (\<forall>i < 16. rnd i = rnd' i)"
    by (auto simp: generateUUIDWithFormat_def inj)
qed

lemma uuid_shape_witness: "length (generateUUID (\<lambda>i. i mod 16)) = 36"
  using uuid_shape [of "\<lambda>i. i mod 16" "\<lambda>i. i mod 16" True True] by simp

end
