(* ===== verification/Messages.thy ===== *)
theory Messages
  imports Device
begin

text \<open>
  The texts of messages (\<open>src/src/components/property/imessage.cpp\<close>). How a \<open>double\<close> is printed is an
  argument.
\<close>

section \<open>Printing\<close>

definition print_int :: "int \<Rightarrow> string" where
  "print_int i = (if i < 0 then CHR ''-'' # show_nat (nat (- i)) else show_nat (nat i))"

definition print_bool :: "bool \<Rightarrow> string" where
  "print_bool b = (if b then ''true'' else ''false'')"

definition quoted :: "string \<Rightarrow> string" where
  "quoted s = CHR 0x22 # s @ [CHR 0x22]"

definition member :: "string \<Rightarrow> string \<Rightarrow> string" where
  "member k v = quoted k @ '':'' @ v"

definition element :: "string \<Rightarrow> string \<Rightarrow> string" where
  "element n v = ''<'' @ n @ ''>'' @ v @ ''</'' @ n @ ''>''"

fun value_json :: "(double \<Rightarrow> string) \<Rightarrow> any_value \<Rightarrow> string" where
  "value_json pd (AnyInt i) = print_int i"
| "value_json pd (AnyDouble d) = pd d"
| "value_json pd (AnyBool b) = print_bool b"
| "value_json pd (AnyString s) = quoted s"
| "value_json pd AnyOther = []"

fun value_xml :: "(double \<Rightarrow> string) \<Rightarrow> any_value \<Rightarrow> string" where
  "value_xml pd (AnyInt i) = print_int i"
| "value_xml pd (AnyDouble d) = pd d"
| "value_xml pd (AnyBool b) = print_bool b"
| "value_xml pd (AnyString s) = s"
| "value_xml pd AnyOther = []"

section \<open>Messages\<close>

definition head_json :: "imessage \<Rightarrow> string" where
  "head_json m =
     member ''device_name'' (quoted (message_device_name m)) @ '','' @
     member ''device_uuid'' (quoted (message_device_uuid m)) @ '','' @
     member ''message_uuid'' (quoted (message_uuid m)) @ '','' @
     member ''name'' (quoted (message_name m)) @ '',''"

definition toJson :: "(double \<Rightarrow> string) \<Rightarrow> imessage \<Rightarrow> string" where
  "toJson pd m = ''{'' @ head_json m @ member ''value'' (value_json pd (message_value m)) @ ''}''"

definition head_xml :: "imessage \<Rightarrow> string" where
  "head_xml m =
     element ''device_name'' (message_device_name m) @
     element ''device_uuid'' (message_device_uuid m) @
     element ''message_uuid'' (message_uuid m) @
     element ''name'' (message_name m)"

definition toXml :: "(double \<Rightarrow> string) \<Rightarrow> imessage \<Rightarrow> string" where
  "toXml pd m = element ''message'' (head_xml m @ element ''value'' (value_xml pd (message_value m)))"

text \<open>\<open>getValue\<close> with the cast to its type; every failure becomes one exception.\<close>

definition getValue :: "(any_value \<Rightarrow> 'a option) \<Rightarrow> imessage \<Rightarrow> 'a result" where
  "getValue any_cast m = (case any_cast (message_value m) of
     None \<Rightarrow> Inl (Throw ''Failed to get value from the message.'')
   | Some v \<Rightarrow> Inr v)"

definition setValue :: "any_value \<Rightarrow> imessage \<Rightarrow> imessage" where
  "setValue v m = m\<lparr>message_value := v\<rparr>"

section \<open>Images\<close>

record iimage = imessage +
  im_width :: int
  im_height :: int
  im_depth :: int
  im_gain :: int
  im_iso :: int
  im_offset :: int
  im_binning :: int
  im_duration :: double
  im_is_color :: bool
  im_center_ra :: string
  im_center_dec :: string
  im_author :: string
  im_time :: string
  im_software :: string

definition image_fields :: "iimage \<Rightarrow> (string \<times> any_value) list" where
  "image_fields m =
     [(''width'', AnyInt (im_width m)), (''height'', AnyInt (im_height m)), (''depth'', AnyInt (im_depth m)),
      (''gain'', AnyInt (im_gain m)), (''iso'', AnyInt (im_iso m)), (''offset'', AnyInt (im_offset m)),
      (''binning'', AnyInt (im_binning m)), (''duration'', AnyDouble (im_duration m)),
      (''is_color'', AnyBool (im_is_color m)), (''center_ra'', AnyString (im_center_ra m)),
      (''center_dec'', AnyString (im_center_dec m)), (''author'', AnyString (im_author m)),
      (''time'', AnyString (im_time m)), (''software'', AnyString (im_software m))]"

definition image_toJson :: "(double \<Rightarrow> string) \<Rightarrow> iimage \<Rightarrow> string" where
  "image_toJson pd m = ''{'' @ head_json (imessage.truncate m) @
     member ''value'' (''{'' @ join '','' (map (\<lambda>(k, v). member k (value_json pd v)) (image_fields m)) @ ''}'') @ ''}''"

definition image_toXml :: "(double \<Rightarrow> string) \<Rightarrow> iimage \<Rightarrow> string" where
  "image_toXml pd m = element ''message'' (head_xml (imessage.truncate m) @
     element ''value'' (concat (map (\<lambda>(k, v). element k (value_xml pd v)) (image_fields m))))"

section \<open>Lemmas\<close>

abbreviation plain :: "string \<Rightarrow> bool" where
  "plain s \<equiv> CHR 0x22 \<notin> set s"

fun plain_value :: "any_value \<Rightarrow> bool" where
  "plain_value (AnyString s) = plain s"
| "plain_value v = True"

lemma split_at_char: "c \<notin> set s \<Longrightarrow> c \<notin> set t \<Longrightarrow> s @ c # u = t @ c # v \<longleftrightarrow> s = t \<and> u = v"
proof (induction s arbitrary: t)
  case Nil
  then show ?case by (cases t) auto
next
  case (Cons x s)
  then show ?case by (cases t) auto
qed

lemma quoted_append: "plain s \<Longrightarrow> plain t \<Longrightarrow> quoted s @ u = quoted t @ v \<longleftrightarrow> s = t \<and> u = v"
  using split_at_char [of "CHR 0x22" s t u v] by (simp add: quoted_def)

definition plain_head :: "imessage \<Rightarrow> bool" where
  "plain_head m \<longleftrightarrow> plain (message_device_name m) \<and> plain (message_device_uuid m) \<and>
     plain (message_uuid m) \<and> plain (message_name m)"

lemma head_json_append:
  assumes "plain_head m" "plain_head n"
  shows "head_json m @ u = head_json n @ v \<longleftrightarrow>
    message_device_name m = message_device_name n \<and> message_device_uuid m = message_device_uuid n \<and>
    message_uuid m = message_uuid n \<and> message_name m = message_name n \<and> u = v"
  using assms unfolding plain_head_def
  by (simp add: head_json_def member_def quoted_append)

lemma print_int_inj: "print_int i = print_int j \<longleftrightarrow> i = j"
proof
  have h: "show_nat n \<noteq> CHR ''-'' # s" for n s
    using show_nat_digits [of n] by (cases "show_nat n") auto
  assume "print_int i = print_int j"
  then show "i = j" using h h [symmetric] by (auto simp: print_int_def split: if_splits)
qed simp

lemma print_int_chars: "c \<in> set (print_int i) \<Longrightarrow> c = CHR ''-'' \<or> (48 :: nat) \<le> of_char c \<and> of_char c \<le> (57 :: nat)"
  using show_nat_digits [of "nat i"] show_nat_digits [of "nat (- i)"]
  by (auto simp: print_int_def split: if_splits)

lemma print_int_first: "\<exists>c s. print_int i = c # s \<and> c \<noteq> CHR ''t'' \<and> c \<noteq> CHR ''f'' \<and> c \<noteq> CHR 0x22"
proof -
  have "print_int i \<noteq> []" using show_nat_digits [of "nat i"] by (simp add: print_int_def)
  then obtain c s where c: "print_int i = c # s" by (cases "print_int i") auto
  then have "c = CHR ''-'' \<or> (48 :: nat) \<le> of_char c \<and> of_char c \<le> (57 :: nat)"
    by (intro print_int_chars [of c i]) simp
  with c show ?thesis by auto
qed

text \<open>Without doubles the printed value tells the value; one of another type prints as nothing.\<close>

fun exact :: "any_value \<Rightarrow> bool" where
  "exact (AnyDouble d) = False"
| "exact v = True"

lemma value_json_inj:
  assumes "exact v" "exact w"
  shows "value_json pd v = value_json pd w \<longleftrightarrow> v = w"
proof -
  have b: "print_bool b = print_bool c \<longleftrightarrow> b = c" for b c by (simp add: print_bool_def)
  have ib: "print_int i \<noteq> print_bool b" for i b using print_int_first [of i] by (auto simp: print_bool_def)
  have iq: "print_int i \<noteq> quoted s" for i s using print_int_first [of i] by (auto simp: quoted_def)
  have i0: "print_int i \<noteq> []" for i using print_int_first [of i] by auto
  have bq: "print_bool b \<noteq> quoted s" for b s by (simp add: print_bool_def quoted_def)
  have b0: "print_bool b \<noteq> []" for b by (simp add: print_bool_def)
  have q: "quoted s = quoted t \<longleftrightarrow> s = t" "quoted s \<noteq> []" for s t by (simp_all add: quoted_def)
  note facts = b ib ib [symmetric] iq iq [symmetric] i0 i0 [symmetric] bq bq [symmetric] b0 b0 [symmetric]
    q q(2) [symmetric] print_int_inj
  show ?thesis using assms by (cases v; cases w) (simp_all add: facts)
qed

lemma toJson_inj:
  assumes "plain_head m" "plain_head n"
  shows "toJson pd m = toJson pd n \<longleftrightarrow>
    message_device_name m = message_device_name n \<and> message_device_uuid m = message_device_uuid n \<and>
    message_uuid m = message_uuid n \<and> message_name m = message_name n \<and>
    value_json pd (message_value m) = value_json pd (message_value n)"
  using head_json_append [OF assms] by (simp add: toJson_def member_def)

lemma names_run_into_identifiers:
  "let seam = [CHR 0x22] @ '','' @ quoted ''device_uuid'' @ '':'' @ [CHR 0x22];
       x = m\<lparr>message_device_name := a, message_device_uuid := b @ seam @ c\<rparr>;
       y = m\<lparr>message_device_name := a @ seam @ b, message_device_uuid := c\<rparr>
   in toJson pd x = toJson pd y \<and> x \<noteq> y"
  unfolding Let_def
proof
  let ?s = "[CHR 0x22] @ '','' @ quoted ''device_uuid'' @ '':'' @ [CHR 0x22]"
  let ?x = "m\<lparr>message_device_name := a, message_device_uuid := b @ ?s @ c\<rparr>"
  let ?y = "m\<lparr>message_device_name := a @ ?s @ b, message_device_uuid := c\<rparr>"
  show "toJson pd ?x = toJson pd ?y" by (simp add: toJson_def head_json_def member_def quoted_def)
  have "length (message_device_uuid ?x) \<noteq> length (message_device_uuid ?y)" by simp
  then show "?x \<noteq> ?y" by metis
qed

section \<open>Properties\<close>



end
