(* ===== verification/Config.thy ===== *)
theory Config
  imports Strings Json
begin

text \<open>
  \<open>ConfigManager\<close> of \<open>src/src/components/config/configor.cpp\<close> and \<open>configor.hpp\<close>: a JSON value
  \<open>config_\<close> read and written through slash-separated key paths, and files merged into it. An
  operation that throws leaves \<open>config_\<close> unchanged, because the traversal only creates
  members below a null, where nothing can fail any more.
\<close>

section \<open>Key paths\<close>

definition keys_of :: "string \<Rightarrow> string list" where
  "keys_of key_path = (case split key_path ''/'' of Some keys \<Rightarrow> keys | None \<Rightarrow> [])"

lemma keys_of_join: "ks \<noteq> [] \<Longrightarrow> \<forall>k \<in> set ks. CHR ''/'' \<notin> set k \<Longrightarrow> keys_of (join ''/'' ks) = ks"
  using split_loop_join [where ks = ks and c = "CHR ''/''" and ts = "[]"] by (simp add: keys_of_def split_def)

lemma keys_of_nonempty [simp]: "keys_of s \<noteq> []"
  using split_loop_returns [of "''/''" "[]" s] by (auto simp: keys_of_def split_def)

section \<open>Reading and writing values\<close>

fun set_keys :: "string list \<Rightarrow> json \<Rightarrow> json \<Rightarrow> json result" where
  "set_keys [] v p = Inr p"
| "set_keys [k] v p = j_put k v p"
| "set_keys (k # ks) v p =
     (if j_contains k p then
        rbind (j_slot k p) (\<lambda>c. rbind (set_keys ks v c) (\<lambda>c'. j_put k c' p))
      else
        rbind (j_put k JNull p) (\<lambda>p1.
          rbind (j_slot k p1) (\<lambda>c. rbind (set_keys ks v c) (\<lambda>c'. j_put k c' p1))))"

definition setValue :: "string \<Rightarrow> json \<Rightarrow> json \<Rightarrow> json result" where
  "setValue key_path v config = set_keys (keys_of key_path) v config"

fun get_keys :: "string list \<Rightarrow> json \<Rightarrow> json option" where
  "get_keys [] p = Some p"
| "get_keys (k # ks) p =
     (if j_contains k p then (case j_find k p of Some c \<Rightarrow> get_keys ks c | None \<Rightarrow> None) else None)"

text \<open>A missing key is logged and answered with null.\<close>

definition getValue :: "string \<Rightarrow> json \<Rightarrow> json" where
  "getValue key_path config =
     (case get_keys (keys_of key_path) config of Some v \<Rightarrow> v | None \<Rightarrow> JNull)"

fun delete_keys :: "string list \<Rightarrow> json \<Rightarrow> json result" where
  "delete_keys [] p = Inr p"
| "delete_keys [k] p = j_erase k p"
| "delete_keys (k # ks) p =
     (if j_contains k p
      then rbind (j_slot k p) (\<lambda>c. rbind (delete_keys ks c) (\<lambda>c'. j_put k c' p))
      else Inr p)"

definition deleteValue :: "string \<Rightarrow> json \<Rightarrow> json result" where
  "deleteValue key_path config = delete_keys (keys_of key_path) config"

text \<open>The lines \<open>printValue\<close> logs: one per member, in key order, with the path as its label.\<close>

fun printValue :: "string \<Rightarrow> json \<Rightarrow> (string \<times> json option) list" where
  "printValue key (JObj m) =
     (key, None) # concat (map (\<lambda>(k, v). printValue (key @ ''/'' @ k) v) m)"
| "printValue key v = [(key, Some v)]"

definition printAllValues :: "json \<Rightarrow> (string \<times> json option) list" where
  "printAllValues config = (case config of
       JObj m \<Rightarrow> concat (map (\<lambda>(k, v). printValue k v) m)
     | _ \<Rightarrow> [])"

section \<open>Loading files\<close>

text \<open>What opening a file and parsing it gives.\<close>

datatype file_content = CannotOpen | BadJson | Parsed json

definition mergeConfig :: "json \<Rightarrow> json \<Rightarrow> json" where
  "mergeConfig j config = merge_patch config j"

definition basename_of :: "string \<Rightarrow> string" where
  "basename_of path =
     (case find_last_of [CHR ''/'', CHR 0x5C] path of None \<Rightarrow> path | Some i \<Rightarrow> drop (i + 1) path)"

definition stem_of :: "string \<Rightarrow> string" where
  "stem_of basename = (case find_last_of ''.'' basename of None \<Rightarrow> basename | Some i \<Rightarrow> take i basename)"

definition loadFromFile :: "(string \<Rightarrow> file_content) \<Rightarrow> string \<Rightarrow> json \<Rightarrow> json" where
  "loadFromFile fs path config =
     (case fs path of
        CannotOpen \<Rightarrow> config
      | BadJson \<Rightarrow> config
      | Parsed j \<Rightarrow> mergeConfig (JObj [(stem_of (basename_of path), j)]) config)"

text \<open>
  A directory as \<open>directory_iterator\<close> sees it: regular files and subdirectories by name.
  \<open>operator/\<close> of \<open>fs::path\<close> adds a separator unless there is one; \<open>extension()\<close> is empty for
  a name whose only dot is its first character.
\<close>

datatype fsnode = FileNode string file_content | DirNode string "fsnode list"

definition path_join :: "string \<Rightarrow> string \<Rightarrow> string" where
  "path_join dir name = (if dir = [] \<or> last dir = CHR ''/'' then dir @ name else dir @ ''/'' @ name)"

definition extension_of :: "string \<Rightarrow> string" where
  "extension_of name =
     (case find_last_of ''.'' name of
        None \<Rightarrow> []
      | Some i \<Rightarrow> if i = 0 \<or> name = ''..'' then [] else drop i name)"

fun config_json_of :: "fsnode list \<Rightarrow> file_content option" where
  "config_json_of [] = None"
| "config_json_of (FileNode n c # es) = (if n = ''config.json'' then Some c else config_json_of es)"
| "config_json_of (DirNode n ds # es) =
     (if n = ''config.json'' then Some CannotOpen else config_json_of es)"

definition load_named :: "string \<Rightarrow> file_content \<Rightarrow> json \<Rightarrow> json" where
  "load_named path c config = loadFromFile (\<lambda>_. c) path config"

fun loadFromDir :: "string \<Rightarrow> bool \<Rightarrow> fsnode list \<Rightarrow> json \<Rightarrow> json" where
  "loadFromDir dir recursive [] config = config"
| "loadFromDir dir recursive (FileNode n c # es) config =
     loadFromDir dir recursive es
       (if extension_of n = ''.json'' then load_named (path_join dir n) c config else config)"
| "loadFromDir dir recursive (DirNode n ds # es) config =
     loadFromDir dir recursive es
       (if extension_of n = ''.json'' then load_named (path_join dir n) CannotOpen config
        else if recursive then
          loadFromDir (path_join dir n) True ds
            (case config_json_of ds of
               Some (Parsed j) \<Rightarrow> mergeConfig (JObj [(dir, JObj [(n, j)])]) config
             | _ \<Rightarrow> config)
        else config)"

section \<open>The path operations against the path specification\<close>

lemma get_keys_eq_path: "get_keys ks p = j_path ks p"
  by (induction ks arbitrary: p) (auto simp: j_contains_def split: option.splits)

lemma set_keys_eq_assign: "ks \<noteq> [] \<Longrightarrow> set_keys ks v p = j_assign ks v p"
proof (induction ks v p rule: set_keys.induct)
  case (2 k v p)
  show ?case by (cases p) (auto split: option.splits)
next
  case (3 k l ls v p)
  show ?case
  proof (cases "j_contains k p")
    case True
    with 3(1) show ?thesis by (cases "j_slot k p") simp_all
  next
    case False
    note IH = 3(2) [OF False]
    show ?thesis
    proof (cases p)
      case JNull
      have "(\<lambda>c'. j_put k c' (JObj [(k, JNull)])) = (\<lambda>c'. j_put k c' JNull)" by auto
      with JNull False IH [of "JObj [(k, JNull)]" JNull] show ?thesis by simp
    next
      case (JObj m)
      with False have "map_of m k = None" by (simp add: j_contains_def)
      moreover have "obj_put k c (obj_put k JNull m) = obj_put k c m" for c :: json
        by (induction m) auto
      ultimately have "(\<lambda>c'. j_put k c' (JObj (obj_put k JNull m))) = (\<lambda>c'. j_put k c' (JObj m))"
        and "map_of m k = None" by auto
      with JObj False IH [of "JObj (obj_put k JNull m)" JNull] show ?thesis by simp
    qed (use False in simp_all)
  qed
qed simp

lemma setValue_eq_assign: "setValue kp v config = j_assign (keys_of kp) v config"
  by (simp add: setValue_def set_keys_eq_assign)

lemma getValue_eq_path:
  "getValue kp config = (case j_path (keys_of kp) config of Some v \<Rightarrow> v | None \<Rightarrow> JNull)"
  by (simp add: getValue_def get_keys_eq_path)


section \<open>The interface of a path-addressed store\<close>

text \<open>
  What a client of the configuration relies on: a value just written is read back, and a write
  is invisible on independent paths. \<open>put_seq\<close> is a sequence of writes that stops at the
  first one that fails.
\<close>

fun put_seq :: "('p \<Rightarrow> 'v \<Rightarrow> 's \<Rightarrow> 's option) \<Rightarrow> ('p \<times> 'v) list \<Rightarrow> 's \<Rightarrow> 's option" where
  "put_seq put [] s = Some s"
| "put_seq put ((p, v) # ws) s = (case put p v s of None \<Rightarrow> None | Some s' \<Rightarrow> put_seq put ws s')"

locale path_store =
  fixes get :: "'s \<Rightarrow> 'p \<Rightarrow> 'v option"
    and put :: "'p \<Rightarrow> 'v \<Rightarrow> 's \<Rightarrow> 's option"
    and indep :: "'p \<Rightarrow> 'p \<Rightarrow> bool"
  assumes put_get: "put p v s = Some s' \<Longrightarrow> get s' p = Some v"
    and put_frame: "put p v s = Some s' \<Longrightarrow> indep p q \<Longrightarrow> get s' q = get s q"
begin

lemma put_seq_get:
  assumes "put_seq put ws s = Some s'" and "\<forall>(q, w) \<in> set ws. q = p \<or> indep q p"
  shows "get s' p = (case map_of (rev ws) p of Some v \<Rightarrow> Some v | None \<Rightarrow> get s p)"
  using assms
proof (induction ws arbitrary: s)
  case (Cons w ws)
  obtain q v where w: "w = (q, v)" by (cases w)
  with Cons.prems(1) obtain t where t: "put q v s = Some t" "put_seq put ws t = Some s'"
    by (auto split: option.splits)
  have "get t p = (if q = p then Some v else get s p)"
    using t(1) put_get put_frame Cons.prems(2) w by auto
  with Cons.IH [OF t(2)] Cons.prems(2) w show ?case
    by (auto simp: map_add_def split: option.splits)
qed simp

lemma put_seq_untouched:
  assumes "put_seq put ws s = Some s'" and "\<forall>(q, w) \<in> set ws. indep q p" and "p \<notin> fst ` set ws"
  shows "get s' p = get s p"
proof -
  have "map_of (rev ws) p = None" using assms(3) by (simp add: map_of_eq_None_iff)
  with put_seq_get [OF assms(1), of p] assms(2) show ?thesis by auto
qed

end

definition config_get :: "json \<Rightarrow> string \<Rightarrow> json option" where
  "config_get config kp = j_path (keys_of kp) config"

definition config_put :: "string \<Rightarrow> json \<Rightarrow> json \<Rightarrow> json option" where
  "config_put kp v config = (case setValue kp v config of Inl e \<Rightarrow> None | Inr c \<Rightarrow> Some c)"

definition independent :: "string \<Rightarrow> string \<Rightarrow> bool" where
  "independent p q \<longleftrightarrow> diverge (keys_of p) (keys_of q)"

lemma config_put_Some: "config_put kp v config = Some c \<longleftrightarrow> j_assign (keys_of kp) v config = Inr c"
  by (auto simp: config_put_def setValue_eq_assign split: sum.splits)

interpretation cfg: path_store config_get config_put independent
proof unfold_locales
  fix p v s s'
  assume "config_put p v s = Some s'"
  then show "config_get s' p = Some v"
    by (simp add: config_put_Some config_get_def j_path_assign)
next
  fix p v s s' q
  assume "config_put p v s = Some s'" "independent p q"
  then show "config_get s' q = config_get s q"
    by (simp add: config_put_Some config_get_def independent_def j_path_assign_diverge)
qed

section \<open>Deleting\<close>

lemma delete_keys_path:
  "delete_keys ks p = Inr p' \<Longrightarrow> ks \<noteq> [] \<Longrightarrow> j_path ks p' = None"
proof (induction ks p arbitrary: p' rule: delete_keys.induct)
  case (2 k p)
  then show ?case by (auto simp: j_find_erase)
next
  case (3 k l ls p)
  show ?case
  proof (cases "j_contains k p")
    case True
    with 3(2) obtain c c' where c: "j_slot k p = Inr c" "delete_keys (l # ls) c = Inr c'" "j_put k c' p = Inr p'"
      by (auto simp: rbind_Inr_iff)
    with 3(1) [OF True c(1,2)] show ?thesis by (simp add: j_find_put)
  next
    case False
    with 3(2) show ?thesis by (auto simp: j_contains_def)
  qed
qed simp

lemma delete_keys_frame:
  "delete_keys ks p = Inr p' \<Longrightarrow> diverge ks ls \<Longrightarrow> j_path ls p' = j_path ls p"
proof (induction ks p arbitrary: p' ls rule: delete_keys.induct)
  case (2 k p)
  then show ?case by (cases ls) (auto simp: j_find_erase)
next
  case (3 k l ks p)
  obtain m ms where ls: "ls = m # ms" using 3(3) by (cases ls) auto
  show ?case
  proof (cases "j_contains k p")
    case True
    with 3(2) obtain c c' where c: "j_slot k p = Inr c" "delete_keys (l # ks) c = Inr c'" "j_put k c' p = Inr p'"
      by (auto simp: rbind_Inr_iff)
    show ?thesis
    proof (cases "k = m")
      case True
      with 3(3) ls have "diverge (l # ks) ms" by simp
      from 3(1) [OF \<open>j_contains k p\<close> c(1,2) this] j_slot_find [OF c(1)] \<open>j_contains k p\<close> c(3) True ls
      show ?thesis by (auto simp: j_find_put j_contains_def)
    next
      case False
      with c(3) ls show ?thesis by (simp add: j_find_put)
    qed
  next
    case False
    with 3(2) show ?thesis by simp
  qed
qed simp

section \<open>Merging\<close>

text \<open>One member of the result of a merge patch, as RFC 7386 states it.\<close>

definition patched :: "json option \<Rightarrow> json option \<Rightarrow> json option" where
  "patched old new = (case new of
       None \<Rightarrow> old
     | Some JNull \<Rightarrow> None
     | Some v \<Rightarrow> Some (merge_patch (case old of None \<Rightarrow> JNull | Some c \<Rightarrow> c) v))"

lemma map_of_merge_members:
  "distinct (map fst p) \<Longrightarrow> map_of (merge_members m p) k = patched (map_of m k) (map_of p k)"
proof (induction p arbitrary: m)
  case (Cons e p)
  obtain l v where e: "e = (l, v)" by (cases e)
  with Cons.prems have "l \<notin> fst ` set p" "distinct (map fst p)" by auto
  then have "map_of p l = None" by (simp add: map_of_eq_None_iff)
  with Cons.IH [OF \<open>distinct (map fst p)\<close>] e show ?case
    by (auto simp: patched_def split: option.splits json.splits)
qed (simp add: patched_def)

lemma ordered_merge_members: "ordered_obj m \<Longrightarrow> ordered_obj (merge_members m p)"
proof (induction p arbitrary: m)
  case (Cons e p)
  then show ?case by (cases e) simp
qed simp

lemma find_merge_patch:
  assumes "ordered_obj p"
  shows "j_find k (merge_patch c (JObj p)) = patched (j_find k c) (map_of p k)"
  using map_of_merge_members [OF ordered_obj_distinct [OF assms]] by (cases c) simp_all

lemma merge_patch_not_null: "v \<noteq> JNull \<Longrightarrow> merge_patch c v \<noteq> JNull"
  by (cases v) auto

lemma merge_patch_idem: "wf_json p \<Longrightarrow> wf_json c \<Longrightarrow> merge_patch (merge_patch c p) p = merge_patch c p"
proof (induction p arbitrary: c)
  case (JObj p)
  let ?m = "case c of JObj m \<Rightarrow> m | _ \<Rightarrow> []"
  have op: "ordered_obj p" and om: "ordered_obj ?m"
    using JObj.prems by (auto split: json.splits)
  note d = ordered_obj_distinct [OF op]
  have wfm: "map_of ?m k = Some x \<Longrightarrow> wf_json x" for k x
    using JObj.prems(2) by (auto simp: list_all_iff split: json.splits dest!: map_of_SomeD)
  have "merge_members (merge_members ?m p) p = merge_members ?m p"
  proof (rule ordered_obj_eqI)
    show "ordered_obj (merge_members (merge_members ?m p) p)" "ordered_obj (merge_members ?m p)"
      using om ordered_merge_members by blast+
    show "map_of (merge_members (merge_members ?m p) p) = map_of (merge_members ?m p)"
    proof
      fix k
      have "patched (patched (map_of ?m k) (map_of p k)) (map_of p k) = patched (map_of ?m k) (map_of p k)"
      proof (cases "map_of p k")
        case None
        then show ?thesis by (simp add: patched_def)
      next
        case (Some v)
        then have mem: "(k, v) \<in> set p" by (rule map_of_SomeD)
        then have "wf_json v" using JObj.prems(1) by (auto simp: list_all_iff)
        moreover have "wf_json (case map_of ?m k of None \<Rightarrow> JNull | Some c \<Rightarrow> c)"
          using wfm by (auto split: option.splits)
        ultimately have "merge_patch (merge_patch (case map_of ?m k of None \<Rightarrow> JNull | Some c \<Rightarrow> c) v) v
            = merge_patch (case map_of ?m k of None \<Rightarrow> JNull | Some c \<Rightarrow> c) v"
          using JObj.IH mem by (metis snds.intros snd_conv)
        with Some show ?thesis by (cases v) (simp_all add: patched_def)
      qed
      then show "map_of (merge_members (merge_members ?m p) p) k = map_of (merge_members ?m p) k"
        by (simp add: map_of_merge_members [OF d])
    qed
  qed
  then show ?case by simp
qed simp_all

lemma basename_no_slash: "CHR ''/'' \<notin> set (stem_of (basename_of path))"
proof -
  have "CHR ''/'' \<notin> set (basename_of path)"
    by (auto simp: basename_of_def split: option.splits dest!: find_last_of_Some)
  then show ?thesis by (auto simp: stem_of_def split: option.splits dest: in_set_takeD)
qed

lemma keys_of_plain: "CHR ''/'' \<notin> set k \<Longrightarrow> keys_of k = [k]"
  using keys_of_join [of "[k]"] by simp


lemma find_JObj: "map_of m k = j_find k (JObj m)"
  by simp

section \<open>When a write fails\<close>

text \<open>A value \<open>operator[]\<close> with a key can be applied to.\<close>

definition indexable :: "json \<Rightarrow> bool" where
  "indexable j \<longleftrightarrow> j = JNull \<or> is_object j"

lemma j_slot_ok_iff: "(\<exists>c. j_slot k j = Inr c) \<longleftrightarrow> indexable j"
  by (cases j) (auto simp: indexable_def)

lemma j_assign_ok_iff:
  "(\<exists>j'. j_assign ks v j = Inr j') \<longleftrightarrow>
     (\<forall>n < length ks. \<forall>x. j_path (take n ks) j = Some x \<longrightarrow> indexable x)"
proof (induction ks arbitrary: j)
  case (Cons k ks)
  have ok: "(\<exists>j'. j_assign (k # ks) v j = Inr j') \<longleftrightarrow>
      (\<exists>c. j_slot k j = Inr c \<and> (\<exists>c'. j_assign ks v c = Inr c'))"
    using j_put_ok_iff_slot by (auto simp: rbind_Inr_iff)
  have shift: "(\<forall>n < length (k # ks). \<forall>x. j_path (take n (k # ks)) j = Some x \<longrightarrow> indexable x) \<longleftrightarrow>
      indexable j \<and> (\<forall>n < length ks. \<forall>x c. j_find k j = Some c \<longrightarrow> j_path (take n ks) c = Some x
        \<longrightarrow> indexable x)"
    by (auto simp: less_Suc_eq_0_disj split: option.splits)
  show ?case
  proof (cases "indexable j")
    case True
    then obtain c where c: "j_slot k j = Inr c" using j_slot_ok_iff by blast
    have null: "\<forall>n < length ks. \<forall>x. j_path (take n ks) JNull = Some x \<longrightarrow> indexable x"
    proof (intro allI impI)
      fix n x
      assume "j_path (take n ks) JNull = Some x"
      then show "indexable x" by (cases "take n ks") (auto simp: indexable_def)
    qed
    show ?thesis
      unfolding ok shift using c True Cons.IH [of c] j_slot_find [OF c] null
      by (auto split: option.splits)
  next
    case False
    then show ?thesis unfolding ok shift using j_slot_ok_iff by blast
  qed
qed simp

section \<open>Properties\<close>



text \<open>\<open>deleteValue\<close> leaves nothing readable under its path and every independent path as it
  was.\<close>

theorem deleteValue_spec:
  assumes "deleteValue kp config = Inr config'"
  shows "getValue kp config' = JNull \<and>
    (\<forall>q. independent kp q \<longrightarrow> getValue q config' = getValue q config)"
  using delete_keys_path [OF assms [unfolded deleteValue_def]]
    delete_keys_frame [OF assms [unfolded deleteValue_def]]
  by (simp add: getValue_eq_path independent_def)

lemma deleteValue_spec_witness:
  "getValue ''a/b'' (JObj [(''a'', JObj [(''c'', JInt 2)])]) = JNull"
proof -
  have "keys_of ''a/b'' = [''a'', ''b'']" using keys_of_join [of "[''a'', ''b'']"] by simp
  then have "deleteValue ''a/b'' (JObj [(''a'', JObj [(''b'', JInt 1), (''c'', JInt 2)])])
      = Inr (JObj [(''a'', JObj [(''c'', JInt 2)])])"
    by (simp add: deleteValue_def j_contains_def obj_erase_def)
  then show ?thesis using deleteValue_spec by blast
qed



text \<open>\<open>split\<close> returns exactly when the delimiter is not empty; its pieces joined by the delimiter
  are the string again, and joining pieces free of a one-character delimiter and splitting gives
  them back. With an empty delimiter the loop never ends.\<close>

theorem split_join_roundtrip:
  "(if d = [] then split s d = None else \<exists>ts. split s d = Some ts \<and> ts \<noteq> [] \<and> join d ts = s) \<and>
   (ks \<noteq> [] \<and> (\<forall>k \<in> set ks. c \<notin> set k) \<longrightarrow> split (join [c] ks) [c] = Some ks)"
  using split_loop_returns [of d "[]" s] split_loop_join [of ks c "[]"] split_loop_empty [of "[]" s]
  by (auto simp: split_def)

lemma split_join_roundtrip_witness:
  "split ''a/b'' ''/'' = Some [''a'', ''b'']"
  using split_join_roundtrip [of "''/''" "''a/b''" "[''a'', ''b'']" "CHR ''/''"] by simp

end
