(* ===== verification/Startup.thy ===== *)
theory Startup
  imports Config
begin

text \<open>
  Program start in \<open>src/src/openapt.cpp\<close>: the command-line options and the configuration they
  write, the check that frees the server port, and the search for older instances. The answers of
  the operating system (\<open>getopt_long\<close>, sockets, \<open>/proc\<close>, \<open>kill\<close>) are arguments.
\<close>

section \<open>Command line\<close>

definition c_isdigit :: "char \<Rightarrow> bool" where
  "c_isdigit c \<longleftrightarrow> 48 \<le> (of_char c :: nat) \<and> (of_char c :: nat) \<le> 57"

definition c_isspace :: "char \<Rightarrow> bool" where
  "c_isspace c \<longleftrightarrow> c = CHR '' '' \<or> 9 \<le> (of_char c :: nat) \<and> (of_char c :: nat) \<le> 13"

definition digits_value :: "string \<Rightarrow> int" where
  "digits_value ds = foldl (\<lambda>n c. 10 * n + (of_char c - 48)) 0 ds"

text \<open>\<open>atoi\<close>: white space, a sign, digits; the C library cuts the value to 64 bits, then to 32.\<close>

definition atoi :: "string \<Rightarrow> int" where
  "atoi s =
     (let s = dropWhile c_isspace s;
          neg = (s \<noteq> [] \<and> hd s = CHR ''-'');
          t = (if s \<noteq> [] \<and> (hd s = CHR ''-'' \<or> hd s = CHR ''+'') then tl s else s);
          v = (if neg then -1 else 1) * digits_value (takeWhile c_isdigit t)
      in wrap32 (max (- 9223372036854775808) (min 9223372036854775807 v)))"

lemma atoi_examples: "atoi ''7'' = 7" "atoi ''12'' = 12" "atoi ''8081'' = 8081" "atoi '' -3x'' = -3"
  by code_simp+

record app =
  DEBUG :: bool
  m_Config :: json

text \<open>
  The options as \<open>getopt_long\<close> returns them, each with its \<open>optarg\<close>. \<open>?\<close> prints the usage and
  ends the process, which is the result \<open>None\<close>.
\<close>

fun parse_args :: "(char \<times> string) list \<Rightarrow> app \<Rightarrow> app option result" where
  "parse_args [] a = Inr (Some a)"
| "parse_args ((opt, optarg) # opts) a =
     (if opt = CHR ''d'' then
        rbind (setValue ''server/debug'' (JBool True) (m_Config a)) (\<lambda>c.
          parse_args opts (a\<lparr>DEBUG := True, m_Config := c\<rparr>))
      else if opt = CHR ''p'' then
        rbind (setValue ''server/port'' (JInt (atoi optarg)) (m_Config a)) (\<lambda>c.
          parse_args opts (a\<lparr>m_Config := c\<rparr>))
      else if opt = CHR ''s'' then
        rbind (setValue ''server/ssl'' (JBool True) (m_Config a)) (\<lambda>c.
          parse_args opts (a\<lparr>m_Config := c\<rparr>))
      else if opt = CHR ''f'' then parse_args opts a
      else if opt = CHR ''k'' then parse_args opts a
      else if opt = CHR ''c'' then
        rbind (setValue ''server/config'' (JStr optarg) (m_Config a)) (\<lambda>c.
          parse_args opts (a\<lparr>m_Config := c\<rparr>))
      else if opt = CHR ''?'' then Inr None
      else parse_args opts a)"

subsection \<open>The writes a command line makes\<close>

fun option_write :: "char \<times> string \<Rightarrow> (string \<times> json) option" where
  "option_write (opt, optarg) =
     (if opt = CHR ''d'' then Some (''server/debug'', JBool True)
      else if opt = CHR ''p'' then Some (''server/port'', JInt (atoi optarg))
      else if opt = CHR ''s'' then Some (''server/ssl'', JBool True)
      else if opt = CHR ''c'' then Some (''server/config'', JStr optarg)
      else None)"

definition option_writes :: "(char \<times> string) list \<Rightarrow> (string \<times> json) list" where
  "option_writes opts = List.map_filter option_write opts"

lemma option_writes_simps [simp]:
  "option_writes [] = []"
  "option_writes (w # ws) =
     (case option_write w of None \<Rightarrow> option_writes ws | Some x \<Rightarrow> x # option_writes ws)"
  by (simp_all add: option_writes_def List.map_filter_simps split: option.split)

lemma parse_args_Cons:
  "parse_args (w # opts) a =
     (case option_write w of
        Some (p, v) \<Rightarrow> rbind (setValue p v (m_Config a)) (\<lambda>c.
          parse_args opts (a\<lparr>DEBUG := DEBUG a \<or> fst w = CHR ''d'', m_Config := c\<rparr>))
      | None \<Rightarrow> if fst w = CHR ''?'' then Inr None else parse_args opts a)"
  by (cases w) simp

lemma parse_args_put_seq:
  assumes "CHR ''?'' \<notin> fst ` set opts"
  shows "(case parse_args opts a of Inr (Some a') \<Rightarrow> Some (m_Config a') | _ \<Rightarrow> None) =
    put_seq config_put (option_writes opts) (m_Config a)"
  using assms
proof (induction opts arbitrary: a)
  case (Cons w opts)
  show ?case
  proof (cases "option_write w")
    case None
    with Cons show ?thesis unfolding parse_args_Cons by auto
  next
    case (Some pv)
    obtain p v where pv: "pv = (p, v)" by (cases pv)
    show ?thesis
    proof (cases "setValue p v (m_Config a)")
      case (Inl e)
      with Some pv show ?thesis unfolding parse_args_Cons by (simp add: config_put_def)
    next
      case (Inr c)
      with Some pv Cons.prems Cons.IH [of "a\<lparr>DEBUG := DEBUG a \<or> fst w = CHR ''d'', m_Config := c\<rparr>"]
      show ?thesis unfolding parse_args_Cons by (simp add: config_put_def)
    qed
  qed
qed simp

definition server_paths :: "string list" where
  "server_paths = [''server/debug'', ''server/port'', ''server/ssl'', ''server/config'']"

lemma keys_of_server: "CHR ''/'' \<notin> set k \<Longrightarrow> keys_of (''server/'' @ k) = [''server'', k]"
  using keys_of_join [of "[''server'', k]"] by simp

lemma keys_of_server_paths:
  "keys_of ''server/debug'' = [''server'', ''debug'']" "keys_of ''server/port'' = [''server'', ''port'']"
  "keys_of ''server/ssl'' = [''server'', ''ssl'']" "keys_of ''server/config'' = [''server'', ''config'']"
  using keys_of_server [of "''debug''"] keys_of_server [of "''port''"]
    keys_of_server [of "''ssl''"] keys_of_server [of "''config''"] by simp_all

lemma server_paths_independent:
  "p \<in> set server_paths \<Longrightarrow> q \<in> set server_paths \<Longrightarrow> p = q \<or> independent p q"
  by (auto simp: server_paths_def independent_def keys_of_server_paths)

lemma option_writes_paths: "(p, v) \<in> set (option_writes opts) \<Longrightarrow> p \<in> set server_paths"
  by (induction opts) (auto simp: server_paths_def split: option.splits if_splits)

text \<open>The configurations on which no option can fail.\<close>

definition server_slot_free :: "json \<Rightarrow> bool" where
  "server_slot_free c \<longleftrightarrow> indexable c \<and>
     (case j_find ''server'' c of None \<Rightarrow> True | Some s \<Rightarrow> indexable s)"

lemma server_slot_write:
  assumes "server_slot_free c"
  obtains c' where "j_assign [''server'', k] v c = Inr c'" "server_slot_free c'"
proof -
  from assms obtain s where s: "j_slot ''server'' c = Inr s"
    using j_slot_ok_iff unfolding server_slot_free_def by blast
  then have "indexable s"
    using j_slot_find [OF s] assms by (auto simp: server_slot_free_def indexable_def split: option.splits)
  then obtain s' where s': "j_put k v s = Inr s'"
    using j_slot_ok_iff j_put_ok_iff_slot by blast
  then have "indexable s'" by (cases s) (auto simp: indexable_def)
  obtain c' where c': "j_put ''server'' s' c = Inr c'" using s j_put_ok_iff_slot by blast
  then have "indexable c'" by (cases c) (auto simp: indexable_def)
  with \<open>indexable s'\<close> c' have "server_slot_free c'"
    by (simp add: server_slot_free_def j_find_put)
  moreover obtain t where "j_slot k s = Inr t" using s' j_put_ok_iff_slot by blast
  ultimately show ?thesis using that s s' c' by simp
qed

lemma put_seq_server:
  assumes "server_slot_free c" "\<forall>(p, v) \<in> set ws. p \<in> set server_paths"
  shows "\<exists>c'. put_seq config_put ws c = Some c'"
  using assms
proof (induction ws arbitrary: c)
  case (Cons w ws)
  obtain p v where w: "w = (p, v)" by (cases w)
  then obtain k where "keys_of p = [''server'', k]"
    using Cons.prems(2) keys_of_server_paths by (auto simp: server_paths_def)
  moreover obtain c' where "j_assign [''server'', k] v c = Inr c'" "server_slot_free c'"
    using server_slot_write [OF Cons.prems(1)] by blast
  ultimately show ?case
    using Cons w by (auto simp: config_put_def setValue_eq_assign)
qed simp

lemma parse_args_debug:
  "parse_args opts a = Inr (Some a') \<Longrightarrow> DEBUG a' \<longleftrightarrow> DEBUG a \<or> CHR ''d'' \<in> fst ` set opts"
proof (induction opts arbitrary: a)
  case (Cons w opts)
  show ?case
  proof (cases "option_write w")
    case None
    then have "fst w \<noteq> CHR ''d''" by (cases w) auto
    moreover from None Cons.prems [unfolded parse_args_Cons] have "parse_args opts a = Inr (Some a')"
      by (auto split: if_splits)
    ultimately show ?thesis using Cons.IH by auto
  next
    case (Some pv)
    obtain p v where "pv = (p, v)" by (cases pv)
    with Some Cons.prems [unfolded parse_args_Cons] obtain c where
      "parse_args opts (a\<lparr>DEBUG := DEBUG a \<or> fst w = CHR ''d'', m_Config := c\<rparr>) = Inr (Some a')"
      by (auto simp: rbind_Inr_iff)
    from Cons.IH [OF this] show ?thesis by auto
  qed
qed simp

section \<open>Freeing the port\<close>

datatype bind_result = BindOk | AddrInUse | BindFailed

datatype syscall = Popen string | Pclose | System string | CloseSocket

text \<open>
  \<open>show_int\<close> is the decimal form of a port. The result pairs the answer with the calls made,
  in order, after the socket was created.
\<close>

definition strip_newlines :: "string \<Rightarrow> string" where
  "strip_newlines s = rev (dropWhile (\<lambda>c. c = CHR 0x0A) (rev s))"

definition CheckAndKillProgramOnPort ::
  "(int \<Rightarrow> string) \<Rightarrow> bool \<Rightarrow> bind_result \<Rightarrow> string option \<Rightarrow> (string \<Rightarrow> bool) \<Rightarrow> int
     \<Rightarrow> bool \<times> syscall list" where
  "CheckAndKillProgramOnPort show_int socket_ok bound popen_out system_ok port =
     (if \<not> socket_ok then (False, [])
      else (case bound of
          BindOk \<Rightarrow> (True, [CloseSocket])
        | BindFailed \<Rightarrow> (False, [CloseSocket])
        | AddrInUse \<Rightarrow>
            (let cmd = ''lsof -i :'' @ show_int port @ '' -t'' in
             case popen_out of
               None \<Rightarrow> (False, [Popen cmd, CloseSocket])
             | Some pid_out \<Rightarrow>
                 (let pid_str = strip_newlines pid_out in
                  if pid_str \<noteq> [] then
                    (let k = ''kill '' @ pid_str in
                     if \<not> system_ok k then (False, [Popen cmd, Pclose, System k, CloseSocket])
                     else (True, [Popen cmd, Pclose, System k, CloseSocket]))
                  else (False, [Popen cmd, Pclose, CloseSocket])))))"

section \<open>Older instances\<close>

text \<open>
  One entry of \<open>/proc\<close>: its name and what \<open>cmdline\<close> holds (\<open>None\<close> where it cannot be
  opened). \<open>fgets\<close> with a buffer of 1024 takes at most 1023 characters, up to a newline; on an
  empty file it leaves the buffer uninitialised, and the code reads it all the same.
\<close>

definition fgets_1024 :: "string \<Rightarrow> string option" where
  "fgets_1024 content =
     (if content = [] then None
      else (let l = takeWhile (\<lambda>c. c \<noteq> CHR 0x0A) content
            in Some (take 1023 (take (Suc (length l)) content))))"

definition c_str :: "string \<Rightarrow> string" where
  "c_str buf = takeWhile (\<lambda>c. c \<noteq> CHR 0x00) buf"

fun collect_pids :: "string \<Rightarrow> (string \<times> string option) list \<Rightarrow> int list result" where
  "collect_pids program_name [] = Inr []"
| "collect_pids program_name ((d_name, cmdline) # ps) =
     (if d_name = [] \<or> \<not> c_isdigit (hd d_name) then collect_pids program_name ps
      else (case cmdline of
          None \<Rightarrow> collect_pids program_name ps
        | Some content \<Rightarrow>
            (case fgets_1024 content of
               None \<Rightarrow> Inl Uninitialised
             | Some buf \<Rightarrow>
                 rbind (collect_pids program_name ps) (\<lambda>pids.
                   Inr (if c_str buf = program_name then atoi d_name # pids else pids)))))"

text \<open>The processes signalled, and whether the program goes on (a failing \<open>kill\<close> exits).\<close>

fun kill_all :: "(int \<Rightarrow> bool) \<Rightarrow> int list \<Rightarrow> int list \<times> bool" where
  "kill_all kill_ok [] = ([], True)"
| "kill_all kill_ok (pid # pids) =
     (if \<not> kill_ok pid then ([pid], False)
      else (let (ks, b) = kill_all kill_ok pids in (pid # ks, b)))"

definition check_duplicate_process ::
  "(int \<Rightarrow> bool) \<Rightarrow> string \<Rightarrow> (string \<times> string option) list \<Rightarrow> (int list \<times> bool) result" where
  "check_duplicate_process kill_ok program_name procs =
     rbind (collect_pids program_name procs) (\<lambda>pids.
       Inr (if length pids \<le> 1 then ([], True) else kill_all kill_ok pids))"

section \<open>Lemmas on processes\<close>

definition runs :: "string \<Rightarrow> string \<times> string option \<Rightarrow> bool" where
  "runs program_name p \<longleftrightarrow> fst p \<noteq> [] \<and> c_isdigit (hd (fst p)) \<and>
     (\<exists>buf. Option.bind (snd p) fgets_1024 = Some buf \<and> c_str buf = program_name)"

lemma collect_pids_ok:
  assumes "\<forall>p \<in> set procs. snd p \<noteq> Some []"
  shows "collect_pids name procs = Inr (map (atoi \<circ> fst) (filter (runs name) procs))"
  using assms
proof (induction procs)
  case (Cons p procs)
  obtain d c where p: "p = (d, c)" by (cases p)
  with Cons show ?case
    by (cases c) (auto simp: runs_def fgets_1024_def Let_def)
qed simp

lemma kill_all_ok: "(\<forall>p \<in> set pids. kill_ok p) \<Longrightarrow> kill_all kill_ok pids = (pids, True)"
  by (induction pids) auto

section \<open>Properties\<close>

text \<open>On a configuration whose \<open>server\<close> entry is free (absent, null or an object), a command
  line without an unknown option is accepted; afterwards each \<open>server\<close> key holds the value of
  its last option on the line, or what it held before where no option names it, and certificate
  and key file options leave no trace.\<close>

theorem parse_args_last_option_wins:
  assumes "server_slot_free (m_Config a)" and "CHR ''?'' \<notin> fst ` set opts"
  shows "\<exists>a'. parse_args opts a = Inr (Some a') \<and>
    (DEBUG a' \<longleftrightarrow> DEBUG a \<or> CHR ''d'' \<in> fst ` set opts) \<and>
    (\<forall>p \<in> set server_paths. getValue p (m_Config a') =
      (case map_of (rev (option_writes opts)) p of
         Some v \<Rightarrow> v | None \<Rightarrow> getValue p (m_Config a)))"
proof -
  have ws: "\<forall>(p, v) \<in> set (option_writes opts). p \<in> set server_paths"
    using option_writes_paths by blast
  obtain c' where c': "put_seq config_put (option_writes opts) (m_Config a) = Some c'"
    using put_seq_server [OF assms(1) ws] by blast
  then obtain a' where a': "parse_args opts a = Inr (Some a')" "m_Config a' = c'"
    using parse_args_put_seq [OF assms(2), of a] by (auto split: sum.splits option.splits)
  have "getValue p c' = (case map_of (rev (option_writes opts)) p of
         Some v \<Rightarrow> v | None \<Rightarrow> getValue p (m_Config a))" if "p \<in> set server_paths" for p
  proof -
    have "\<forall>(q, w) \<in> set (option_writes opts). q = p \<or> independent q p"
      using ws server_paths_independent that by blast
    from cfg.put_seq_get [OF c' this] show ?thesis
      by (auto simp: getValue_eq_path config_get_def split: option.splits)
  qed
  with a' parse_args_debug [OF a'(1)] show ?thesis by auto
qed

lemma parse_args_last_option_wins_witness:
  "\<exists>a'. parse_args [(CHR ''p'', ''80''), (CHR ''f'', ''x''), (CHR ''p'', ''8081'')]
      \<lparr>DEBUG = True, m_Config = JNull\<rparr> = Inr (Some a') \<and>
    getValue ''server/port'' (m_Config a') = JInt 8081"
proof -
  let ?opts = "[(CHR ''p'', ''80''), (CHR ''f'', ''x''), (CHR ''p'', ''8081'')]"
  have v: "map_of (rev (option_writes ?opts)) ''server/port'' = Some (JInt 8081)"
    using atoi_examples by simp
  show ?thesis
    using parse_args_last_option_wins [of "\<lparr>DEBUG = True, m_Config = JNull\<rparr>" ?opts] v
    by (auto simp: server_slot_free_def indexable_def server_paths_def simp del: option_writes_simps)
qed

text \<open>On every path of the port check the socket is closed exactly once, and last, where it
  was opened, and a process is killed only after \<open>bind\<close> reported the address in use and the
  lookup printed a process id.\<close>

theorem CheckAndKillProgramOnPort_safe:
  "case CheckAndKillProgramOnPort show_int socket_ok bound popen_out system_ok port of (r, calls) \<Rightarrow>
     count_list calls CloseSocket = (if socket_ok then 1 else 0) \<and>
     (socket_ok \<longrightarrow> last calls = CloseSocket) \<and>
     count_list calls Pclose \<le> 1 \<and>
     (\<forall>k. System k \<in> set calls \<longrightarrow> bound = AddrInUse \<and>
        (\<exists>out. popen_out = Some out \<and> strip_newlines out \<noteq> [] \<and> k = ''kill '' @ strip_newlines out)) \<and>
     (r \<longleftrightarrow> socket_ok \<and> (bound = BindOk \<or> (\<exists>k. System k \<in> set calls \<and> system_ok k)))"
  by (auto simp: CheckAndKillProgramOnPort_def Let_def split: bind_result.split option.split)

lemma CheckAndKillProgramOnPort_safe_witness:
  "CheckAndKillProgramOnPort (\<lambda>_. ''8000'') True AddrInUse (Some (''42'' @ [CHR 0x0A])) (\<lambda>_. True) 8000
     = (True, [Popen ''lsof -i :8000 -t'', Pclose, System ''kill 42'', CloseSocket]) \<and>
   last (snd (CheckAndKillProgramOnPort (\<lambda>_. ''8000'') True BindFailed None (\<lambda>_. True) 8000)) = CloseSocket"
  using CheckAndKillProgramOnPort_safe [where show_int = "\<lambda>_. ''8000''" and socket_ok = True
      and bound = BindFailed and popen_out = None and system_ok = "\<lambda>_. True" and port = 8000]
  by (auto simp: CheckAndKillProgramOnPort_def strip_newlines_def)

text \<open>Where every command line in \<open>/proc\<close> can be read and no signal fails, the start-up check
  signals every process whose first argument is the program's name, in directory order, as soon as
  there are two of them. Nothing excludes the process that is starting: it is among those it
  signals.\<close>

theorem check_duplicate_process_kills_all:
  assumes "\<forall>p \<in> set procs. snd p \<noteq> Some []" and "\<forall>pid. kill_ok pid"
  shows "check_duplicate_process kill_ok name procs =
    Inr (if length (filter (runs name) procs) \<le> 1 then ([], True)
         else (map (atoi \<circ> fst) (filter (runs name) procs), True))"
  using assms by (simp add: check_duplicate_process_def collect_pids_ok kill_all_ok)

lemma check_duplicate_process_kills_all_witness:
  "check_duplicate_process (\<lambda>_. True) ''openapt''
     [(''7'', Some ''openapt''), (''self'', Some ''openapt''), (''12'', Some ''openapt'')] = Inr ([7, 12], True)"
  using atoi_examples
  by (subst check_duplicate_process_kills_all)
    (simp_all add: runs_def c_isdigit_def fgets_1024_def c_str_def)

end
