(* ===== verification/Downloader.thy ===== *)
theory Downloader
  imports Prelude
begin

text \<open>
  The download manager of \<open>src/src/components/network/downloader.cpp\<close> and \<open>downloader.hpp\<close>. The
  task file is its text; \<open>writable\<close> says whether it can be opened for writing. HTTP, the opening
  of the target files, the room on the device and the clock are the fields of \<open>world\<close>. A
  target file is opened to append: a write goes to the end of the file and leaves the position there.
\<close>

section \<open>Tasks and the task file\<close>

record DownloadTask =
  url :: string
  filepath :: string
  completed :: bool
  paused :: bool
  downloaded_bytes :: size_t
  priority :: int

definition new_task :: "string \<Rightarrow> string \<Rightarrow> DownloadTask" where
  "new_task u f = \<lparr>url = u, filepath = f, completed = False, paused = False,
     downloaded_bytes = 0, priority = 0\<rparr>"

text \<open>The whitespace of the classic locale.\<close>

definition is_space :: "char \<Rightarrow> bool" where
  "is_space c \<longleftrightarrow> c \<in> {CHR '' '', CHR 0x09, CHR 0x0A, CHR 0x0B, CHR 0x0C, CHR 0x0D}"

abbreviation skip_ws :: "string \<Rightarrow> string" where
  "skip_ws \<equiv> dropWhile is_space"

text \<open>\<open>infile >> s\<close>: the token it reads after skipping whitespace, and what is left.\<close>

definition token :: "string \<Rightarrow> string \<times> string" where
  "token s = (takeWhile (\<lambda>c. \<not> is_space c) (skip_ws s), dropWhile (\<lambda>c. \<not> is_space c) (skip_ws s))"

lemma length_token: "length (snd (token s)) \<le> length s"
  by (simp add: token_def) (meson length_dropWhile_le order_trans)

lemma length_token_less:
  assumes "skip_ws s \<noteq> []"
  shows "length (snd (token s)) < length s"
proof -
  obtain c cs where c: "skip_ws s = c # cs" using assms by (cases "skip_ws s") auto
  then have "\<not> is_space c" using hd_dropWhile [OF assms] by simp
  then have "length (snd (token s)) \<le> length cs" using c by (simp add: token_def length_dropWhile_le)
  moreover have "length (c # cs) \<le> length s" using c length_dropWhile_le [of is_space s] by simp
  ultimately show ?thesis by simp
qed

function load_tasks :: "string \<Rightarrow> DownloadTask list" where
  "load_tasks s =
     (if skip_ws s = [] then []
      else let (u, s1) = token s; (f, s2) = token s1 in
        if u \<noteq> [] \<and> f \<noteq> [] then new_task u f # load_tasks s2 else load_tasks s2)"
  by auto
termination
proof (relation "measure length", goal_cases)
  case (2 s x u s1 y f s2)
  then show ?case using length_token_less [of s] length_token [of s1] by simp (metis le_less_trans snd_conv)
next
  case (3 s x u s1 y f s2)
  then show ?case using length_token_less [of s] length_token [of s1] by simp (metis le_less_trans snd_conv)
qed simp

definition task_line :: "string \<Rightarrow> string \<Rightarrow> string" where
  "task_line u f = u @ '' '' @ f @ [CHR 0x0A]"

section \<open>The manager\<close>

text \<open>
  \<open>task_queue_\<close> is the priority queue as the order its elements leave it. No function pushes to it.
\<close>

record download_manager =
  tasks :: "DownloadTask list"
  task_queue :: "DownloadTask list"
  running :: bool
  task_file :: "string option"

definition DownloadManager :: "string option \<Rightarrow> download_manager result" where
  "DownloadManager file = (case file of
     None \<Rightarrow> Inl (Throw ''Failed to open task file.'')
   | Some text \<Rightarrow>
       Inr \<lparr>tasks = load_tasks text, task_queue = [], running = False, task_file = Some text\<rparr>)"

definition save_task_list_to_file :: "bool \<Rightarrow> download_manager \<Rightarrow> download_manager result" where
  "save_task_list_to_file writable dm =
     (if \<not> writable then Inl (Throw ''Failed to open task file.'')
      else Inr (dm\<lparr>task_file := Some (concat (map (\<lambda>t. task_line (url t) (filepath t)) (tasks dm)))\<rparr>))"

text \<open>An exception thrown while the destructor runs ends the program.\<close>

definition destroy_DownloadManager :: "bool \<Rightarrow> download_manager \<Rightarrow> download_manager result" where
  "destroy_DownloadManager writable dm = (case save_task_list_to_file writable dm of
     Inl e \<Rightarrow> Inl Terminates
   | Inr dm' \<Rightarrow> Inr dm')"

definition add_task :: "bool \<Rightarrow> string \<Rightarrow> string \<Rightarrow> int \<Rightarrow> download_manager \<Rightarrow> download_manager result" where
  "add_task writable u f p dm =
     (if \<not> writable then Inl (Throw ''Failed to open task file.'')
      else Inr (dm\<lparr>
        task_file := Some ((case task_file dm of None \<Rightarrow> [] | Some text \<Rightarrow> text) @ task_line u f),
        tasks := tasks dm @ [\<lparr>url = u, filepath = f, completed = False, paused = False,
          downloaded_bytes = 0, priority = p\<rparr>]\<rparr>))"

definition remove_task :: "nat \<Rightarrow> download_manager \<Rightarrow> download_manager \<times> bool" where
  "remove_task index dm =
     (if index \<ge> length (tasks dm) then (dm, False)
      else (dm\<lparr>tasks := (tasks dm)[index := (tasks dm ! index)\<lparr>completed := True\<rparr>]\<rparr>, True))"

definition pause_task :: "nat \<Rightarrow> download_manager \<Rightarrow> download_manager" where
  "pause_task index dm =
     (if index \<ge> length (tasks dm) then dm
      else dm\<lparr>tasks := (tasks dm)[index := (tasks dm ! index)\<lparr>paused := True\<rparr>]\<rparr>)"

definition resume_task :: "nat \<Rightarrow> download_manager \<Rightarrow> download_manager" where
  "resume_task index dm =
     (if index \<ge> length (tasks dm) then dm
      else dm\<lparr>tasks := (tasks dm)[index := (tasks dm ! index)\<lparr>paused := False\<rparr>]\<rparr>)"

definition get_downloaded_bytes :: "nat \<Rightarrow> download_manager \<Rightarrow> size_t" where
  "get_downloaded_bytes index dm =
     (if index \<ge> length (tasks dm) then 0 else downloaded_bytes (tasks dm ! index))"

text \<open>\<open>held\<close> says whether the calling thread holds \<open>mutex_\<close> already.\<close>

definition get_next_task_index :: "bool \<Rightarrow> download_manager \<Rightarrow> nat option outcome" where
  "get_next_task_index held dm =
     (if held then Deadlocks
      else (let i = find_if (\<lambda>t. \<not> completed t \<and> \<not> paused t) (tasks dm) in
        Returns (if i < length (tasks dm) then Some i else None)))"

definition get_next_task :: "download_manager \<Rightarrow> (DownloadTask option \<times> download_manager) outcome" where
  "get_next_task dm = (case task_queue dm of
     t # q \<Rightarrow> Returns (Some t, dm\<lparr>task_queue := q\<rparr>)
   | [] \<Rightarrow> (case get_next_task_index True dm of
         Returns None \<Rightarrow> Returns (None, dm)
       | Returns (Some i) \<Rightarrow> Returns (Some (tasks dm ! i), dm)
       | Waits \<Rightarrow> Waits
       | Deadlocks \<Rightarrow> Deadlocks))"

section \<open>Downloading\<close>

text \<open>
  \<open>get\<close> is the answer to \<open>GET /\<close> (status and body), \<open>allowed\<close> the number of bytes the limit
  allows up to now, as a double converted to \<open>size_t\<close>, and \<open>room\<close> the length a file may reach:
  a write beyond it writes what fits and leaves the stream bad, and \<open>tellp\<close> of a bad stream is \<open>-1\<close>.
\<close>

record world =
  get :: "string \<Rightarrow> (int \<times> string) option"
  can_open :: "string \<Rightarrow> bool"
  room :: nat
  allowed :: "string \<Rightarrow> size_t"

record ofstream =
  content :: string
  pos :: nat
  bad :: bool

definition stream_write :: "nat \<Rightarrow> string \<Rightarrow> ofstream \<Rightarrow> ofstream" where
  "stream_write lim s out =
     (if bad out \<or> s = [] then out
      else let c = content out @ take (lim - length (content out)) s in
        out\<lparr>content := c, pos := length c, bad := length (content out) + length s > lim\<rparr>)"

definition tellp :: "ofstream \<Rightarrow> size_t" where
  "tellp out = (if bad out then - 1 else of_nat (pos out))"

definition kBufferSize :: size_t where
  "kBufferSize = 1024 * 1024"

definition buffer_size :: "size_t \<Rightarrow> size_t \<Rightarrow> DownloadTask \<Rightarrow> size_t" where
  "buffer_size download_speed now_allowed t =
     (if download_speed > 0 then
        (let bytes_to_download = now_allowed - downloaded_bytes t in
         if bytes_to_download < kBufferSize then bytes_to_download else kBufferSize)
      else kBufferSize)"

text \<open>The text of \<open>c_str()\<close> ends in a NUL, which may be read; reading further is undefined.\<close>

partial_function (option) write_loop ::
    "nat \<Rightarrow> string \<Rightarrow> size_t \<Rightarrow> DownloadTask \<Rightarrow> ofstream \<Rightarrow> (DownloadTask \<times> ofstream) result option" where
  "write_loop lim body buf t out =
     (if body \<noteq> [] \<and> \<not> completed t \<and> \<not> paused t then
        (let left = of_nat (length body) - downloaded_bytes t;
             bytes_to_write = (if left > buf then buf else left);
             text = body @ [CHR 0x00] in
         if length text < unat (downloaded_bytes t) + unat bytes_to_write then Some (Inl OutOfBounds)
         else
           (let out' = stream_write lim (take (unat bytes_to_write) (drop (unat (downloaded_bytes t)) text)) out;
                bytes_written = tellp out' - downloaded_bytes t;
                d = downloaded_bytes t + bytes_written in
            write_loop lim body buf
              (t\<lparr>downloaded_bytes := d, completed := completed t \<or> d \<ge> of_nat (length body)\<rparr>) out'))
      else Some (Inr (t, out)))"

type_synonym files = "string \<Rightarrow> string option"

definition download_task ::
    "world \<Rightarrow> size_t \<Rightarrow> DownloadTask \<Rightarrow> files \<Rightarrow> (DownloadTask \<times> files) result option" where
  "download_task w download_speed t fs = (case get w (url t) of
     None \<Rightarrow> Some (Inr (t, fs))
   | Some (status, body) \<Rightarrow>
       if status \<noteq> 200 \<or> \<not> can_open w (filepath t) then Some (Inr (t, fs))
       else
         (let old = (case fs (filepath t) of None \<Rightarrow> [] | Some c \<Rightarrow> c);
              out = \<lparr>content = old, pos = unat (downloaded_bytes t), bad = False\<rparr> in
          map_option (map_sum id (\<lambda>(t', out'). (t', fs(filepath t \<mapsto> content out'))))
            (write_loop (room w) body (buffer_size download_speed (allowed w (filepath t)) t) t out)))"

text \<open>
  \<open>run\<close> downloads a copy of the task: what \<open>download_task\<close> notes in it is lost. No function
  resets \<open>running_\<close>.
\<close>

partial_function (option) run_loop ::
    "world \<Rightarrow> size_t \<Rightarrow> download_manager \<Rightarrow> files \<Rightarrow> (download_manager \<times> files) result outcome option" where
  "run_loop w download_speed dm fs =
     (if \<not> running dm then Some (Returns (Inr (dm, fs)))
      else (case get_next_task dm of
          Waits \<Rightarrow> Some Waits
        | Deadlocks \<Rightarrow> Some Deadlocks
        | Returns (None, dm') \<Rightarrow> Some (Returns (Inr (dm', fs)))
        | Returns (Some t, dm') \<Rightarrow>
            if completed t \<or> paused t then run_loop w download_speed dm' fs
            else Option.bind (download_task w download_speed t fs) (\<lambda>r. case r of
                Inl e \<Rightarrow> Some (Returns (Inl e))
              | Inr (t', fs') \<Rightarrow> run_loop w download_speed dm' fs')))"

text \<open>
  \<open>start\<close> joins its threads. They share only the queue, so they are run one after another here; a
  thread that never returns is never joined.
\<close>

primrec run_threads ::
    "nat \<Rightarrow> world \<Rightarrow> size_t \<Rightarrow> download_manager \<Rightarrow> files \<Rightarrow> (download_manager \<times> files) result outcome option" where
  "run_threads 0 w download_speed dm fs = Some (Returns (Inr (dm, fs)))"
| "run_threads (Suc n) w download_speed dm fs =
     Option.bind (run_loop w download_speed dm fs) (\<lambda>r. case r of
       Returns (Inr (dm', fs')) \<Rightarrow> run_threads n w download_speed dm' fs'
     | r' \<Rightarrow> Some r')"

definition start ::
    "nat \<Rightarrow> world \<Rightarrow> size_t \<Rightarrow> download_manager \<Rightarrow> files \<Rightarrow> (download_manager \<times> files) result outcome option" where
  "start thread_count w download_speed dm fs =
     run_threads thread_count w download_speed (dm\<lparr>running := True\<rparr>) fs"

section \<open>The task file as words\<close>

function words :: "string \<Rightarrow> string list" where
  "words s = (if skip_ws s = [] then [] else fst (token s) # words (snd (token s)))"
  by auto
termination
  by (relation "measure length") (simp_all add: length_token_less)

declare load_tasks.simps [simp del] words.simps [simp del]

fun pair_up :: "string list \<Rightarrow> DownloadTask list" where
  "pair_up (u # f # ws) = new_task u f # pair_up ws"
| "pair_up _ = []"

lemma token_nonempty: "skip_ws s \<noteq> [] \<Longrightarrow> fst (token s) \<noteq> []"
  using hd_dropWhile [of is_space s] by (cases "skip_ws s") (auto simp: token_def)

lemma token_empty:
  assumes "skip_ws s = []"
  shows "token s = ([], [])"
  unfolding token_def assms by simp

lemma load_tasks_Nil [simp]: "load_tasks [] = []" and words_Nil [simp]: "words [] = []"
  by (simp_all add: load_tasks.simps [of "[]"] words.simps [of "[]"])

lemma load_tasks_words: "load_tasks s = pair_up (words s)"
proof (induction s rule: length_induct)
  case (1 s)
  show ?case
  proof (cases "skip_ws s = []")
    case True
    then show ?thesis by (simp add: load_tasks.simps [of s] words.simps [of s])
  next
    case False
    obtain u s1 where t: "token s = (u, s1)" by (cases "token s")
    obtain f s2 where t1: "token s1 = (f, s2)" by (cases "token s1")
    have u: "u \<noteq> []" "length s1 < length s" "length s2 \<le> length s1"
      using token_nonempty [OF False] length_token_less [OF False] length_token [of s1] t t1 by auto
    with 1 have IH: "load_tasks s2 = pair_up (words s2)" by simp
    show ?thesis
    proof (cases "skip_ws s1 = []")
      case True
      with t1 token_empty have "f = []" "s2 = []" by auto
      with False True t t1 show ?thesis
        by (simp add: load_tasks.simps [of s] words.simps [of s] words.simps [of s1])
    next
      case f: False
      with token_nonempty t1 have "f \<noteq> []" by force
      with u False f t t1 IH show ?thesis
        by (simp add: load_tasks.simps [of s] words.simps [of s] words.simps [of s1])
    qed
  qed
qed

lemma dropWhile_sep: "P c \<Longrightarrow> \<exists>x \<in> set xs. \<not> P x \<Longrightarrow> dropWhile P (xs @ ys) = dropWhile P xs @ ys"
  by (induction xs) auto

lemma words_append:
  assumes "is_space c"
  shows "words (s @ c # t) = words s @ words t"
proof (induction s rule: length_induct)
  case (1 s)
  show ?case
  proof (cases "skip_ws s = []")
    case True
    then have "skip_ws (s @ c # t) = skip_ws t" using assms by (auto simp: dropWhile_append)
    then show ?thesis using True
      by (simp add: words.simps [of "s @ c # t"] words.simps [of s] words.simps [of t] token_def)
  next
    case False
    let ?N = "\<lambda>c. \<not> is_space c"
    have skip: "skip_ws (s @ c # t) = skip_ws s @ c # t"
      using False by (auto simp: dropWhile_append)
    have "takeWhile ?N (skip_ws s @ c # t) = takeWhile ?N (skip_ws s)" for s t
      using assms by (auto simp: takeWhile_append takeWhile_eq_all_conv [THEN iffD2])
    moreover have "dropWhile ?N (skip_ws s @ c # t) = dropWhile ?N (skip_ws s) @ c # t" for s t
      using assms by (auto simp: dropWhile_append dropWhile_eq_Nil_conv [symmetric] simp del: dropWhile_eq_Nil_conv)
    ultimately have "token (s @ c # t) = (fst (token s), snd (token s) @ c # t)"
      using skip by (simp add: token_def)
    moreover have "words (snd (token s) @ c # t) = words (snd (token s)) @ words t"
      using 1 length_token_less [OF False] by simp
    ultimately show ?thesis using False skip
      by (simp add: words.simps [of "s @ c # t"] words.simps [of s])
  qed
qed

text \<open>What \<open>>>\<close> reads back as one token.\<close>

definition is_token :: "string \<Rightarrow> bool" where
  "is_token s \<longleftrightarrow> s \<noteq> [] \<and> list_all (\<lambda>c. \<not> is_space c) s"

lemma words_token: "is_token s \<Longrightarrow> words s = [s]"
proof -
  assume "is_token s"
  then have "skip_ws s = s" "token s = (s, [])" "s \<noteq> []"
    by (auto simp: is_token_def token_def list_all_iff dropWhile_eq_Nil_conv dropWhile_eq_self_iff hd_in_set)
  then show ?thesis by (simp add: words.simps [of s])
qed

lemma spaces [simp]: "is_space (CHR '' '')" "is_space (CHR 0x0A)"
  by (simp_all add: is_space_def)

lemma words_task_line: "is_token u \<Longrightarrow> is_token f \<Longrightarrow> words (task_line u f @ t) = u # f # words t"
  by (simp add: task_line_def words_append words_token)

lemma load_saved:
  "\<forall>t \<in> set ts. is_token (url t) \<and> is_token (filepath t) \<Longrightarrow>
     load_tasks (concat (map (\<lambda>t. task_line (url t) (filepath t)) ts) @ rest) =
       map (\<lambda>t. new_task (url t) (filepath t)) ts @ load_tasks rest"
  by (induction ts) (auto simp: load_tasks_words words_task_line)

section \<open>Calls in sequence\<close>

text \<open>An \<open>add_task\<close> that cannot open the task file throws and changes nothing.\<close>

datatype dm_call = AddTask bool string string int | RemoveTask nat | PauseTask nat | ResumeTask nat

fun dm_do :: "dm_call \<Rightarrow> download_manager \<Rightarrow> download_manager" where
  "dm_do (AddTask writable u f p) dm = (case add_task writable u f p dm of Inl e \<Rightarrow> dm | Inr dm' \<Rightarrow> dm')"
| "dm_do (RemoveTask i) dm = fst (remove_task i dm)"
| "dm_do (PauseTask i) dm = pause_task i dm"
| "dm_do (ResumeTask i) dm = resume_task i dm"

fun token_call :: "dm_call \<Rightarrow> bool" where
  "token_call (AddTask writable u f p) = (is_token u \<and> is_token f)"
| "token_call _ = True"

fun adds :: "dm_call \<Rightarrow> bool" where
  "adds (AddTask writable u f p) = writable"
| "adds _ = False"

definition entry :: "DownloadTask \<Rightarrow> string \<times> string" where
  "entry t = (url t, filepath t)"

lemma new_task_simps [simp]: "url (new_task u f) = u" "filepath (new_task u f) = f"
  by (simp_all add: new_task_def)

lemma entry_simps [simp]:
  "entry (t\<lparr>completed := b\<rparr>) = entry t" "entry (t\<lparr>paused := b\<rparr>) = entry t"
  "entry (new_task u f) = (u, f)"
  by (simp_all add: entry_def new_task_def)

text \<open>What the calls keep: the queue stays empty, and every entry reads back.\<close>

definition dm_inv :: "download_manager \<Rightarrow> bool" where
  "dm_inv dm \<longleftrightarrow> task_queue dm = [] \<and> (\<forall>(u, f) \<in> entry ` set (tasks dm). is_token u \<and> is_token f)"

text \<open>The file ends a line, holds whole entries, and these are the entries of the list.\<close>

definition synced :: "download_manager \<Rightarrow> bool" where
  "synced dm \<longleftrightarrow> (\<exists>contents. task_file dm = Some contents \<and> (contents = [] \<or> is_space (last contents)) \<and>
     even (length (words contents)) \<and> map entry (load_tasks contents) = map entry (tasks dm))"

lemma words_are_tokens: "\<forall>w \<in> set (words s). is_token w"
proof (induction s rule: length_induct)
  case (1 s)
  show ?case
  proof (cases "skip_ws s = []")
    case False
    with 1 length_token_less [OF False] have "\<forall>w \<in> set (words (snd (token s))). is_token w" by blast
    moreover have "is_token (fst (token s))"
      using token_nonempty [OF False] by (auto simp: is_token_def token_def list_all_iff dest: set_takeWhileD)
    ultimately show ?thesis using False by (simp add: words.simps [of s])
  qed (simp add: words.simps [of s])
qed

lemma pair_up_tokens:
  "\<forall>w \<in> set ws. is_token w \<Longrightarrow> \<forall>(u, f) \<in> entry ` set (pair_up ws). is_token u \<and> is_token f"
  by (induction ws rule: pair_up.induct) auto

lemma pair_up_append: "even (length ws) \<Longrightarrow> pair_up (ws @ vs) = pair_up ws @ pair_up vs"
  by (induction ws rule: pair_up.induct) auto

lemma map_entry_update: "i < length ts \<Longrightarrow> entry t = entry (ts ! i) \<Longrightarrow> map entry (ts[i := t]) = map entry ts"
  by (simp add: map_update list_update_same_conv)

lemma marked_entries:
  "map entry (tasks (fst (remove_task i dm))) = map entry (tasks dm)"
  "map entry (tasks (pause_task i dm)) = map entry (tasks dm)"
  "map entry (tasks (resume_task i dm)) = map entry (tasks dm)"
  by (simp_all add: remove_task_def pause_task_def resume_task_def map_entry_update)

lemma marked_rest:
  "task_queue (fst (remove_task i dm)) = task_queue dm" "task_file (fst (remove_task i dm)) = task_file dm"
  "task_queue (pause_task i dm) = task_queue dm" "task_file (pause_task i dm) = task_file dm"
  "task_queue (resume_task i dm) = task_queue dm" "task_file (resume_task i dm) = task_file dm"
  by (simp_all add: remove_task_def pause_task_def resume_task_def)

lemma dm_do_entries:
  "map entry (tasks (dm_do c dm)) =
     map entry (tasks dm) @ (case c of AddTask writable u f p \<Rightarrow> if writable then [(u, f)] else [] | _ \<Rightarrow> [])"
  by (cases c) (simp_all add: marked_entries add_task_def entry_def)

lemma entries_set': "map entry ts = map entry ts' @ es \<Longrightarrow> entry ` set ts = entry ` set ts' \<union> set es"
  by (metis set_append set_map)

lemma dm_do_queue: "task_queue (dm_do c dm) = task_queue dm"
  by (cases c) (simp_all add: marked_rest add_task_def)

lemma dm_do_inv: "dm_inv dm \<Longrightarrow> token_call c \<Longrightarrow> dm_inv (dm_do c dm)"
  using entries_set' [OF dm_do_entries [of c dm]]
  by (cases c) (auto simp: dm_inv_def dm_do_queue simp del: dm_do.simps split: if_splits)

lemma synced_add:
  assumes "synced dm" "is_token u" "is_token f" "add_task True u f p dm = Inr dm'"
  shows "synced dm'"
proof -
  from assms(1) obtain contents where t: "task_file dm = Some contents" "contents = [] \<or> is_space (last contents)"
    "even (length (words contents))" "map entry (load_tasks contents) = map entry (tasks dm)"
    by (auto simp: synced_def)
  have line: "words (task_line u f) = [u, f]"
    using words_task_line [OF assms(2,3), of "[]"] by simp
  have "words (contents @ task_line u f) = words contents @ [u, f]"
  proof (cases "contents = []")
    case False
    then have e: "contents = butlast contents @ last contents # []" by simp
    have "words (butlast contents @ last contents # task_line u f) = words (butlast contents) @ words (task_line u f)"
      "words (butlast contents @ last contents # []) = words (butlast contents) @ words []"
      by (rule words_append, use t(2) False in simp)+
    with e line show ?thesis by (metis append.assoc append_Cons append_Nil append_Nil2 words_Nil)
  qed (use line in simp)
  moreover have "last (contents @ task_line u f) = CHR 0x0A" by (simp add: task_line_def)
  ultimately show ?thesis using assms(4) t
    by (auto simp: synced_def add_task_def load_tasks_words pair_up_append entry_def)
qed

lemma dm_do_synced: "synced dm \<Longrightarrow> token_call c \<Longrightarrow> synced (dm_do c dm)"
proof (cases c)
  case (AddTask writable u f p)
  assume "synced dm" "token_call c"
  with AddTask show ?thesis using synced_add [of dm u f p]
    by (cases writable) (auto simp: add_task_def)
qed (auto simp: synced_def marked_rest marked_entries)

lemma fold_dm_do:
  assumes "dm_inv dm" "list_all token_call cs"
  shows "dm_inv (fold dm_do cs dm) \<and> (synced dm \<longrightarrow> synced (fold dm_do cs dm)) \<and>
    length (tasks (fold dm_do cs dm)) = length (tasks dm) + length (filter adds cs)"
  using assms
proof (induction cs arbitrary: dm)
  case (Cons c cs)
  then have "dm_inv (dm_do c dm)" "synced dm \<longrightarrow> synced (dm_do c dm)"
    using dm_do_inv dm_do_synced by auto
  moreover have "length (tasks (dm_do c dm)) = length (tasks dm) + (if adds c then 1 else 0)"
    using arg_cong [OF dm_do_entries [of c dm], of length] by (auto split: dm_call.splits)
  ultimately show ?case using Cons by simp
qed simp

lemma DownloadManager_inv: "DownloadManager (Some contents) = Inr dm \<Longrightarrow> dm_inv dm \<and> tasks dm = load_tasks contents"
  using pair_up_tokens [OF words_are_tokens [of contents]]
  by (auto simp: DownloadManager_def dm_inv_def load_tasks_words split: prod.splits)

lemma entry_new_task: "map entry ts = map entry (pair_up ws) \<Longrightarrow>
  pair_up ws = map (\<lambda>t. new_task (url t) (filepath t)) ts"
  by (induction ws arbitrary: ts rule: pair_up.induct) (auto simp: entry_def new_task_def)

section \<open>Writing a body to a file\<close>

lemma write_done: "completed t \<Longrightarrow> write_loop lim body buf t out = Some (Inr (t, out))"
  by (simp add: write_loop.simps)

lemma write_step:
  assumes "body \<noteq> []" "\<not> completed t" "\<not> paused t" "unat (downloaded_bytes t) \<le> length body"
    and "length body < 2 ^ 64" "n = min (length body - unat (downloaded_bytes t)) (unat buf)"
    and "out' = stream_write lim (take n (drop (unat (downloaded_bytes t)) body)) out"
  shows "write_loop lim body buf t out = write_loop lim body buf
    (t\<lparr>downloaded_bytes := tellp out', completed := of_nat (length body) \<le> tellp out'\<rparr>) out'"
proof -
  let ?d = "downloaded_bytes t"
  let ?left = "of_nat (length body) - ?d"
  let ?n = "if ?left > buf then buf else ?left"
  have len: "unat (of_nat (length body) :: size_t) = length body"
    using assms(5) by (simp add: unsigned_of_nat take_bit_nat_eq_self)
  then have "?d \<le> of_nat (length body)" using assms(4) by (simp add: word_le_nat_alt)
  then have "unat ?left = length body - unat ?d" using len by (simp add: unat_sub)
  then have n: "unat ?n = n" using assms(6) by (auto simp: word_less_nat_alt min_def)
  then have "\<not> length (body @ [CHR 0x00]) < unat ?d + unat ?n" using assms(4,6) by simp
  moreover have "take (unat ?n) (drop (unat ?d) (body @ [CHR 0x00])) = take n (drop (unat ?d) body)"
    using n assms(6) by simp
  ultimately show ?thesis using assms(1-3,7) by (subst write_loop.simps) (simp add: Let_def)
qed

lemma write_loop_in_step:
  assumes "body \<noteq> []" "\<not> completed t" "\<not> paused t" "\<not> bad out" "buf \<noteq> 0" "length body < 2 ^ 64"
    and "unat (downloaded_bytes t) = length (content out)" "pos out = length (content out)"
    and "length (content out) \<le> length body" "length (content out) \<le> lim"
  shows "\<exists>t' out'. write_loop lim body buf t out = Some (Inr (t', out')) \<and> completed t' \<and>
    content out' = take lim (content out @ drop (length (content out)) body)"
  using assms
proof (induction "length body - length (content out)" arbitrary: t out rule: less_induct)
  case less
  let ?L = "length (content out)"
  define n where "n = min (length body - ?L) (unat buf)"
  define out' where "out' = stream_write lim (take n (drop ?L body)) out"
  define t' where "t' = t\<lparr>downloaded_bytes := tellp out', completed := of_nat (length body) \<le> tellp out'\<rparr>"
  have buf: "0 < unat buf" using less.prems(5) by (simp add: unat_gt_0)
  have n: "n \<le> length body - ?L" by (simp add: n_def)
  have step: "write_loop lim body buf t out = write_loop lim body buf t' out'"
    unfolding t'_def by (rule write_step) (use less.prems in \<open>simp_all add: n_def out'_def\<close>)
  have small: "unat (of_nat x :: size_t) = x" if "x \<le> length body" for x
    using that less.prems(6) by (simp add: unsigned_of_nat take_bit_nat_eq_self)
  have split: "drop ?L body = take n (drop ?L body) @ drop (?L + n) body"
    by (metis add.commute append_take_drop_id drop_drop)
  consider "n = 0" | "0 < n" "lim < ?L + n" | "0 < n" "?L + n \<le> lim" by linarith
  then show ?case
  proof cases
    case 1
    with buf less.prems(9) have "?L = length body" by (simp add: n_def)
    with 1 less.prems have "out' = out" "tellp out' = of_nat (length body)"
      by (simp_all add: out'_def stream_write_def tellp_def)
    with step write_done [of t'] \<open>?L = length body\<close> less.prems(10) show ?thesis
      by (auto simp: t'_def)
  next
    case 2
    with n less.prems(4,9) have "tellp out' = - 1" "content out' = content out @ take (lim - ?L) (take n (drop ?L body))"
      by (auto simp: out'_def stream_write_def tellp_def Let_def)
    moreover have "take (lim - ?L) (take n (drop ?L body)) = take (lim - ?L) (drop ?L body)"
      using 2 by (simp add: min_def)
    ultimately have "completed t'" "content out' = take lim (content out @ drop ?L body)"
      using less.prems(10) by (simp_all add: t'_def)
    with step write_done [of t'] show ?thesis by auto
  next
    case 3
    with n less.prems(4,9) have o: "content out' = content out @ take n (drop ?L body)"
      "pos out' = ?L + n" "\<not> bad out'" "tellp out' = of_nat (?L + n)"
      by (auto simp: out'_def stream_write_def tellp_def Let_def)
    have le: "?L + n \<le> length body" using n less.prems(9) by simp
    have len: "length (content out') = ?L + n" using o(1) le by simp
    have whole: "content out' @ drop (?L + n) body = content out @ drop ?L body"
      using o(1) split by simp
    show ?thesis
    proof (cases "completed t'")
      case True
      then have "?L + n = length body" using le o(4) small [of "?L + n"] small [of "length body"]
        by (simp add: t'_def word_le_nat_alt)
      with whole len 3 have "content out' = take lim (content out @ drop ?L body)"
        by (metis drop_all append_Nil2 order_refl take_all)
      with step write_done [of t' lim body buf out'] True show ?thesis by auto
    next
      case False
      have "unat (downloaded_bytes t') = length (content out')"
        using o(4) len small [OF le] by (simp add: t'_def)
      moreover have "length body - length (content out') < length body - ?L"
        using 3(1) len le by simp
      moreover have "\<not> paused t'" using less.prems(3) by (simp add: t'_def)
      ultimately have "\<exists>t'' out''. write_loop lim body buf t' out' = Some (Inr (t'', out'')) \<and> completed t'' \<and>
          content out'' = take lim (content out' @ drop (length (content out')) body)"
        using less.hyps [of out' t'] less.prems(1,5,6) False o(2,3) len le 3(2) by metis
      then show ?thesis unfolding len whole step .
    qed
  qed
qed

text \<open>Without room in the buffer, the loop writes nothing for ever.\<close>

definition starved :: "string \<Rightarrow> DownloadTask \<Rightarrow> ofstream \<Rightarrow> bool" where
  "starved body t out \<longleftrightarrow> \<not> completed t \<and> \<not> paused t \<and> \<not> bad out \<and> length body < 2 ^ 64 \<and>
     unat (downloaded_bytes t) < length body \<and> pos out = unat (downloaded_bytes t)"

lemma write_loop_starved_Some: "write_loop lim body buf t out = Some r \<Longrightarrow> buf = 0 \<longrightarrow> \<not> starved body t out"
proof (erule write_loop.raw_induct [where P = "\<lambda>lim body buf t out r. buf = 0 \<longrightarrow> \<not> starved body t out", rotated],
    goal_cases)
  case (1 loop lim body buf t out r)
  show ?case
  proof (intro impI notI)
    assume b: "buf = 0" and st: "starved body t out"
    then have ne: "body \<noteq> []" by (auto simp: starved_def)
    have len: "unat (of_nat (length body) :: size_t) = length body"
      using st by (simp add: starved_def unsigned_of_nat take_bit_nat_eq_self)
    have "\<not> of_nat (length body) \<le> downloaded_bytes t"
      using st len by (simp add: starved_def word_le_nat_alt)
    moreover from this have "0 < of_nat (length body) - downloaded_bytes t"
      by (auto simp: word_gt_0)
    ultimately have "loop lim body buf (t\<lparr>downloaded_bytes := downloaded_bytes t, completed := False\<rparr>) out = Some r"
      using 1(2) b ne st by (simp add: starved_def stream_write_def tellp_def Let_def split: if_splits)
    from 1(1) [OF this] b have "\<not> starved body (t\<lparr>downloaded_bytes := downloaded_bytes t, completed := False\<rparr>) out"
      by simp
    with st show False by (simp add: starved_def)
  qed
qed

lemma write_loop_starved: "starved body t out \<Longrightarrow> write_loop lim body 0 t out = None"
  using write_loop_starved_Some [of lim body 0 t out] by (cases "write_loop lim body 0 t out") auto

section \<open>Properties\<close>

text \<open>C19. The task list survives a restart, but not its state: after any calls whose addresses and paths
  are single words, destroying the manager and constructing it again from its file gives every task
  that was ever loaded or added, in order, none completed, none paused, at priority 0 with no byte
  downloaded, the removed ones too. The file is also right at any moment before, if it was one of
  whole lines at the start; a missing file, or one that cannot be written, throws.\<close>

theorem task_list_restart:
  assumes "DownloadManager (Some contents) = Inr dm" and "list_all token_call cs"
  shows "length (tasks (fold dm_do cs dm)) = length (load_tasks contents) + length (filter adds cs) \<and>
    (\<exists>dm' dm''. destroy_DownloadManager True (fold dm_do cs dm) = Inr dm' \<and>
       DownloadManager (task_file dm') = Inr dm'' \<and>
       tasks dm'' = map (\<lambda>t. new_task (url t) (filepath t)) (tasks (fold dm_do cs dm)) \<and>
       ((contents = [] \<or> is_space (last contents)) \<and> even (length (words contents)) \<longrightarrow>
          DownloadManager (task_file (fold dm_do cs dm)) = Inr (dm''\<lparr>task_file := task_file (fold dm_do cs dm)\<rparr>))) \<and>
    DownloadManager None = Inl (Throw ''Failed to open task file.'') \<and>
    destroy_DownloadManager False (fold dm_do cs dm) = Inl Terminates"
proof -
  have inv: "dm_inv dm" "tasks dm = load_tasks contents" using DownloadManager_inv [OF assms(1)] by auto
  let ?dm = "fold dm_do cs dm"
  have f: "dm_inv ?dm" "synced dm \<longrightarrow> synced ?dm"
    "length (tasks ?dm) = length (load_tasks contents) + length (filter adds cs)"
    using fold_dm_do [OF inv(1) assms(2)] inv(2) by auto
  let ?contents = "concat (map (\<lambda>t. task_line (url t) (filepath t)) (tasks ?dm))"
  have tok: "\<forall>t \<in> set (tasks ?dm). is_token (url t) \<and> is_token (filepath t)"
    using f(1) by (auto simp: dm_inv_def entry_def)
  have reload: "load_tasks ?contents = map (\<lambda>t. new_task (url t) (filepath t)) (tasks ?dm)"
    using load_saved [OF tok, of "[]"] by simp
  have now: "\<exists>contents'. task_file ?dm = Some contents' \<and> load_tasks contents' = load_tasks ?contents"
    if "(contents = [] \<or> is_space (last contents)) \<and> even (length (words contents))"
  proof -
    have "synced dm" using that assms(1) by (auto simp: synced_def DownloadManager_def)
    with f(2) obtain contents' where t': "task_file ?dm = Some contents'"
      "map entry (load_tasks contents') = map entry (tasks ?dm)" by (auto simp: synced_def)
    with entry_new_task [of "tasks ?dm" "words contents'"] reload show ?thesis
      by (auto simp: load_tasks_words)
  qed
  have "destroy_DownloadManager True ?dm = Inr (?dm\<lparr>task_file := Some ?contents\<rparr>)"
    by (simp add: destroy_DownloadManager_def save_task_list_to_file_def)
  moreover have "DownloadManager (Some ?contents) =
      Inr \<lparr>tasks = load_tasks ?contents, task_queue = [], running = False, task_file = Some ?contents\<rparr>"
    by (simp add: DownloadManager_def)
  moreover have "destroy_DownloadManager False ?dm = Inl Terminates"
    by (simp add: destroy_DownloadManager_def save_task_list_to_file_def)
  moreover have "DownloadManager None = Inl (Throw ''Failed to open task file.'')"
    by (simp add: DownloadManager_def)
  ultimately show ?thesis using f(3) reload now by (auto simp: DownloadManager_def)
qed

lemma task_list_restart_witness:
  "length (tasks (fold dm_do [RemoveTask 0, AddTask True ''v'' ''g'' 3]
     \<lparr>tasks = load_tasks ''u f'', task_queue = [], running = False, task_file = Some ''u f''\<rparr>)) = 2"
proof -
  have "token ''u f'' = (''u'', '' f'')" "token '' f'' = (''f'', [])" by (simp_all add: token_def is_space_def)
  then have "length (load_tasks ''u f'') = 1"
    by (simp add: load_tasks.simps [of "''u f''"] is_space_def)
  then show ?thesis
    using task_list_restart [of "''u f''" _ "[RemoveTask 0, AddTask True ''v'' ''g'' 3]",
      OF DownloadManager_def [of "Some ''u f''", simplified option.case]]
    by (simp add: is_token_def is_space_def)
qed


definition one_file :: world where
  "one_file = \<lparr>get = (\<lambda>_. Some (200, ''abcdef'')), can_open = (\<lambda>_. True), room = 100, allowed = (\<lambda>_. 2)\<rparr>"




end
