(* ===== verification/Logs.thy ===== *)
theory Logs
  imports Json Strings "HOL-Library.Sublist" "HOL-Library.Multiset"
begin

text \<open>
  The log manager of \<open>src/src/components/logger/log_manager.cpp\<close>: reading log files into entries, the
  search, and the analysis of error messages. A file is its text, \<open>None\<close> when it cannot be opened.
  A \<open>std::map\<close> is a list of pairs in key order.
\<close>

section \<open>Entries\<close>

record log_entry =
  fileName :: string
  lineNumber :: nat
  message :: string

text \<open>\<open>std::getline\<close>: a text that ends in a newline has no further line.\<close>

function lines_of :: "string \<Rightarrow> string list" where
  "lines_of s =
     (if s = [] then []
      else takeWhile (\<lambda>c. c \<noteq> CHR 0x0A) s # lines_of (tl (dropWhile (\<lambda>c. c \<noteq> CHR 0x0A) s)))"
  by auto
termination
proof (relation "measure length", goal_cases)
  case (2 s)
  then have "0 < length s" by simp
  with length_dropWhile_le [of "\<lambda>c. c \<noteq> CHR 0x0A" s]
  have "length (dropWhile (\<lambda>c. c \<noteq> CHR 0x0A) s) - 1 < length s" by linarith
  then show ?case by (simp only: in_measure length_tl)
qed simp

declare lines_of.simps [simp del]

fun number_lines :: "string \<Rightarrow> nat \<Rightarrow> string list \<Rightarrow> log_entry list" where
  "number_lines path n [] = []"
| "number_lines path n (l # ls) = \<lparr>fileName = path, lineNumber = n, message = l\<rparr> # number_lines path (Suc n) ls"

definition parseLog :: "string \<Rightarrow> string option \<Rightarrow> log_entry list \<Rightarrow> log_entry list" where
  "parseLog path contents entries = (case contents of
     None \<Rightarrow> entries
   | Some s \<Rightarrow> entries @ number_lines path 1 (lines_of s))"

text \<open>A directory entry is a path and, for a regular file, what opening it gives.\<close>

fun scan_entries :: "(string \<times> string option option) list \<Rightarrow> log_entry list \<Rightarrow> log_entry list" where
  "scan_entries [] entries = entries"
| "scan_entries ((path, f) # fs) entries =
     scan_entries fs (case f of Some contents \<Rightarrow> parseLog path contents entries | None \<Rightarrow> entries)"

definition scanLogsFolder ::
    "(string \<times> string option option) list option \<Rightarrow> log_entry list \<Rightarrow> log_entry list result" where
  "scanLogsFolder folder entries = (case folder of
     None \<Rightarrow> Inl (Throw ''filesystem error'')
   | Some fs \<Rightarrow> Inr (scan_entries fs entries))"

section \<open>Search and analysis\<close>

fun searchLogs :: "string \<Rightarrow> log_entry list \<Rightarrow> log_entry list" where
  "searchLogs keyword [] = []"
| "searchLogs keyword (e # es) =
     (if str_find keyword (message e) \<noteq> None then e # searchLogs keyword es else searchLogs keyword es)"

fun extractErrorMessages :: "log_entry list \<Rightarrow> string list" where
  "extractErrorMessages [] = []"
| "extractErrorMessages (e # es) =
     (if str_find ''[ERROR]'' (message e) \<noteq> None then message e # extractErrorMessages es
      else extractErrorMessages es)"

definition getErrorType :: "string \<Rightarrow> string" where
  "getErrorType errorMessage = (case (str_find ''['' errorMessage, str_find '']'' errorMessage) of
     (Some startPos, Some endPos) \<Rightarrow>
       if endPos > startPos then take (endPos - startPos - 1) (drop (startPos + 1) errorMessage) else ''Unknown''
   | _ \<Rightarrow> ''Unknown'')"

text \<open>\<open>m[k]++\<close> on a \<open>std::map<std::string, int>\<close>.\<close>

definition bump :: "string \<Rightarrow> (string \<times> int) list \<Rightarrow> (string \<times> int) list" where
  "bump k m = obj_put k ((case map_of m k of None \<Rightarrow> 0 | Some n \<Rightarrow> n) + 1) m"

fun pick_max :: "(string \<times> int) list \<Rightarrow> string \<Rightarrow> int \<Rightarrow> string" where
  "pick_max [] best maxCount = best"
| "pick_max ((k, n) # m) best maxCount = (if n > maxCount then pick_max m k n else pick_max m best maxCount)"

definition getMostCommonErrorMessage :: "string list \<Rightarrow> string" where
  "getMostCommonErrorMessage errorMessages = pick_max (fold bump errorMessages []) [] 0"

text \<open>What \<open>analyzeLogs\<close> logs: the count of every type in key order, and the most common message.\<close>

definition analyzeLogs :: "log_entry list \<Rightarrow> ((string \<times> int) list \<times> string) option" where
  "analyzeLogs entries =
     (let errorMessages = extractErrorMessages entries in
      if errorMessages = [] then None
      else Some (fold (\<lambda>m c. bump (getErrorType m) c) errorMessages [],
             getMostCommonErrorMessage errorMessages))"

section \<open>Lemmas\<close>

lemma searchLogs_filter: "searchLogs keyword es = filter (\<lambda>e. sublist keyword (message e)) es"
  by (induction es) (auto simp: str_find_None_iff sublist_def)

lemma extract_filter:
  "extractErrorMessages es = filter (sublist ''[ERROR]'') (map message es)"
  by (induction es) (auto simp: str_find_None_iff sublist_def)

lemma bump_fold:
  assumes "ordered_obj m" "\<forall>(k, n) \<in> set m. 0 < n"
  shows "ordered_obj (fold bump ks m) \<and> (\<forall>(k, n) \<in> set (fold bump ks m). 0 < n) \<and>
    map_of (fold bump ks m) k =
      (if k \<in> set ks \<or> map_of m k \<noteq> None
       then Some ((case map_of m k of None \<Rightarrow> 0 | Some n \<Rightarrow> n) + int (count_list ks k)) else None)"
  using assms
proof (induction ks arbitrary: m)
  case (Cons x ks)
  have pos: "0 \<le> (case map_of m x of None \<Rightarrow> 0 | Some n \<Rightarrow> n)"
    using Cons.prems(2) by (auto split: option.splits dest!: map_of_SomeD)
  have "ordered_obj (bump x m)" using Cons.prems(1) by (simp add: bump_def)
  moreover have "\<forall>(k, n) \<in> set (bump x m). 0 < n"
    using Cons.prems(2) set_obj_put [of x _ m] pos unfolding bump_def by fastforce
  ultimately show ?case using Cons.IH [of "bump x m"]
    by (auto simp: bump_def split: option.splits)
qed (auto split: option.splits)

lemma counts:
  "ordered_obj (fold bump ks [])" "\<forall>(k, n) \<in> set (fold bump ks []). 0 < n"
  "map_of (fold bump ks []) k = (if k \<in> set ks then Some (int (count_list ks k)) else None)"
  using bump_fold [of "[]" ks k] by simp_all

text \<open>The first pair of the greatest value.\<close>

lemma pick_max_spec:
  assumes "\<forall>(k, n) \<in> set m. 0 < n" "pick_max m best c = r"
  shows "((\<forall>(k, n) \<in> set m. n \<le> c) \<and> r = best) \<or>
    (\<exists>ys n zs. m = ys @ (r, n) # zs \<and> c < n \<and> (\<forall>(k', n') \<in> set ys. n' < n) \<and> (\<forall>(k', n') \<in> set zs. n' \<le> n))"
  using assms
proof (induction m best c rule: pick_max.induct)
  case (2 k n m best c)
  show ?case
  proof (cases "n > c")
    case True
    with 2 have "((\<forall>(k, n') \<in> set m. n' \<le> n) \<and> r = k) \<or>
      (\<exists>ys n' zs. m = ys @ (r, n') # zs \<and> n < n' \<and> (\<forall>(k', n'') \<in> set ys. n'' < n') \<and> (\<forall>(k', n'') \<in> set zs. n'' \<le> n'))"
      by simp
    then show ?thesis
    proof
      assume "(\<forall>(k, n') \<in> set m. n' \<le> n) \<and> r = k"
      with True show ?thesis by (intro disjI2 exI [of _ "[]"] exI [of _ n] exI [of _ m]) auto
    next
      assume "\<exists>ys n' zs. m = ys @ (r, n') # zs \<and> n < n' \<and> (\<forall>(k', n'') \<in> set ys. n'' < n') \<and> (\<forall>(k', n'') \<in> set zs. n'' \<le> n')"
      then obtain ys n' zs where "m = ys @ (r, n') # zs" "n < n'" "\<forall>(k', n'') \<in> set ys. n'' < n'"
        "\<forall>(k', n'') \<in> set zs. n'' \<le> n'" by blast
      with True show ?thesis
        by (intro disjI2 exI [of _ "(k, n) # ys"] exI [of _ n'] exI [of _ zs]) auto
    qed
  next
    case False
    with 2 have "((\<forall>(k, n') \<in> set m. n' \<le> c) \<and> r = best) \<or>
      (\<exists>ys n' zs. m = ys @ (r, n') # zs \<and> c < n' \<and> (\<forall>(k', n'') \<in> set ys. n'' < n') \<and> (\<forall>(k', n'') \<in> set zs. n'' \<le> n'))"
      by simp
    then show ?thesis
    proof
      assume "(\<forall>(k, n') \<in> set m. n' \<le> c) \<and> r = best"
      with False show ?thesis by auto
    next
      assume "\<exists>ys n' zs. m = ys @ (r, n') # zs \<and> c < n' \<and> (\<forall>(k', n'') \<in> set ys. n'' < n') \<and> (\<forall>(k', n'') \<in> set zs. n'' \<le> n')"
      then obtain ys n' zs where "m = ys @ (r, n') # zs" "c < n'" "\<forall>(k', n'') \<in> set ys. n'' < n'"
        "\<forall>(k', n'') \<in> set zs. n'' \<le> n'" by blast
      with False show ?thesis
        by (intro disjI2 exI [of _ "(k, n) # ys"] exI [of _ n'] exI [of _ zs]) auto
    qed
  qed
qed simp

lemma most_common:
  assumes "msgs \<noteq> []" "getMostCommonErrorMessage msgs = r"
  shows "r \<in> set msgs \<and> (\<forall>k \<in> set msgs. count_list msgs k < count_list msgs r \<or>
    count_list msgs k = count_list msgs r \<and> r \<le> k)"
proof -
  let ?m = "fold bump msgs []"
  have get: "map_of ?m k = Some n \<longleftrightarrow> k \<in> set msgs \<and> n = int (count_list msgs k)" for k n
    by (auto simp: counts(3))
  have ord: "ordered_obj ?m" by (rule counts(1))
  then have dist: "distinct (map fst ?m)" by (rule ordered_obj_distinct)
  from assms(1) have "(hd msgs, int (count_list msgs (hd msgs))) \<in> set ?m"
    using get by (intro map_of_SomeD) simp
  then have "\<not> (\<forall>(k, n) \<in> set ?m. n \<le> 0)" using counts(2) [of msgs] by fastforce
  with pick_max_spec [OF counts(2), of msgs "[]" 0 r] assms(2) obtain ys n zs where
    m: "?m = ys @ (r, n) # zs" "\<forall>(k', n') \<in> set ys. n' < n" "\<forall>(k', n') \<in> set zs. n' \<le> n"
    by (auto simp: getMostCommonErrorMessage_def)
  then have "(r, n) \<in> set ?m" by simp
  then have "map_of ?m r = Some n" by (rule map_of_is_SomeI [OF dist])
  then have r: "r \<in> set msgs" "n = int (count_list msgs r)" using get by blast+
  have "count_list msgs k < count_list msgs r \<or> count_list msgs k = count_list msgs r \<and> r \<le> k"
    if "k \<in> set msgs" for k
  proof -
    have "(k, int (count_list msgs k)) \<in> set ?m" using that get by (intro map_of_SomeD) simp
    then consider "(k, int (count_list msgs k)) \<in> set ys" | "k = r" | "(k, int (count_list msgs k)) \<in> set zs"
      using m(1) by auto
    then show ?thesis
    proof cases
      case 3
      then have "r < k" using ord unfolding m(1) ordered_obj_def by (auto simp: sorted_wrt_append)
      with 3 m(3) r(2) show ?thesis by fastforce
    qed (use m(2) r(2) in fastforce)+
  qed
  with r(1) show ?thesis by blast
qed

lemma lines_of_Nil [simp]: "lines_of [] = []"
  by (simp add: lines_of.simps)

lemma lines_of_lines:
  "concat (map (\<lambda>l. l @ [CHR 0x0A]) (lines_of s)) = (if s = [] \<or> last s = CHR 0x0A then s else s @ [CHR 0x0A]) \<and>
   (\<forall>l \<in> set (lines_of s). CHR 0x0A \<notin> set l)"
proof (induction s rule: lines_of.induct)
  case (1 s)
  show ?case
  proof (cases "s = []")
    case True
    then show ?thesis by (simp add: lines_of.simps [of "[]"])
  next
    case ne: False
    let ?P = "\<lambda>c. c \<noteq> CHR 0x0A"
    have l: "lines_of s = takeWhile ?P s # lines_of (tl (dropWhile ?P s))"
      using ne by (subst lines_of.simps) simp
    have nl: "CHR 0x0A \<notin> set (takeWhile ?P s)" by (auto dest: set_takeWhileD)
    show ?thesis
    proof (cases "dropWhile ?P s")
      case Nil
      then have tw: "takeWhile ?P s = s" by (metis append.right_neutral takeWhile_dropWhile_id)
      moreover from this nl have "last s \<noteq> CHR 0x0A" using ne by (metis last_in_set)
      moreover have "lines_of s = [s]"
        by (simp only: l Nil list.sel lines_of_Nil tw)
      ultimately show ?thesis using ne nl [unfolded tw] by simp
    next
      case (Cons c r)
      then have "c = CHR 0x0A" using hd_dropWhile [of ?P s] by simp
      then have s: "s = takeWhile ?P s @ CHR 0x0A # r" using Cons by (metis takeWhile_dropWhile_id)
      then have "last s = (if r = [] then CHR 0x0A else last r)" by (metis last_ConsL last_ConsR last_appendR list.distinct(1))
      with 1 [OF ne] Cons ne nl l s show ?thesis
        by (simp split: if_splits)
    qed
  qed
qed

lemma number_lines_enumerate:
  "number_lines path n ls = map (\<lambda>(i, l). \<lparr>fileName = path, lineNumber = i, message = l\<rparr>) (enumerate n ls)"
  by (induction ls arbitrary: n) simp_all

section \<open>Properties\<close>

text \<open>Reading a file adds one entry for each of its lines, numbered from 1 (the lines contain no newline and
  give the text back), and a search returns, in order, exactly the entries whose message contains the
  keyword; a file that cannot be opened adds nothing, a directory that cannot be read throws.\<close>

theorem log_search_spec:
  "searchLogs keyword (parseLog path (Some s) es) =
     filter (\<lambda>e. sublist keyword (message e)) es @
     map (\<lambda>(i, l). \<lparr>fileName = path, lineNumber = i, message = l\<rparr>)
       (filter (\<lambda>(i, l). sublist keyword l) (enumerate 1 (lines_of s))) \<and>
   concat (map (\<lambda>l. l @ [CHR 0x0A]) (lines_of s)) = (if s = [] \<or> last s = CHR 0x0A then s else s @ [CHR 0x0A]) \<and>
   CHR 0x0A \<notin> \<Union> (set ` set (lines_of s)) \<and>
   parseLog path None es = es \<and>
   scanLogsFolder None es = Inl (Throw ''filesystem error'')"
  using lines_of_lines [of s]
  by (auto simp: searchLogs_filter parseLog_def number_lines_enumerate scanLogsFolder_def filter_map comp_def
      case_prod_unfold)

text \<open>The analysis reports nothing exactly if no message contains the mark of an error. Otherwise every
  type is counted exactly, the type of a message being the text between its first brackets if the
  closing one comes after the opening one; and the most common message is one that occurs most often, the
  least of them in the order of strings.\<close>

theorem log_analysis_spec:
  assumes "msgs = filter (sublist ''[ERROR]'') (map message es)"
  shows "(case analyzeLogs es of
      None \<Rightarrow> msgs = []
    | Some (types, best) \<Rightarrow>
        (\<forall>t. map_of types t =
          (if t \<in> set (map getErrorType msgs) then Some (int (count_list (map getErrorType msgs) t)) else None)) \<and>
        best \<in> set msgs \<and> (\<forall>k \<in> set msgs. count_list msgs k < count_list msgs best \<or>
          count_list msgs k = count_list msgs best \<and> best \<le> k)) \<and>
    (CHR ''['' \<notin> set u \<and> CHR '']'' \<notin> set u \<union> set t \<longrightarrow> getErrorType (u @ ''['' @ t @ '']'' @ v) = t) \<and>
    (CHR ''['' \<notin> set u \<longrightarrow> getErrorType (u @ '']'' @ v) = ''Unknown'')"
proof (intro conjI impI)
  have fm: "fold (\<lambda>m c. bump (getErrorType m) c) msgs [] = fold bump (map getErrorType msgs) []"
    by (simp add: fold_map comp_def)
  show "case analyzeLogs es of None \<Rightarrow> msgs = [] | Some (types, best) \<Rightarrow>
        (\<forall>t. map_of types t =
          (if t \<in> set (map getErrorType msgs) then Some (int (count_list (map getErrorType msgs) t)) else None)) \<and>
        best \<in> set msgs \<and> (\<forall>k \<in> set msgs. count_list msgs k < count_list msgs best \<or>
          count_list msgs k = count_list msgs best \<and> best \<le> k)"
    using most_common [OF _ refl, of msgs] counts(3) [of "map getErrorType msgs"] assms
    unfolding analyzeLogs_def extract_filter Let_def assms [symmetric] fm by simp
next
  assume a: "CHR ''['' \<notin> set u \<and> CHR '']'' \<notin> set u \<union> set t"
  then have "str_find ''['' (u @ ''['' @ t @ '']'' @ v) = Some (length u)"
    using str_find_char_append [of "CHR ''[''" u] by simp
  moreover have "str_find '']'' ((u @ ''['' @ t) @ CHR '']'' # v) = Some (length (u @ ''['' @ t))"
    using a by (intro str_find_char_append) auto
  ultimately show "getErrorType (u @ ''['' @ t @ '']'' @ v) = t" by (simp add: getErrorType_def)
next
  assume a: "CHR ''['' \<notin> set u"
  show "getErrorType (u @ '']'' @ v) = ''Unknown''"
  proof (cases "str_find ''['' (u @ '']'' @ v)")
    case (Some i)
    obtain j where j: "str_find '']'' (u @ '']'' @ v) = Some j" "j \<le> length u"
    proof (cases "CHR '']'' \<in> set u")
      case True
      then obtain u1 u2 where u: "u = u1 @ CHR '']'' # u2" "CHR '']'' \<notin> set u1" by (meson split_list_first)
      then show ?thesis using that [of "length u1"] str_find_char_append [of "CHR '']''" u1 "u2 @ '']'' @ v"] by simp
    next
      case False
      then show ?thesis using that [of "length u"] str_find_char_append [of "CHR '']''" u v] by simp
    qed
    let ?w = "u @ '']'' @ v"
    have e: "?w = take i ?w @ ''['' @ drop (i + length ''['') ?w" "i + length ''['' \<le> length ?w"
      using str_find_Some [OF Some] by blast+
    have "i < length ?w" using e(2) by simp
    from id_take_nth_drop [OF this] e(1) have "?w ! i = CHR ''[''"
      by (metis append_Cons append_Nil list.inject same_append_eq)
    then have "\<not> i < length u" using a by (metis nth_append nth_mem)
    with Some j show ?thesis by (simp add: getErrorType_def)
  next
    case None
    then show ?thesis unfolding getErrorType_def by (simp only: prod.case option.case)
  qed
qed

definition small_log :: "log_entry list" where
  "small_log = parseLog ''a.log'' (Some (''[ERROR] x'' @ [CHR 0x0A] @ ''ok'')) []"

lemma small_log_eq: "map message small_log = [''[ERROR] x'', ''ok'']"
  by (simp add: small_log_def parseLog_def lines_of.simps)

lemma log_analysis_spec_witness:
  "\<exists>types. analyzeLogs small_log = Some (types, ''[ERROR] x'') \<and> map_of types ''ERROR'' = Some 1"
proof -
  have s: "sublist ''[ERROR]'' ''[ERROR] x''" by (simp add: sublist_def) (metis append_Cons append_Nil)
  have n: "\<not> sublist ''[ERROR]'' ''ok''" by (auto dest: sublist_length_le)
  have m: "filter (sublist ''[ERROR]'') (map message small_log) = [''[ERROR] x'']"
    using s n by (simp add: small_log_eq)
  have t: "getErrorType ''[ERROR] x'' = ''ERROR''"
    using log_analysis_spec [OF refl, of small_log "[]" "''ERROR''" "'' x''"] by simp
  show ?thesis
  proof (cases "analyzeLogs small_log")
    case None
    with log_analysis_spec [OF m [symmetric], THEN conjunct1] show ?thesis by simp
  next
    case (Some r)
    obtain types best where r: "r = (types, best)" by (cases r)
    from log_analysis_spec [OF m [symmetric], THEN conjunct1] Some r t show ?thesis by auto
  qed
qed

end
