(* ===== verification/SysInfo.thy ===== *)
theory SysInfo
  imports Startup Downloader Logs
begin

text \<open>
  Facts about the running system (\<open>src/src/components/system/system.cpp\<close> and \<open>GetNetworkStatus\<close> of
  \<open>src/src/components/network/utils.cpp\<close>), in the versions for Linux. The contents of files under
  \<open>/proc\<close> and \<open>/sys\<close>, the output of commands, and the arithmetic of \<open>float\<close> are arguments.
\<close>

section \<open>Numbers in texts\<close>

text \<open>White space, a sign and digits, as \<open>strtol\<close> and the input streams read them; \<open>None\<close> without a digit.\<close>

definition parse_integer :: "string \<Rightarrow> int option" where
  "parse_integer s =
     (let s = dropWhile c_isspace s;
          t = (if s \<noteq> [] \<and> (hd s = CHR ''-'' \<or> hd s = CHR ''+'') then tl s else s);
          ds = takeWhile c_isdigit t
      in if ds = [] then None
         else Some ((if hd s = CHR ''-'' then -1 else 1) * digits_value ds))"

definition stoi :: "string \<Rightarrow> int result" where
  "stoi s = (case parse_integer s of
     None \<Rightarrow> Inl (Throw ''stoi'')
   | Some i \<Rightarrow> if - 2147483648 \<le> i \<and> i \<le> 2147483647 then Inr i else Inl (Throw ''stoi''))"

text \<open>A negative number is taken modulo the width; one that does not fit is refused.\<close>

definition read_ulong :: "string \<Rightarrow> 64 word option" where
  "read_ulong s = (case parse_integer s of
     None \<Rightarrow> None
   | Some i \<Rightarrow> if \<bar>i\<bar> \<le> 18446744073709551615 then Some (word_of_int i) else None)"

definition stoul :: "string \<Rightarrow> 64 word result" where
  "stoul s = (case read_ulong s of None \<Rightarrow> Inl (Throw ''stoul'') | Some w \<Rightarrow> Inr w)"

text \<open>\<open>stream >> i\<close> for an \<open>int\<close>: 0 where nothing is read, the nearest bound where it does not fit.\<close>

definition read_int :: "string \<Rightarrow> int" where
  "read_int s = (case parse_integer s of
     None \<Rightarrow> 0
   | Some i \<Rightarrow> max (- 2147483648) (min 2147483647 i))"

section \<open>Processor and memory\<close>

definition cpu_times :: "string \<Rightarrow> (64 word \<times> 64 word) result" where
  "cpu_times line =
     (let tokens = words line in
      rbind (rfold (\<lambda>t total. rbind (stoul t) (\<lambda>w. Inr (total + w))) (tl tokens) 0) (\<lambda>total_time.
        if length tokens \<le> 4 then Inl OutOfBounds
        else rbind (stoul (tokens ! 4)) (\<lambda>idle_time. Inr (total_time, idle_time))))"

text \<open>The first line of \<open>/proc/stat\<close>, empty where it cannot be read.\<close>

definition first_line :: "string option \<Rightarrow> string" where
  "first_line stat_file = (case stat_file of None \<Rightarrow> [] | Some s \<Rightarrow> takeWhile (\<lambda>c. c \<noteq> CHR 0x0A) s)"

definition GetCpuUsage :: "(64 word \<Rightarrow> 64 word \<Rightarrow> 'f) \<Rightarrow> string option \<Rightarrow> 'f result" where
  "GetCpuUsage percent stat_file =
     rbind (cpu_times (first_line stat_file)) (\<lambda>(total_time, idle_time).
       Inr (percent (total_time - idle_time) total_time))"

definition GetCpuTemperature :: "(int \<Rightarrow> 'f) \<Rightarrow> string option \<Rightarrow> 'f" where
  "GetCpuTemperature thousandth temp_file =
     (case temp_file of None \<Rightarrow> thousandth 0 | Some s \<Rightarrow> thousandth (read_int s))"

record memory_figures =
  total_memory :: "64 word"
  free_memory :: "64 word"
  buffer_memory :: "64 word"
  cache_memory :: "64 word"

definition memory_line :: "string \<Rightarrow> memory_figures \<Rightarrow> memory_figures" where
  "memory_line line m =
     (let (name, rest) = token line in
      if name = [] then m
      else (case read_ulong rest of
          None \<Rightarrow> m
        | Some value \<Rightarrow>
            if name = ''MemTotal:'' then m\<lparr>total_memory := value\<rparr>
            else if name = ''MemFree:'' then m\<lparr>free_memory := value\<rparr>
            else if name = ''Buffers:'' then m\<lparr>buffer_memory := value\<rparr>
            else if name = ''Cached:'' then m\<lparr>cache_memory := value\<rparr>
            else m))"

definition no_figures :: memory_figures where
  "no_figures = \<lparr>total_memory = 0, free_memory = 0, buffer_memory = 0, cache_memory = 0\<rparr>"

definition meminfo :: "string option \<Rightarrow> memory_figures" where
  "meminfo mem_file =
     fold memory_line (case mem_file of None \<Rightarrow> [] | Some s \<Rightarrow> lines_of s) no_figures"

definition GetMemoryUsage :: "(64 word \<Rightarrow> 64 word \<Rightarrow> 'f) \<Rightarrow> string option \<Rightarrow> 'f" where
  "GetMemoryUsage percent mem_file =
     (let m = meminfo mem_file;
          used_memory = total_memory m - free_memory m - buffer_memory m - cache_memory m
      in percent used_memory (total_memory m))"

section \<open>Disks\<close>

text \<open>What \<open>statfs\<close> answers for a path: the blocks, the free blocks and the size of a block.\<close>

definition disk_line ::
    "(string \<Rightarrow> (64 word \<times> 64 word \<times> 64 word) option) \<Rightarrow> (64 word \<Rightarrow> 64 word \<Rightarrow> 'f) \<Rightarrow> string
       \<Rightarrow> (string \<times> 'f) list \<Rightarrow> (string \<times> 'f) list" where
  "disk_line statfs percent line disk_usage =
     (let (device, rest) = token line; (path, rest) = token rest in
      case statfs path of
        None \<Rightarrow> disk_usage
      | Some (f_blocks, f_bfree, f_bsize) \<Rightarrow>
          (let total_space = f_blocks * f_bsize; free_space = f_bfree * f_bsize;
               used_space = total_space - free_space
           in disk_usage @ [(path, percent used_space total_space)]))"

definition GetDiskUsage ::
    "(string \<Rightarrow> (64 word \<times> 64 word \<times> 64 word) option) \<Rightarrow> (64 word \<Rightarrow> 64 word \<Rightarrow> 'f) \<Rightarrow> string option
       \<Rightarrow> (string \<times> 'f) list" where
  "GetDiskUsage statfs percent mounts =
     fold (disk_line statfs percent) (case mounts of None \<Rightarrow> [] | Some s \<Rightarrow> lines_of s) []"

section \<open>Processes and programs\<close>

text \<open>An entry of \<open>/proc\<close>: its name, whether it is a directory, where \<open>exe\<close> points, and \<open>stat\<close>.\<close>

record proc_entry =
  d_name :: string
  is_dir :: bool
  exe_link :: "string option"
  stat_text :: "string option"

text \<open>
  \<open>fscanf\<close> with \<open>%*d %s\<close> into 1024 bytes: the word behind a number. Without one the array stays
  uninitialised; a longer word runs over its end.
\<close>

definition after_integer :: "string \<Rightarrow> string option" where
  "after_integer s =
     (let s = dropWhile c_isspace s;
          t = (if s \<noteq> [] \<and> (hd s = CHR ''-'' \<or> hd s = CHR ''+'') then tl s else s)
      in if takeWhile c_isdigit t = [] then None else Some (dropWhile c_isdigit t))"

definition scan_name :: "string \<Rightarrow> string result" where
  "scan_name s = (case after_integer s of
     None \<Rightarrow> Inl Uninitialised
   | Some t \<Rightarrow> (let name = fst (token t) in
       if name = [] then Inl Uninitialised
       else if length name \<ge> 1024 then Inl OutOfBounds
       else Inr (c_str name)))"

definition process_entry ::
    "proc_entry \<Rightarrow> (string \<times> string) list \<Rightarrow> (string \<times> string) list result" where
  "process_entry e processInfo =
     (if is_dir e \<and> d_name e \<noteq> [] \<and> c_isdigit (hd (d_name e))
      then (case exe_link e of
          None \<Rightarrow> Inr processInfo
        | Some target \<Rightarrow> (case stat_text e of
            None \<Rightarrow> Inr processInfo
          | Some s \<Rightarrow> rbind (scan_name s) (\<lambda>processName.
              Inr (processInfo @ [(processName, take 4095 target)]))))
      else Inr processInfo)"

definition GetProcessInfo :: "proc_entry list option \<Rightarrow> (string \<times> string) list result" where
  "GetProcessInfo dir = (case dir of None \<Rightarrow> Inr [] | Some es \<Rightarrow> rfold process_entry es [])"

definition CheckSoftwareInstalled :: "(string \<Rightarrow> int) \<Rightarrow> string \<Rightarrow> bool" where
  "CheckSoftwareInstalled system software_name \<longleftrightarrow>
     system (''which '' @ software_name @ '' > /dev/null 2>&1'') = 0"

section \<open>Connections\<close>

text \<open>The pieces \<open>fgets\<close> gives with a buffer of 256: up to 255 characters, up to a newline.\<close>

definition fgets_256 :: "string \<Rightarrow> string" where
  "fgets_256 s = take 255 (take (Suc (length (takeWhile (\<lambda>c. c \<noteq> CHR 0x0A) s))) s)"

function fgets_all :: "string \<Rightarrow> string list" where
  "fgets_all s = (if s = [] then [] else fgets_256 s # fgets_all (drop (length (fgets_256 s)) s))"
  by auto
termination
  by (relation "measure length") (auto simp: fgets_256_def)

declare fgets_all.simps [simp del]

text \<open>The address is the whole word; what follows its last colon is the port, cut to 16 bits.\<close>

definition endpoint :: "string \<Rightarrow> (string \<times> 16 word) result" where
  "endpoint w =
     (let p = (case find_last_of '':'' w of None \<Rightarrow> w | Some i \<Rightarrow> drop (i + 1) w)
      in rbind (stoi p) (\<lambda>i. Inr (w, word_of_int i)))"

definition status_line :: "string \<Rightarrow> string list \<Rightarrow> string list result" where
  "status_line buffer net_connections =
     (let line = c_str buffer in
      if str_find ''tcp'' line = None then Inr net_connections
      else (let tokens = words line in
        rbind (if 4 \<le> length tokens then endpoint (tokens ! 3) else Inr ([], 0)) (\<lambda>(local_address, local_port).
        rbind (if 5 \<le> length tokens then endpoint (tokens ! 4) else Inr ([], 0)) (\<lambda>(remote_address, remote_port).
          Inr (net_connections @
            [''TCP '' @ local_address @ '':'' @ show_nat (unat local_port) @ '' -> '' @
             remote_address @ '':'' @ show_nat (unat remote_port)])))))"

definition GetNetworkStatus :: "string option \<Rightarrow> string list result" where
  "GetNetworkStatus netstat = (case netstat of
     None \<Rightarrow> Inr []
   | Some out \<Rightarrow> rfold status_line (fgets_all out) [])"

definition IsConnectedToInternet :: "bool \<Rightarrow> bool \<Rightarrow> bool" where
  "IsConnectedToInternet socket_ok connect_ok \<longleftrightarrow> socket_ok \<and> connect_ok"

section \<open>Lemmas on numbers\<close>

lemma show_nat_isdigit: "show_nat n \<noteq> [] \<and> (\<forall>c \<in> set (show_nat n). c_isdigit c)"
  using show_nat_digits [of n] by (simp add: c_isdigit_def)

lemma digits_value_read_nat: "\<forall>c \<in> set ds. c_isdigit c \<Longrightarrow> digits_value ds = int (read_nat ds)"
proof (induction ds rule: rev_induct)
  case (snoc c ds)
  then have "(48 :: nat) \<le> of_char c" by (simp add: c_isdigit_def)
  then have "int (of_char c - 48) = of_char c - 48" by (simp add: of_nat_diff of_nat_of_char)
  with snoc show ?case by (simp add: digits_value_def read_nat_def)
qed (simp add: digits_value_def read_nat_def)

lemma digits_value_show_nat: "digits_value (show_nat n) = int n"
  using digits_value_read_nat [of "show_nat n"] show_nat_isdigit [of n] by (simp add: read_show_nat)

lemma digit_not_space: "c_isdigit c \<Longrightarrow> \<not> c_isspace c \<and> c \<noteq> CHR ''-'' \<and> c \<noteq> CHR ''+'' \<and> \<not> is_space c"
  by (auto simp: c_isdigit_def c_isspace_def is_space_def)

lemma parse_integer_show_nat:
  assumes "t = [] \<or> \<not> c_isdigit (hd t)" "\<forall>c \<in> set w. c_isspace c"
  shows "parse_integer (w @ show_nat n @ t) = Some (int n)"
proof -
  obtain c cs where c: "show_nat n = c # cs" and d: "\<forall>x \<in> set (c # cs). c_isdigit x"
    using show_nat_isdigit [of n] by (cases "show_nat n") auto
  have sp: "dropWhile c_isspace (w @ show_nat n @ t) = show_nat n @ t"
    using assms(2) d digit_not_space [of c] by (simp add: c dropWhile_append2)
  have ds: "takeWhile c_isdigit (show_nat n @ t) = show_nat n"
    using assms(1) show_nat_isdigit [of n] by (cases t) (simp_all add: takeWhile_append)
  show ?thesis
    using d digit_not_space [of c] ds unfolding parse_integer_def sp Let_def
    by (simp add: c flip: digits_value_show_nat)
qed

lemma read_ulong_show_nat:
  assumes "n < 2 ^ 64" "t = [] \<or> \<not> c_isdigit (hd t)" "\<forall>c \<in> set w. c_isspace c"
  shows "read_ulong (w @ show_nat n @ t) = Some (of_nat n)"
proof -
  have "\<bar>int n\<bar> \<le> 18446744073709551615" using assms(1) by simp
  then show ?thesis by (simp add: read_ulong_def parse_integer_show_nat [OF assms(2,3)])
qed

lemma stoul_show_nat: "n < 2 ^ 64 \<Longrightarrow> stoul (show_nat n) = Inr (of_nat n)"
  using read_ulong_show_nat [of n "[]" "[]"] by (simp add: stoul_def)

lemma stoi_show_nat: "n \<le> 2147483647 \<Longrightarrow> stoi (show_nat n) = Inr (int n)"
  using parse_integer_show_nat [of "[]" "[]" n] by (simp add: stoi_def)

section \<open>Lemmas on the figures\<close>

lemma cpu_total:
  assumes "\<forall>n \<in> set ns. n < 2 ^ 64"
  shows "rfold (\<lambda>t total. rbind (stoul t) (\<lambda>w. Inr (total + w))) (map show_nat ns) s = Inr (s + of_nat (sum_list ns))"
  using assms by (induction ns arbitrary: s) (simp_all add: stoul_show_nat algebra_simps)

lemma cpu_times_exact:
  assumes "words line = cpu # map show_nat ns" "4 \<le> length ns" "sum_list ns < 2 ^ 64"
  shows "cpu_times line = Inr (of_nat (sum_list ns), of_nat (ns ! 3)) \<and>
    unat (of_nat (sum_list ns) - of_nat (ns ! 3) :: 64 word) = sum_list ns - ns ! 3 \<and> ns ! 3 \<le> sum_list ns"
proof -
  have le: "n \<le> sum_list ns" if "n \<in> set ns" for n using that by (auto intro!: member_le_sum_list)
  then have small: "\<forall>n \<in> set ns. n < 2 ^ 64" using assms(3) by fastforce
  have i: "ns ! 3 \<in> set ns" using assms(2) by simp
  then have l: "ns ! 3 \<le> sum_list ns" by (rule le)
  have "cpu_times line = Inr (of_nat (sum_list ns), of_nat (ns ! 3))"
    using assms(1,2) small i
    by (simp add: cpu_times_def cpu_total [OF small] stoul_show_nat nth_Cons')
  moreover have "(of_nat (sum_list ns) - of_nat (ns ! 3) :: 64 word) = of_nat (sum_list ns - ns ! 3)"
    using l by (simp add: of_nat_diff)
  then have "unat (of_nat (sum_list ns) - of_nat (ns ! 3) :: 64 word) = sum_list ns - ns ! 3"
    using assms(3) by (simp add: unsigned_of_nat take_bit_nat_eq_self)
  ultimately show ?thesis using l by blast
qed

lemma used_memory_exact:
  fixes t f b c :: "64 word"
  shows "unat (t - f - b - c) = (if unat f + unat b + unat c \<le> unat t then unat t - (unat f + unat b + unat c)
     else nat ((int (unat t) - int (unat f + unat b + unat c)) mod 2 ^ 64))"
proof -
  have "uint (t - f - b - c) = (uint t - (uint f + uint b + uint c)) mod 2 ^ 64"
    by (simp add: uint_word_ariths mod_simps algebra_simps)
  then have u: "int (unat (t - f - b - c)) = (int (unat t) - int (unat f + unat b + unat c)) mod 2 ^ 64"
    by (simp flip: uint_nat)
  show ?thesis
  proof (cases "unat f + unat b + unat c \<le> unat t")
    case True
    have "unat t < 18446744073709551616" using unsigned_less [of t, where 'a = nat] by simp
    with True have "int (unat t) - int (unat f + unat b + unat c) = int (unat t - (unat f + unat b + unat c))"
      "int (unat t - (unat f + unat b + unat c)) < 18446744073709551616" by linarith+
    with u have "int (unat (t - f - b - c)) = int (unat t - (unat f + unat b + unat c))" by simp
    with True show ?thesis by (simp only: of_nat_eq_iff) simp
  next
    case False
    have "unat (t - f - b - c) = nat ((int (unat t) - int (unat f + unat b + unat c)) mod 2 ^ 64)"
      unfolding u [symmetric] by (simp only: nat_int)
    with False show ?thesis by (simp only: if_False)
  qed
qed

definition mem_line :: "string \<times> nat \<Rightarrow> string" where
  "mem_line kv = fst kv @ '': '' @ show_nat (snd kv) @ '' kB''"

lemma token_word:
  assumes "k \<noteq> []" "\<forall>c \<in> set k. \<not> is_space c" "is_space c"
  shows "token (k @ c # t) = (k, c # t)"
proof -
  have "skip_ws (k @ c # t) = k @ c # t" using assms(1,2) by (cases k) simp_all
  with assms(2,3) show ?thesis by (simp add: token_def takeWhile_append2 dropWhile_append2)
qed

lemma memory_line_read:
  assumes "\<forall>c \<in> set k. \<not> is_space c" "n < 2 ^ 64"
  shows "memory_line (mem_line (k, n)) m =
    (if k = ''MemTotal'' then m\<lparr>total_memory := of_nat n\<rparr>
     else if k = ''MemFree'' then m\<lparr>free_memory := of_nat n\<rparr>
     else if k = ''Buffers'' then m\<lparr>buffer_memory := of_nat n\<rparr>
     else if k = ''Cached'' then m\<lparr>cache_memory := of_nat n\<rparr> else m)"
proof -
  have "mem_line (k, n) = (k @ '':'') @ CHR '' '' # (show_nat n @ '' kB'')" by (simp add: mem_line_def)
  moreover have "token ((k @ '':'') @ CHR '' '' # (show_nat n @ '' kB'')) = (k @ '':'', CHR '' '' # (show_nat n @ '' kB''))"
    using assms(1) by (intro token_word) (auto simp: is_space_def)
  moreover have "read_ulong (CHR '' '' # (show_nat n @ '' kB'')) = Some (of_nat n)"
    using read_ulong_show_nat [of n "'' kB''" "'' ''"] assms(2) by (simp add: c_isdigit_def c_isspace_def)
  moreover have "k @ '':'' = k' @ '':'' \<longleftrightarrow> k = k'" for k' :: string by simp
  from this [of "''MemTotal''"] this [of "''MemFree''"] this [of "''Buffers''"] this [of "''Cached''"]
  have "k @ '':'' = ''MemTotal:'' \<longleftrightarrow> k = ''MemTotal''" "k @ '':'' = ''MemFree:'' \<longleftrightarrow> k = ''MemFree''"
    "k @ '':'' = ''Buffers:'' \<longleftrightarrow> k = ''Buffers''" "k @ '':'' = ''Cached:'' \<longleftrightarrow> k = ''Cached''"
    by simp_all
  ultimately show ?thesis by (simp only: memory_line_def Let_def split_conv) simp
qed

text \<open>Of each figure the last line that gives it counts.\<close>

definition figure :: "(string \<times> nat) list \<Rightarrow> string \<Rightarrow> 64 word" where
  "figure kvs k = (case map_of (rev kvs) k of None \<Rightarrow> 0 | Some n \<Rightarrow> of_nat n)"

lemma figure_snoc: "figure (kvs @ [(k, n)]) k' = (if k' = k then of_nat n else figure kvs k')"
  by (simp add: figure_def)

lemma memory_lines:
  assumes "\<forall>(k, n) \<in> set kvs. (\<forall>c \<in> set k. \<not> is_space c) \<and> n < 2 ^ 64"
  shows "fold memory_line (map mem_line kvs) no_figures =
    \<lparr>total_memory = figure kvs ''MemTotal'', free_memory = figure kvs ''MemFree'',
      buffer_memory = figure kvs ''Buffers'', cache_memory = figure kvs ''Cached''\<rparr>"
  using assms
proof (induction kvs rule: rev_induct)
  case (snoc kv kvs)
  obtain k n where kv: "kv = (k, n)" by (cases kv)
  with snoc.prems have k: "\<forall>c \<in> set k. \<not> is_space c" "n < 2 ^ 64" by auto
  from snoc have ih: "fold memory_line (map mem_line kvs) no_figures =
    \<lparr>total_memory = figure kvs ''MemTotal'', free_memory = figure kvs ''MemFree'',
      buffer_memory = figure kvs ''Buffers'', cache_memory = figure kvs ''Cached''\<rparr>" by simp
  have "fold memory_line (map mem_line (kvs @ [kv])) no_figures =
      memory_line (mem_line (k, n)) (fold memory_line (map mem_line kvs) no_figures)" by (simp add: kv)
  also note ih
  also note memory_line_read [OF k]
  finally show ?case unfolding kv figure_snoc
    by (cases "k = ''MemTotal''"; cases "k = ''MemFree''"; cases "k = ''Buffers''"; cases "k = ''Cached''") simp_all
qed (simp add: no_figures_def figure_def)

lemma wrapped_difference:
  assumes "t < s" "s - t < 9223372036854775808"
  shows "9223372036854775808 < nat ((int t - int s) mod 18446744073709551616)"
proof -
  have "(int t - int s) mod 18446744073709551616 = (int t - int s + 18446744073709551616) mod 18446744073709551616"
    by (simp only: mod_add_self2)
  also have "\<dots> = int t - int s + 18446744073709551616"
    using assms by (intro mod_pos_pos_trivial) linarith+
  finally show ?thesis using assms by linarith
qed

lemma used_memory:
  fixes t f b c :: "64 word"
  shows "unat f + unat b + unat c \<le> unat t \<Longrightarrow> unat (t - f - b - c) = unat t - (unat f + unat b + unat c)"
    and "unat t < unat f + unat b + unat c \<and> unat f + unat b + unat c - unat t < 2 ^ 63 \<Longrightarrow>
      2 ^ 63 < unat (t - f - b - c)"
  using wrapped_difference [of "unat t" "unat f + unat b + unat c"]
  unfolding used_memory_exact [of t f b c] by auto

section \<open>Lemmas on connections and processes\<close>

definition buffer_line :: "string \<Rightarrow> bool" where
  "buffer_line l \<longleftrightarrow> (\<exists>b. l = b @ [CHR 0x0A] \<and> set b \<inter> {CHR 0x0A, CHR 0x00} = {} \<and> length b < 255)"

lemma fgets_256_line: "buffer_line l \<Longrightarrow> fgets_256 (l @ s) = l"
proof -
  assume "buffer_line l"
  then obtain b where b: "l = b @ [CHR 0x0A]" "CHR 0x0A \<notin> set b" "length b < 255" by (auto simp: buffer_line_def)
  then have "takeWhile (\<lambda>c. c \<noteq> CHR 0x0A) (b @ CHR 0x0A # s) = b"
    by (subst takeWhile_append2) auto
  with b show ?thesis by (simp add: fgets_256_def)
qed

lemma fgets_all_lines: "\<forall>l \<in> set ls. buffer_line l \<Longrightarrow> fgets_all (concat ls) = ls"
proof (induction ls)
  case (Cons l ls)
  then have "l \<noteq> []" by (auto simp: buffer_line_def)
  with Cons show ?case by (subst fgets_all.simps) (simp add: fgets_256_line)
qed (simp add: fgets_all.simps)

lemma c_str_line: "buffer_line l \<Longrightarrow> c_str l = l"
  by (auto simp: buffer_line_def c_str_def intro!: takeWhile_eq_all_conv [THEN iffD2])

lemma find_last_colon: "CHR '':'' \<notin> set p \<Longrightarrow> find_last_of '':'' (a @ CHR '':'' # p) = Some (length a)"
proof (induction a)
  case Nil
  then have "find_last_of '':'' p = None" by simp
  then show ?case by (simp only: find_last_of.simps append_Nil option.case list.set insert_iff simp_thms if_True list.size)
qed simp

lemma endpoint_suffix:
  assumes "CHR '':'' \<notin> set p"
  shows "endpoint (a @ CHR '':'' # p) = rbind (stoi p) (\<lambda>i. Inr (a @ CHR '':'' # p, word_of_int i))"
  using find_last_colon [OF assms, of a] by (simp add: endpoint_def)

lemma endpoint_star: "endpoint (a @ '':*'') = Inl (Throw ''stoi'')"
  using endpoint_suffix [of "''*''" a]
  by (simp add: stoi_def parse_integer_def c_isdigit_def c_isspace_def)

lemma endpoint_port:
  assumes "n \<le> 65535"
  shows "\<exists>w. endpoint (a @ CHR '':'' # show_nat n) = Inr (a @ CHR '':'' # show_nat n, w) \<and> unat w = n"
proof -
  have "CHR '':'' \<notin> set (show_nat n)"
    using show_nat_isdigit [of n] by (auto simp: c_isdigit_def)
  from endpoint_suffix [OF this, of a]
  have "endpoint (a @ CHR '':'' # show_nat n) = Inr (a @ CHR '':'' # show_nat n, of_nat n)"
    using stoi_show_nat [of n] assms by simp
  moreover have "unat (of_nat n :: 16 word) = n"
    using assms by (simp add: unsigned_of_nat take_bit_nat_eq_self)
  ultimately show ?thesis by blast
qed

lemma endpoint_error: "endpoint w = Inl e \<Longrightarrow> e = Throw ''stoi''"
  by (auto simp: endpoint_def Let_def rbind_Inl_iff stoi_def split: option.splits if_splits)

lemma status_line_error: "status_line l cs = Inl e \<Longrightarrow> e = Throw ''stoi''"
  by (auto simp: status_line_def Let_def rbind_Inl_iff split: if_splits dest: endpoint_error)

lemma status_line_star:
  assumes "buffer_line l" "str_find ''tcp'' l \<noteq> None" "5 \<le> length (words l)" "words l ! 4 = a @ '':*''"
  shows "\<exists>e. status_line l cs = Inl e"
proof (cases "endpoint (words l ! 3)")
  case (Inl e)
  with assms show ?thesis by (simp add: status_line_def c_str_line)
next
  case (Inr p)
  with assms show ?thesis by (cases p) (simp add: status_line_def c_str_line endpoint_star)
qed

lemma rfold_fails:
  assumes "x \<in> set xs" "\<And>s. \<exists>e. f x s = Inl e" "\<And>y s e. f y s = Inl e \<Longrightarrow> e = E"
  shows "rfold f xs s = Inl E"
  using assms(1)
proof (induction xs arbitrary: s)
  case (Cons y xs)
  show ?case
  proof (cases "f y s")
    case (Inl e)
    with assms(3) show ?thesis by simp
  next
    case (Inr s')
    with assms(2) [of s] Cons.prems have "x \<in> set xs" by auto
    with Inr Cons.IH show ?thesis by simp
  qed
qed simp

definition tcp_line :: "string \<Rightarrow> bool" where
  "tcp_line l \<longleftrightarrow> str_find ''tcp'' l \<noteq> None"

definition two_ports :: "string \<Rightarrow> string \<Rightarrow> bool" where
  "two_ports l c \<longleftrightarrow> (\<exists>a m b n. 5 \<le> length (words l) \<and> m \<le> 65535 \<and> n \<le> 65535 \<and>
     words l ! 3 = a @ CHR '':'' # show_nat m \<and> words l ! 4 = b @ CHR '':'' # show_nat n \<and>
     c = ''TCP '' @ a @ '':'' @ show_nat m @ '':'' @ show_nat m @ '' -> '' @ b @ '':'' @ show_nat n @ '':'' @ show_nat n)"

lemma status_line_ports:
  assumes "buffer_line l" "tcp_line l" "two_ports l c"
  shows "status_line l cs = Inr (cs @ [c])"
proof -
  obtain a m b n where w: "5 \<le> length (words l)" "m \<le> 65535" "n \<le> 65535"
     "words l ! 3 = a @ CHR '':'' # show_nat m" "words l ! 4 = b @ CHR '':'' # show_nat n"
     "c = ''TCP '' @ a @ '':'' @ show_nat m @ '':'' @ show_nat m @ '' -> '' @ b @ '':'' @ show_nat n @ '':'' @ show_nat n"
    using assms(3) unfolding two_ports_def by blast
  obtain u where u: "endpoint (words l ! 3) = Inr (a @ CHR '':'' # show_nat m, u)" "unat u = m"
    unfolding w(4) using endpoint_port [OF w(2), of a] by blast
  obtain v where v: "endpoint (words l ! 4) = Inr (b @ CHR '':'' # show_nat n, v)" "unat v = n"
    unfolding w(5) using endpoint_port [OF w(3), of b] by blast
  have f: "4 \<le> length (words l)" using w(1) by simp
  have t: "(str_find ''tcp'' l = None) = False" using assms(2) by (simp add: tcp_line_def)
  show ?thesis
    unfolding status_line_def c_str_line [OF assms(1)] Let_def t if_False eqTrueI [OF f] eqTrueI [OF w(1)] if_True
      u(1) v(1) rbind.simps split_conv u(2) v(2) w(6)
    by (simp only: append_assoc append_Cons append_Nil)
qed

lemma status_lines_ports:
  assumes "\<forall>l \<in> set ls. buffer_line l" "\<forall>l \<in> set ls. tcp_line l \<longrightarrow> (\<exists>c. two_ports l c)"
  shows "\<exists>cs'. rfold status_line ls cs = Inr (cs @ cs') \<and> list_all2 two_ports (filter tcp_line ls) cs'"
  using assms
proof (induction ls arbitrary: cs)
  case (Cons l ls)
  have b: "buffer_line l" and ih: "\<exists>cs'. rfold status_line ls cs = Inr (cs @ cs') \<and>
      list_all2 two_ports (filter tcp_line ls) cs'" for cs
    using Cons.prems by simp (rule Cons.IH, use Cons.prems in simp_all)
  show ?case
  proof (cases "tcp_line l")
    case True
    with Cons.prems(2) obtain c where c: "two_ports l c" by (meson list.set_intros(1))
    obtain cs' where "rfold status_line ls (cs @ [c]) = Inr ((cs @ [c]) @ cs')"
      "list_all2 two_ports (filter tcp_line ls) cs'" using ih by blast
    with True c show ?thesis
      by (intro exI [of _ "c # cs'"]) (simp add: status_line_ports [OF b True c])
  next
    case False
    then have "status_line l cs = Inr cs"
      by (simp add: status_line_def tcp_line_def c_str_line [OF b])
    with False ih show ?thesis by simp
  qed
qed simp

lemma scan_name_blank:
  assumes "\<forall>c \<in> set u. \<not> is_space c" "u \<noteq> []" "length u < 1024" "CHR 0x00 \<notin> set u"
  shows "scan_name (show_nat n @ CHR '' '' # u @ CHR '' '' # t) = Inr u"
proof -
  obtain c cs where c: "show_nat n = c # cs" and d: "\<forall>x \<in> set (c # cs). c_isdigit x"
    using show_nat_isdigit [of n] by (cases "show_nat n") auto
  have b: "\<not> c_isdigit (CHR '' '')" by (simp add: c_isdigit_def)
  let ?t = "CHR '' '' # u @ CHR '' '' # t"
  have "after_integer (show_nat n @ ?t) = Some ?t"
    using d digit_not_space [of c] b
    by (simp add: after_integer_def c dropWhile_append2)
  moreover have "token ?t = (u, CHR '' '' # t)"
  proof -
    have "skip_ws ?t = skip_ws (u @ CHR '' '' # t)" by (simp add: is_space_def)
    then have "token ?t = token (u @ CHR '' '' # t)" by (simp only: token_def)
    also have "\<dots> = (u, CHR '' '' # t)" using assms by (intro token_word) (simp_all add: is_space_def)
    finally show ?thesis .
  qed
  moreover have "c_str u = u" using assms(4) by (auto simp: c_str_def intro!: takeWhile_eq_all_conv [THEN iffD2])
  ultimately show ?thesis using assms(2,3) by (simp add: scan_name_def)
qed

lemma cut_line:
  assumes "CHR 0x0A \<notin> set l"
  shows "takeWhile (\<lambda>c. c \<noteq> CHR 0x0A) (l @ CHR 0x0A # t) = l"
    and "dropWhile (\<lambda>c. c \<noteq> CHR 0x0A) (l @ CHR 0x0A # t) = CHR 0x0A # t"
  using assms by (induction l) auto

lemma lines_of_concat:
  "\<forall>l \<in> set ls. CHR 0x0A \<notin> set l \<Longrightarrow> lines_of (concat (map (\<lambda>l. l @ [CHR 0x0A]) ls)) = ls"
proof (induction ls)
  case (Cons l ls)
  then show ?case by (subst lines_of.simps) (simp add: cut_line)
qed simp

definition proc_file :: "(string \<times> nat) list \<Rightarrow> string" where
  "proc_file kvs = concat (map (\<lambda>kv. mem_line kv @ [CHR 0x0A]) kvs)"

lemma meminfo_read:
  assumes "\<forall>(k, n) \<in> set kvs. (\<forall>c \<in> set k. \<not> is_space c) \<and> n < 2 ^ 64"
  shows "meminfo (Some (proc_file kvs)) =
    \<lparr>total_memory = figure kvs ''MemTotal'', free_memory = figure kvs ''MemFree'',
      buffer_memory = figure kvs ''Buffers'', cache_memory = figure kvs ''Cached''\<rparr>"
proof -
  have "CHR 0x0A \<notin> set (mem_line kv)" if "kv \<in> set kvs" for kv
  proof -
    obtain k n where kv: "kv = (k, n)" by (cases kv)
    with that assms have "CHR 0x0A \<notin> set k" by (auto simp: is_space_def)
    moreover have "CHR 0x0A \<notin> set (show_nat n)" using show_nat_isdigit [of n] by (auto simp: c_isdigit_def)
    ultimately show ?thesis by (simp add: kv mem_line_def)
  qed
  then have "lines_of (proc_file kvs) = map mem_line kvs"
    using lines_of_concat [of "map mem_line kvs"] by (simp add: proc_file_def comp_def)
  with memory_lines [OF assms] show ?thesis by (simp add: meminfo_def)
qed

section \<open>Properties\<close>

text \<open>C38. Listing connections fails with an exception as soon as one line of \<open>netstat\<close> shows a socket
  that listens, whose remote port is printed as a star; the server itself is such a socket. Where all
  ports are numbers every line about TCP gives one entry, with each port printed twice.\<close>

theorem network_status:
  assumes "\<forall>l \<in> set ls. buffer_line l"
  shows "((\<exists>l \<in> set ls. tcp_line l \<and> 5 \<le> length (words l) \<and> (\<exists>a. words l ! 4 = a @ '':*'')) \<longrightarrow>
      GetNetworkStatus (Some (concat ls)) = Inl (Throw ''stoi'')) \<and>
    ((\<forall>l \<in> set ls. tcp_line l \<longrightarrow> (\<exists>c. two_ports l c)) \<longrightarrow>
      (\<exists>cs. GetNetworkStatus (Some (concat ls)) = Inr cs \<and> list_all2 two_ports (filter tcp_line ls) cs))"
proof (intro conjI impI)
  assume "\<exists>l \<in> set ls. tcp_line l \<and> 5 \<le> length (words l) \<and> (\<exists>a. words l ! 4 = a @ '':*'')"
  then obtain l a where l: "l \<in> set ls" "tcp_line l" "5 \<le> length (words l)" "words l ! 4 = a @ '':*''" by blast
  have st: "\<exists>e. status_line l cs = Inl e" for cs
    using status_line_star [of l a cs] l assms by (simp only: tcp_line_def not_False_eq_True simp_thms)
  show "GetNetworkStatus (Some (concat ls)) = Inl (Throw ''stoi'')"
    unfolding GetNetworkStatus_def option.case fgets_all_lines [OF assms]
    by (rule rfold_fails [where f = status_line, OF l(1)]) (rule st, rule status_line_error)
next
  assume "\<forall>l \<in> set ls. tcp_line l \<longrightarrow> (\<exists>c. two_ports l c)"
  from status_lines_ports [OF assms this, of "[]"]
  show "\<exists>cs. GetNetworkStatus (Some (concat ls)) = Inr cs \<and> list_all2 two_ports (filter tcp_line ls) cs"
    unfolding GetNetworkStatus_def option.case fgets_all_lines [OF assms] by simp
qed

lemma network_status_witness:
  "GetNetworkStatus (Some (''tcp 0 0 0.0.0.0:8000 0.0.0.0:* LISTEN'' @ [CHR 0x0A])) = Inl (Throw ''stoi'')"
proof -
  let ?l = "''tcp 0 0 0.0.0.0:8000 0.0.0.0:* LISTEN'' @ [CHR 0x0A]"
  have b: "\<forall>l \<in> set [?l]. buffer_line l" by (simp add: buffer_line_def)
  have t: "tcp_line ?l" by (simp add: tcp_line_def starts_with_def)
  have w: "words ?l = [''tcp'', ''0'', ''0'', ''0.0.0.0:8000'', ''0.0.0.0:*'', ''LISTEN'']"
    by code_simp
  have "\<exists>l \<in> set [?l]. tcp_line l \<and> 5 \<le> length (words l) \<and> (\<exists>a. words l ! 4 = a @ '':*'')"
    using t by (intro bexI [of _ ?l] conjI exI [of _ "''0.0.0.0''"]) (simp_all only: w list.set insertI1, simp_all)
  from network_status [OF b, THEN conjunct1, THEN mp, OF this] show ?thesis by simp
qed

text \<open>The figures of processor and memory. For a line of \<open>/proc/stat\<close> with numbers the idle time is
  part of the total and the difference is exact, and a shorter line ends in an error, never in a
  figure. Of \<open>/proc/meminfo\<close> the last line of each name counts, and the used memory is exact as long as
  free, buffered and cached memory do not exceed the total; beyond that the difference wraps to more
  than half of the range.\<close>

theorem figures_of_proc:
  "(words (first_line f) = cpu # map show_nat ns \<and> 4 \<le> length ns \<and> sum_list ns < 2 ^ 64 \<longrightarrow>
      GetCpuUsage (\<lambda>u t. (unat u, unat t)) f = Inr (sum_list ns - ns ! 3, sum_list ns) \<and> ns ! 3 \<le> sum_list ns) \<and>
   (length (words (first_line f)) \<le> 4 \<longrightarrow> (\<exists>e. GetCpuUsage percent f = Inl e)) \<and>
   ((\<forall>(k, n) \<in> set kvs. (\<forall>c \<in> set k. \<not> is_space c) \<and> n < 2 ^ 64) \<longrightarrow>
      (let T = unat (figure kvs ''MemTotal'');
           S = unat (figure kvs ''MemFree'') + unat (figure kvs ''Buffers'') + unat (figure kvs ''Cached'');
           (used, total) = GetMemoryUsage (\<lambda>u t. (unat u, unat t)) (Some (proc_file kvs))
       in total = T \<and> (S \<le> T \<longrightarrow> used = T - S) \<and> (T < S \<and> S - T < 2 ^ 63 \<longrightarrow> 2 ^ 63 < used)))"
proof (intro conjI impI)
  assume a: "words (first_line f) = cpu # map show_nat ns \<and> 4 \<le> length ns \<and> sum_list ns < 2 ^ 64"
  then have c: "cpu_times (first_line f) = Inr (of_nat (sum_list ns), of_nat (ns ! 3)) \<and>
    unat (of_nat (sum_list ns) - of_nat (ns ! 3) :: 64 word) = sum_list ns - ns ! 3 \<and> ns ! 3 \<le> sum_list ns"
    by (intro cpu_times_exact) blast+
  have "unat (of_nat (sum_list ns) :: 64 word) = sum_list ns"
    using a by (simp add: unsigned_of_nat take_bit_nat_eq_self)
  with c show "GetCpuUsage (\<lambda>u t. (unat u, unat t)) f = Inr (sum_list ns - ns ! 3, sum_list ns)"
    by (simp add: GetCpuUsage_def)
  show "ns ! 3 \<le> sum_list ns" using c by blast
next
  assume "length (words (first_line f)) \<le> 4"
  then show "\<exists>e. GetCpuUsage percent f = Inl e"
    by (cases "rfold (\<lambda>t total. rbind (stoul t) (\<lambda>w. Inr (total + w))) (tl (words (first_line f))) 0")
      (simp_all add: GetCpuUsage_def cpu_times_def)
next
  assume k: "\<forall>(k, n) \<in> set kvs. (\<forall>c \<in> set k. \<not> is_space c) \<and> n < 2 ^ 64"
  show "let T = unat (figure kvs ''MemTotal'');
           S = unat (figure kvs ''MemFree'') + unat (figure kvs ''Buffers'') + unat (figure kvs ''Cached'');
           (used, total) = GetMemoryUsage (\<lambda>u t. (unat u, unat t)) (Some (proc_file kvs))
       in total = T \<and> (S \<le> T \<longrightarrow> used = T - S) \<and> (T < S \<and> S - T < 2 ^ 63 \<longrightarrow> 2 ^ 63 < used)"
    unfolding GetMemoryUsage_def meminfo_read [OF k] memory_figures.simps Let_def split_conv
    by (auto intro: used_memory(1) used_memory(2) [simplified])
qed

lemma figures_of_proc_witness:
  "GetMemoryUsage (\<lambda>u t. (unat u, unat t))
     (Some (proc_file [(''MemTotal'', 16000), (''MemFree'', 9000), (''Buffers'', 500), (''Cached'', 4000)])) = (2500, 16000)"
proof -
  let ?kvs = "[(''MemTotal'', 16000), (''MemFree'', 9000), (''Buffers'', 500), (''Cached'', 4000)] :: (string \<times> nat) list"
  have k: "\<forall>(k, n) \<in> set ?kvs. (\<forall>c \<in> set k. \<not> is_space c) \<and> n < 2 ^ 64" by (simp add: is_space_def)
  from figures_of_proc [THEN conjunct2, THEN conjunct2, THEN mp, OF k]
  show ?thesis by (simp add: figure_def split: prod.splits)
qed

end
