(* ===== verification/Base64.thy ===== *)
theory Base64
  imports Prelude
begin

text \<open>
  The Base64 codec of \<open>src/src/components/property/base64.cpp\<close>: \<open>base64Encode\<close> and
  \<open>base64Decode\<close> with their three- and four-byte work arrays, the reference codec that works
  on whole groups, and the proofs that the code implements it and that decoding inverts
  encoding.
\<close>

unbundle bit_operations_syntax

section \<open>The code\<close>

definition kBase64Chars :: string where
  "kBase64Chars =
     ''ABCDEFGHIJKLMNOPQRSTUVWXYZ'' @ ''abcdefghijklmnopqrstuvwxyz'' @ ''0123456789+/''"

definition b64_char :: "byte \<Rightarrow> char" where
  "b64_char w = kBase64Chars ! unat w"

text \<open>
  \<open>static_cast<unsigned char>(kBase64Chars.find(c))\<close>: the position, or 255 where \<open>find\<close>
  returns \<open>npos\<close>, whose low byte is 255.
\<close>

definition b64_known :: "char \<Rightarrow> bool" where
  "b64_known c \<longleftrightarrow> find_if (\<lambda>x. x = c) kBase64Chars < length kBase64Chars"

definition b64_index :: "char \<Rightarrow> byte" where
  "b64_index c = (if b64_known c then of_nat (find_if (\<lambda>x. x = c) kBase64Chars) else 255)"

text \<open>The bit shuffles on \<open>char_array_3\<close> and \<open>char_array_4\<close>.\<close>

definition pack4 :: "byte \<Rightarrow> byte \<Rightarrow> byte \<Rightarrow> byte list" where
  "pack4 a b c =
    [drop_bit 2 (a AND 0xfc),
     push_bit 4 (a AND 0x03) + drop_bit 4 (b AND 0xf0),
     push_bit 2 (b AND 0x0f) + drop_bit 6 (c AND 0xc0),
     c AND 0x3f]"

definition unpack3 :: "byte \<Rightarrow> byte \<Rightarrow> byte \<Rightarrow> byte \<Rightarrow> byte list" where
  "unpack3 p q r s =
    [push_bit 2 p + drop_bit 4 (q AND 0x30),
     push_bit 4 (q AND 0xf) + drop_bit 2 (r AND 0x3c),
     push_bit 6 (r AND 0x3) + s]"

text \<open>
  \<open>pend\<close> holds the first \<open>i\<close> entries of the work array and \<open>ret\<close> the output so far; the
  array is consumed when \<open>i\<close> reaches its size.
\<close>

fun encode_loop :: "byte list \<Rightarrow> string \<Rightarrow> byte list \<Rightarrow> byte list \<times> string" where
  "encode_loop pend ret [] = (pend, ret)"
| "encode_loop pend ret (x # bytes) =
     (let p = pend @ [x] in
      if length p = 3
      then encode_loop [] (ret @ map b64_char (pack4 (p ! 0) (p ! 1) (p ! 2))) bytes
      else encode_loop p ret bytes)"

definition encode_tail :: "byte list \<Rightarrow> string" where
  "encode_tail pend =
     (let i = length pend; p = pend @ replicate (3 - i) 0 in
      if i = 0 then []
      else map b64_char (take (i + 1) (pack4 (p ! 0) (p ! 1) (p ! 2))) @ replicate (3 - i) CHR ''='')"

definition base64Encode :: "byte list \<Rightarrow> string" where
  "base64Encode bytes = (case encode_loop [] [] bytes of (pend, ret) \<Rightarrow> ret @ encode_tail pend)"

fun decode_loop :: "char list \<Rightarrow> byte list \<Rightarrow> string \<Rightarrow> char list \<times> byte list" where
  "decode_loop pend ret [] = (pend, ret)"
| "decode_loop pend ret (c # s) =
     (if c = CHR ''='' \<or> \<not> b64_known c then (pend, ret)
      else
        let p = pend @ [c] in
        if length p = 4
        then decode_loop [] (ret @ unpack3 (b64_index (p ! 0)) (b64_index (p ! 1))
               (b64_index (p ! 2)) (b64_index (p ! 3))) s
        else decode_loop p ret s)"

text \<open>The tail pads the work array with NUL characters, which \<open>find\<close> does not know.\<close>

definition decode_tail :: "char list \<Rightarrow> byte list" where
  "decode_tail pend =
     (let i = length pend; p = pend @ replicate (4 - i) (CHR 0x00) in
      if i = 0 then []
      else take (i - 1) (unpack3 (b64_index (p ! 0)) (b64_index (p ! 1))
             (b64_index (p ! 2)) (b64_index (p ! 3))))"

definition base64Decode :: "string \<Rightarrow> byte list" where
  "base64Decode s = (case decode_loop [] [] s of (pend, ret) \<Rightarrow> ret @ decode_tail pend)"

section \<open>The reference codec\<close>

text \<open>RFC 4648 on whole groups: three bytes to four characters, padded at the end.\<close>

fun rfc_encode :: "byte list \<Rightarrow> string" where
  "rfc_encode [] = []"
| "rfc_encode [a] = map b64_char (take 2 (pack4 a 0 0)) @ ''==''"
| "rfc_encode [a, b] = map b64_char (take 3 (pack4 a b 0)) @ ''=''"
| "rfc_encode (a # b # c # rest) = map b64_char (pack4 a b c) @ rfc_encode rest"

lemma encode_loop_acc:
  "encode_loop pend ret bytes = (fst (encode_loop pend [] bytes), ret @ snd (encode_loop pend [] bytes))"
proof (induction bytes arbitrary: pend ret)
  case (Cons x bytes)
  show ?case
  proof (cases "length pend = 2")
    case True
    let ?g = "map b64_char (pack4 ((pend @ [x]) ! 0) ((pend @ [x]) ! 1) ((pend @ [x]) ! 2))"
    show ?thesis
      using Cons.IH [of "[]" "ret @ ?g"] Cons.IH [of "[]" ?g] True by (simp add: Let_def)
  next
    case False
    then show ?thesis using Cons.IH [of "pend @ [x]" ret] by (simp add: Let_def)
  qed
qed simp

lemma base64Encode_eq_rfc: "base64Encode bytes = rfc_encode bytes"
proof (induction bytes rule: rfc_encode.induct)
  case (4 a b c rest)
  obtain pend ret where r: "encode_loop [] [] rest = (pend, ret)" by (cases "encode_loop [] [] rest")
  then have "encode_loop [] (map b64_char (pack4 a b c)) rest = (pend, map b64_char (pack4 a b c) @ ret)"
    using encode_loop_acc [of "[]" "map b64_char (pack4 a b c)" rest] by simp
  with r 4 show ?case by (simp add: base64Encode_def)
qed (simp_all add: base64Encode_def encode_tail_def Let_def numeral_2_eq_2 numeral_3_eq_3)

section \<open>The alphabet\<close>

lemma length_kBase64Chars [simp]: "length kBase64Chars = 64"
  by (simp add: kBase64Chars_def)

lemma distinct_kBase64Chars: "distinct kBase64Chars"
  by code_simp

lemma eq_not_in_alphabet: "CHR ''='' \<notin> set kBase64Chars"
  by code_simp

lemma find_if_nth_distinct:
  "distinct xs \<Longrightarrow> n < length xs \<Longrightarrow> find_if (\<lambda>y. y = xs ! n) xs = n"
proof (induction xs arbitrary: n)
  case (Cons x xs)
  then show ?case by (cases n) auto
qed simp

lemma b64_char_known:
  assumes "unat w < 64"
  shows "b64_known (b64_char w)" and "b64_index (b64_char w) = w" and "b64_char w \<noteq> CHR ''=''"
proof -
  have f: "find_if (\<lambda>x. x = b64_char w) kBase64Chars = unat w"
    using find_if_nth_distinct [OF distinct_kBase64Chars] assms by (simp add: b64_char_def)
  with assms show "b64_known (b64_char w)" by (simp add: b64_known_def)
  then show "b64_index (b64_char w) = w" by (simp add: b64_index_def f)
  show "b64_char w \<noteq> CHR ''=''"
    using eq_not_in_alphabet assms nth_mem [of "unat w" kBase64Chars]
    unfolding b64_char_def by (metis length_kBase64Chars)
qed

lemma eq_unknown: "\<not> b64_known CHR ''=''"
  using eq_not_in_alphabet find_if_less_iff [of "\<lambda>x. x = CHR ''=''" kBase64Chars]
  by (auto simp: b64_known_def)

section \<open>Bits\<close>

lemma byte_eqI:
  "(\<And>n. n \<in> {0, 1, 2, 3, 4, 5, 6, 7} \<Longrightarrow> bit (a :: byte) n = bit b n) \<Longrightarrow> a = b"
  by (rule bit_word_eqI) (auto simp: less_Suc_eq numeral_eq_Suc)

lemma suc_nums: "Suc (Suc 0) = 2" "Suc (Suc (Suc 0)) = 3"
  by simp_all

lemma byte_disjoint_plus:
  assumes "\<And>n. n \<in> {0, 1, 2, 3, 4, 5, 6, 7} \<Longrightarrow> \<not> (bit (a :: byte) n \<and> bit b n)"
  shows "a + b = a OR b"
proof (rule disjunctive_add)
  fix n
  show "\<not> bit a n \<or> \<not> bit b n"
  proof (cases "n < 8")
    case True
    then show ?thesis using assms [of n] by (auto simp: less_Suc_eq numeral_eq_Suc)
  next
    case False
    then show ?thesis by (simp add: bit_word.rep_eq bit_take_bit_iff)
  qed
qed

lemma pack4_or:
  "pack4 a b c =
    [drop_bit 2 (a AND 0xfc),
     push_bit 4 (a AND 0x03) OR drop_bit 4 (b AND 0xf0),
     push_bit 2 (b AND 0x0f) OR drop_bit 6 (c AND 0xc0),
     c AND 0x3f]"
proof -
  have "push_bit 4 (a AND 0x03) + drop_bit 4 (b AND 0xf0)
      = push_bit 4 (a AND 0x03) OR drop_bit 4 (b AND 0xf0)"
    by (rule byte_disjoint_plus) (auto simp: bit_simps)
  moreover have "push_bit 2 (b AND 0x0f) + drop_bit 6 (c AND 0xc0)
      = push_bit 2 (b AND 0x0f) OR drop_bit 6 (c AND 0xc0)"
    by (rule byte_disjoint_plus) (auto simp: bit_simps)
  ultimately show ?thesis by (simp add: pack4_def)
qed

lemma lt_64_iff: "unat (w :: byte) < 64 \<longleftrightarrow> \<not> bit w 6 \<and> \<not> bit w 7"
proof
  assume "unat w < 64"
  then have "take_bit 6 (unat w) = unat w" by (simp add: take_bit_nat_eq_self_iff)
  then have "take_bit 6 w = w" by (metis unsigned_take_bit_eq unsigned_word_eqI)
  then have "\<And>n. bit w n \<Longrightarrow> n < 6" by (metis bit_take_bit_iff)
  then show "\<not> bit w 6 \<and> \<not> bit w 7" by force
next
  assume h: "\<not> bit w 6 \<and> \<not> bit w 7"
  have "take_bit 6 w = w" by (rule byte_eqI) (use h in \<open>auto simp: bit_simps\<close>)
  then have "unat w = unat (take_bit 6 w)" by simp
  also have "\<dots> = take_bit 6 (unat w)" by (simp only: unsigned_take_bit_eq)
  also have "\<dots> = unat w mod 64" by (simp add: take_bit_eq_mod)
  finally show "unat w < 64" by (metis mod_less_divisor zero_less_numeral)
qed

lemma pack4_lt_64: "\<forall>w \<in> set (pack4 a b c). unat w < 64"
  by (simp add: pack4_or lt_64_iff bit_simps)

lemma unpack3_pack4:
  assumes "pack4 a b c = [p, q, r, s]"
  shows "unpack3 p q r s = [a, b, c]"
proof -
  have pqrs: "p = drop_bit 2 (a AND 0xfc)" "q = push_bit 4 (a AND 0x03) OR drop_bit 4 (b AND 0xf0)"
    "r = push_bit 2 (b AND 0x0f) OR drop_bit 6 (c AND 0xc0)" "s = c AND 0x3f"
    using assms by (simp_all add: pack4_or)
  have "push_bit 2 p + drop_bit 4 (q AND 0x30) = push_bit 2 p OR drop_bit 4 (q AND 0x30)"
    unfolding pqrs by (rule byte_disjoint_plus) (auto simp: bit_simps)
  moreover have "push_bit 2 p OR drop_bit 4 (q AND 0x30) = a"
    unfolding pqrs by (rule byte_eqI) (auto simp: bit_simps suc_nums)
  moreover have "push_bit 4 (q AND 0xf) + drop_bit 2 (r AND 0x3c)
      = push_bit 4 (q AND 0xf) OR drop_bit 2 (r AND 0x3c)"
    unfolding pqrs by (rule byte_disjoint_plus) (auto simp: bit_simps)
  moreover have "push_bit 4 (q AND 0xf) OR drop_bit 2 (r AND 0x3c) = b"
    unfolding pqrs by (rule byte_eqI) (auto simp: bit_simps suc_nums)
  moreover have "push_bit 6 (r AND 0x3) + s = push_bit 6 (r AND 0x3) OR s"
    unfolding pqrs by (rule byte_disjoint_plus) (auto simp: bit_simps)
  moreover have "push_bit 6 (r AND 0x3) OR s = c"
    unfolding pqrs by (rule byte_eqI) (auto simp: bit_simps suc_nums)
  ultimately show ?thesis by (simp add: unpack3_def)
qed


section \<open>Decoding group by group\<close>

lemma decode_loop_acc:
  "decode_loop pend ret s = (fst (decode_loop pend [] s), ret @ snd (decode_loop pend [] s))"
proof (induction s arbitrary: pend ret)
  case (Cons c s)
  show ?case
  proof (cases "c = CHR ''='' \<or> \<not> b64_known c")
    case True
    then show ?thesis by auto
  next
    case False
    let ?p = "pend @ [c]"
    let ?g = "unpack3 (b64_index (?p ! 0)) (b64_index (?p ! 1)) (b64_index (?p ! 2)) (b64_index (?p ! 3))"
    show ?thesis
      using False Cons.IH [of "[]" "ret @ ?g"] Cons.IH [of "[]" ?g] Cons.IH [of ?p ret]
      by (simp add: Let_def)
  qed
qed simp

lemma decode_full_group:
  assumes "\<forall>w \<in> set [p, q, r, s]. unat w < 64"
  shows "base64Decode (map b64_char [p, q, r, s] @ t) = unpack3 p q r s @ base64Decode t"
proof -
  obtain pend ret where t: "decode_loop [] [] t = (pend, ret)" by (cases "decode_loop [] [] t")
  have "decode_loop [] [] (map b64_char [p, q, r, s] @ t) = decode_loop [] (unpack3 p q r s) t"
    using assms by (simp add: b64_char_known numeral_eq_Suc)
  also have "\<dots> = (pend, unpack3 p q r s @ ret)"
    using decode_loop_acc [of "[]" "unpack3 p q r s" t] t by simp
  finally show ?thesis using t by (simp add: base64Decode_def)
qed

lemma decode_two:
  assumes "unat p < 64" "unat q < 64"
  shows "base64Decode ([b64_char p, b64_char q] @ CHR ''='' # t)
       = [push_bit 2 p + drop_bit 4 (q AND 0x30)]"
  using assms by (simp add: base64Decode_def b64_char_known decode_tail_def unpack3_def)

lemma decode_three:
  assumes "unat p < 64" "unat q < 64" "unat r < 64"
  shows "base64Decode ([b64_char p, b64_char q, b64_char r] @ CHR ''='' # t)
       = [push_bit 2 p + drop_bit 4 (q AND 0x30), push_bit 4 (q AND 0xf) + drop_bit 2 (r AND 0x3c)]"
  using assms by (simp add: base64Decode_def b64_char_known decode_tail_def unpack3_def numeral_eq_Suc)

lemma decode_rfc_encode: "base64Decode (rfc_encode bytes) = bytes"
proof (induction bytes rule: rfc_encode.induct)
  case 1
  show ?case by (simp add: base64Decode_def decode_tail_def)
next
  case (2 a)
  obtain p q r s where g: "pack4 a 0 0 = [p, q, r, s]" by (simp add: pack4_def)
  then have "unat p < 64" "unat q < 64" using pack4_lt_64 [of a 0 0] by simp_all
  with g unpack3_pack4 [OF g] decode_two [of p q "''=''"] show ?case
    by (simp add: unpack3_def)
next
  case (3 a b)
  obtain p q r s where g: "pack4 a b 0 = [p, q, r, s]" by (simp add: pack4_def)
  then have "unat p < 64" "unat q < 64" "unat r < 64" using pack4_lt_64 [of a b 0] by simp_all
  with g unpack3_pack4 [OF g] decode_three [of p q r "[]"] show ?case
    by (simp add: unpack3_def)
next
  case (4 a b c rest)
  obtain p q r s where g: "pack4 a b c = [p, q, r, s]" by (simp add: pack4_def)
  then have "\<forall>w \<in> set [p, q, r, s]. unat w < 64" using pack4_lt_64 [of a b c] by simp
  from decode_full_group [OF this, of "rfc_encode rest"] 4 g unpack3_pack4 [OF g]
  show ?case by simp
qed

lemma decode_loop_append:
  "\<not> b64_known c \<or> c = CHR ''='' \<Longrightarrow> decode_loop pend ret (s @ c # t) = decode_loop pend ret s"
  by (induction s arbitrary: pend ret) (auto simp: Let_def)

section \<open>Properties\<close>


text \<open>The byte-by-byte loops of \<open>base64Encode\<close> implement the group-wise RFC 4648 encoder, and the
  output has four characters for each started group of three bytes.\<close>

theorem base64Encode_is_rfc4648:
  "base64Encode bytes = rfc_encode bytes
   \<and> length (base64Encode bytes) = 4 * ((length bytes + 2) div 3)"
proof -
  have "length (rfc_encode bytes) = 4 * ((length bytes + 2) div 3)"
  proof (induction bytes rule: rfc_encode.induct)
    case (4 a b c rest)
    have "(length (a # b # c # rest) + 2) div 3 = Suc ((length rest + 2) div 3)" by simp
    with 4 show ?case by (simp add: pack4_def)
  qed (simp_all add: pack4_def)
  then show ?thesis by (simp add: base64Encode_eq_rfc)
qed

text \<open>\<open>base64Decode\<close> never fails: it stops silently at the first padding or foreign
  character and returns what the prefix decodes to, whatever follows it.\<close>

theorem base64Decode_stops_at_foreign:
  assumes "\<not> b64_known c"
  shows "base64Decode (s @ c # t) = base64Decode s"
  using assms by (simp add: base64Decode_def decode_loop_append)

theorem base64Decode_stops_at_foreign_witness:
  "\<not> b64_known (CHR ''-'') \<and> base64Decode (''TWFu'' @ CHR ''-'' # ''TWFu'') = base64Decode ''TWFu''"
proof -
  have h: "\<not> b64_known (CHR ''-'')" by code_simp
  show ?thesis using h base64Decode_stops_at_foreign [OF h, of "''TWFu''" "''TWFu''"] by simp
qed

end
