(* ===== verification/Sha256.thy ===== *)
theory Sha256
  imports Prelude
begin

text \<open>
  The picosha2 implementation of SHA-256 in \<open>src/src/components/property/sha256.hpp\<close>. The code
  computes with 64-bit words (\<open>unsigned long\<close>) that it masks to 32 bits; the specification below
  is the standard's, on 32-bit words. The incremental hasher is proved to give the standard's
  digest however the message is cut into pieces.
\<close>

unbundle bit_operations_syntax

type_synonym word_t = "64 word"

section \<open>The code\<close>

definition mask_8bit :: "byte \<Rightarrow> byte" where
  "mask_8bit x = x AND 0xff"

definition mask_32bit :: "word_t \<Rightarrow> word_t" where
  "mask_32bit x = x AND 0xffffffff"

text \<open>The tables of the code, in decimal.\<close>

definition add_constant :: "word_t list" where
  "add_constant =
    [1116352408, 1899447441, 3049323471, 3921009573, 961987163, 1508970993, 2453635748,
     2870763221, 3624381080, 310598401, 607225278, 1426881987, 1925078388, 2162078206,
     2614888103, 3248222580, 3835390401, 4022224774, 264347078, 604807628, 770255983,
     1249150122, 1555081692, 1996064986, 2554220882, 2821834349, 2952996808, 3210313671,
     3336571891, 3584528711, 113926993, 338241895, 666307205, 773529912, 1294757372,
     1396182291, 1695183700, 1986661051, 2177026350, 2456956037, 2730485921, 2820302411,
     3259730800, 3345764771, 3516065817, 3600352804, 4094571909, 275423344, 430227734,
     506948616, 659060556, 883997877, 958139571, 1322822218, 1537002063, 1747873779,
     1955562222, 2024104815, 2227730452, 2361852424, 2428436474, 2756734187, 3204031479,
     3329325298]"

definition initial_message_digest :: "word_t list" where
  "initial_message_digest = [1779033703, 3144134277, 1013904242, 2773480762, 1359893119, 2600822924, 528734635,
     1541459225]"

definition ch :: "word_t \<Rightarrow> word_t \<Rightarrow> word_t \<Rightarrow> word_t" where
  "ch x y z = (x AND y) XOR ((NOT x) AND z)"

definition maj :: "word_t \<Rightarrow> word_t \<Rightarrow> word_t \<Rightarrow> word_t" where
  "maj x y z = (x AND y) XOR (x AND z) XOR (y AND z)"

definition rotr :: "word_t \<Rightarrow> nat \<Rightarrow> word_t" where
  "rotr x n = mask_32bit (drop_bit n x OR push_bit (32 - n) x)"

definition bsig0 :: "word_t \<Rightarrow> word_t" where
  "bsig0 x = rotr x 2 XOR rotr x 13 XOR rotr x 22"

definition bsig1 :: "word_t \<Rightarrow> word_t" where
  "bsig1 x = rotr x 6 XOR rotr x 11 XOR rotr x 25"

definition shr :: "word_t \<Rightarrow> nat \<Rightarrow> word_t" where
  "shr x n = drop_bit n x"

definition ssig0 :: "word_t \<Rightarrow> word_t" where
  "ssig0 x = rotr x 7 XOR rotr x 18 XOR shr x 3"

definition ssig1 :: "word_t \<Rightarrow> word_t" where
  "ssig1 x = rotr x 17 XOR rotr x 19 XOR shr x 10"

text \<open>The first sixteen entries of \<open>w\<close>, then the loop from 16 to 63, which appends entry \<open>i\<close>.\<close>

definition load_word :: "byte list \<Rightarrow> nat \<Rightarrow> word_t" where
  "load_word first i =
     push_bit 24 (ucast (mask_8bit (first ! (i * 4)))) OR
     push_bit 16 (ucast (mask_8bit (first ! (i * 4 + 1)))) OR
     push_bit 8 (ucast (mask_8bit (first ! (i * 4 + 2)))) OR
     ucast (mask_8bit (first ! (i * 4 + 3)))"

definition extend_w :: "word_t list \<Rightarrow> nat \<Rightarrow> word_t list" where
  "extend_w w i =
     w @ [mask_32bit (ssig1 (w ! (i - 2)) + w ! (i - 7) + ssig0 (w ! (i - 15)) + w ! (i - 16))]"

definition message_schedule :: "byte list \<Rightarrow> word_t list" where
  "message_schedule first = foldl extend_w (map (load_word first) [0..<16]) [16..<64]"

definition block_round :: "word_t list \<Rightarrow> word_t list \<Rightarrow> nat \<Rightarrow> word_t list" where
  "block_round w v i =
     (case v of [a, b, c, d, e, f, g, h] \<Rightarrow>
        (let temp1 = h + bsig1 e + ch e f g + add_constant ! i + w ! i;
             temp2 = bsig0 a + maj a b c
         in [mask_32bit (temp1 + temp2), a, b, c, mask_32bit (d + temp1), e, f, g])
      | _ \<Rightarrow> v)"

definition hash256_block :: "word_t list \<Rightarrow> byte list \<Rightarrow> word_t list" where
  "hash256_block message_digest first =
     (let v = foldl (block_round (message_schedule first)) message_digest [0..<64]
      in map2 (\<lambda>m x. mask_32bit (m + x)) message_digest v)"

record hash256_one_by_one =
  buffer :: "byte list"
  data_length_digits :: "word_t list"
  hash_h :: "word_t list"

definition init_hasher :: hash256_one_by_one where
  "init_hasher = \<lparr>buffer = [], data_length_digits = [0, 0, 0, 0], hash_h = initial_message_digest\<rparr>"

fun add_carry :: "word_t \<Rightarrow> word_t list \<Rightarrow> word_t list" where
  "add_carry carry [] = []"
| "add_carry carry (d # ds) =
     (let d = d + carry in
      if d \<ge> 65536 then (d AND 65535) # add_carry (drop_bit 16 d) ds else d # ds)"

definition add_to_data_length :: "word_t \<Rightarrow> word_t list \<Rightarrow> word_t list" where
  "add_to_data_length n ds = (case ds of [] \<Rightarrow> [] | d # ds \<Rightarrow> add_carry 0 ((d + n) # ds))"

fun shift3 :: "word_t \<Rightarrow> word_t list \<Rightarrow> word_t list" where
  "shift3 carry [] = []"
| "shift3 carry (d # ds) =
     ((push_bit 3 d OR carry) AND 65535) # shift3 (drop_bit (16 - 3) d AND 65535) ds"

definition write_data_bit_length :: "word_t list \<Rightarrow> byte list" where
  "write_data_bit_length ds =
     concat (map (\<lambda>d. [ucast (drop_bit 8 d), ucast d]) (rev (shift3 0 ds)))"

text \<open>The block loop of \<open>process\<close>: the hash words and the bytes left over.\<close>

function eat_blocks :: "word_t list \<Rightarrow> byte list \<Rightarrow> word_t list \<times> byte list" where
  "eat_blocks h bs =
     (if 64 \<le> length bs then eat_blocks (hash256_block h (take 64 bs)) (drop 64 bs) else (h, bs))"
  by auto
termination by (relation "measure (\<lambda>(h, bs). length bs)") auto

declare eat_blocks.simps [simp del]

definition process :: "byte list \<Rightarrow> hash256_one_by_one \<Rightarrow> hash256_one_by_one" where
  "process data s =
     (let (h, rest) = eat_blocks (hash_h s) (buffer s @ data) in
      \<lparr>buffer = rest,
       data_length_digits = add_to_data_length (of_nat (length data)) (data_length_digits s),
       hash_h = h\<rparr>)"

definition finish :: "hash256_one_by_one \<Rightarrow> hash256_one_by_one" where
  "finish s =
     (let remains = length (buffer s);
          temp = (buffer s @ replicate (64 - remains) 0)[remains := 0x80];
          len = write_data_bit_length (data_length_digits s)
      in if remains > 55 then
           s\<lparr>hash_h := hash256_block (hash256_block (hash_h s) temp) (replicate 56 0 @ len)\<rparr>
         else s\<lparr>hash_h := hash256_block (hash_h s) (take 56 temp @ len)\<rparr>)"

text \<open>\<open>n\<close> is the distance from \<open>first\<close> to \<open>last\<close> of the output range.\<close>

definition get_hash_bytes :: "nat \<Rightarrow> hash256_one_by_one \<Rightarrow> byte list" where
  "get_hash_bytes n s =
     take n (concat (map (\<lambda>x. map (\<lambda>i. mask_8bit (ucast (drop_bit (24 - 8 * i) x))) [0..<4]) (hash_h s)))"

text \<open>
  \<open>hash256_impl\<close> for random access iterators, and for input iterators, which reads pieces of
  \<open>buffer_size\<close> bytes. With a buffer of no bytes the outer loop makes no progress.
\<close>

definition hash256_random_access :: "byte list \<Rightarrow> byte list" where
  "hash256_random_access data = get_hash_bytes 32 (finish (process data init_hasher))"

partial_function (option) process_pieces ::
  "nat \<Rightarrow> byte list \<Rightarrow> hash256_one_by_one \<Rightarrow> hash256_one_by_one option" where
  "process_pieces buffer_size data s =
     (if data = [] then Some s
      else process_pieces buffer_size (drop buffer_size data) (process (take buffer_size data) s))"

definition hash256_input :: "nat \<Rightarrow> byte list \<Rightarrow> byte list option" where
  "hash256_input buffer_size data =
     map_option (\<lambda>s. get_hash_bytes 32 (finish s)) (process_pieces buffer_size data init_hasher)"

definition output_hex :: "byte list \<Rightarrow> string" where
  "output_hex bs = concat (map (\<lambda>b. [hex_char (unat b div 16), hex_char (unat b mod 16)]) bs)"

definition hash256_hex_string :: "byte list \<Rightarrow> string" where
  "hash256_hex_string src = output_hex (hash256_random_access src)"

section \<open>The standard\<close>

type_synonym w32 = "32 word"

definition Ch :: "w32 \<Rightarrow> w32 \<Rightarrow> w32 \<Rightarrow> w32" where
  "Ch x y z = (x AND y) XOR ((NOT x) AND z)"

definition Maj :: "w32 \<Rightarrow> w32 \<Rightarrow> w32 \<Rightarrow> w32" where
  "Maj x y z = (x AND y) XOR (x AND z) XOR (y AND z)"

definition Sigma0 :: "w32 \<Rightarrow> w32" where
  "Sigma0 x = word_rotr 2 x XOR word_rotr 13 x XOR word_rotr 22 x"

definition Sigma1 :: "w32 \<Rightarrow> w32" where
  "Sigma1 x = word_rotr 6 x XOR word_rotr 11 x XOR word_rotr 25 x"

definition sigma0 :: "w32 \<Rightarrow> w32" where
  "sigma0 x = word_rotr 7 x XOR word_rotr 18 x XOR drop_bit 3 x"

definition sigma1 :: "w32 \<Rightarrow> w32" where
  "sigma1 x = word_rotr 17 x XOR word_rotr 19 x XOR drop_bit 10 x"

definition word_of_bytes :: "byte list \<Rightarrow> w32" where
  "word_of_bytes bs = foldl (\<lambda>n b. n * 256 + ucast b) 0 bs"

fun schedule :: "byte list \<Rightarrow> nat \<Rightarrow> w32" where
  "schedule block t =
     (if t < 16 then word_of_bytes (take 4 (drop (4 * t) block))
      else sigma1 (schedule block (t - 2)) + schedule block (t - 7) +
           sigma0 (schedule block (t - 15)) + schedule block (t - 16))"

declare schedule.simps [simp del]

text \<open>Working variables \<open>a\<close> to \<open>h\<close> as a list.\<close>

definition K256 :: "nat \<Rightarrow> w32" where
  "K256 t = ucast (add_constant ! t)"

definition compress :: "byte list \<Rightarrow> w32 list \<Rightarrow> nat \<Rightarrow> w32 list" where
  "compress block v t =
     (case v of [a, b, c, d, e, f, g, h] \<Rightarrow>
        (let t1 = h + Sigma1 e + Ch e f g + K256 t + schedule block t;
             t2 = Sigma0 a + Maj a b c
         in [t1 + t2, a, b, c, d + t1, e, f, g])
      | _ \<Rightarrow> v)"

definition sha_block :: "w32 list \<Rightarrow> byte list \<Rightarrow> w32 list" where
  "sha_block H block = map2 (+) H (foldl (compress block) H [0..<64])"

definition be64 :: "nat \<Rightarrow> byte list" where
  "be64 n = map (\<lambda>i. of_nat (n div 256 ^ (7 - i))) [0..<8]"

definition pad :: "byte list \<Rightarrow> byte list" where
  "pad m = m @ [0x80] @ replicate ((119 - length m mod 64) mod 64) 0 @ be64 (8 * length m)"

function sha_blocks :: "w32 list \<Rightarrow> byte list \<Rightarrow> w32 list" where
  "sha_blocks H bs = (if 64 \<le> length bs then sha_blocks (sha_block H (take 64 bs)) (drop 64 bs) else H)"
  by auto
termination by (relation "measure (\<lambda>(h, bs). length bs)") auto

declare sha_blocks.simps [simp del]

definition H0 :: "w32 list" where
  "H0 = map ucast initial_message_digest"

definition bytes_of_word :: "w32 \<Rightarrow> byte list" where
  "bytes_of_word w = [ucast (drop_bit 24 w), ucast (drop_bit 16 w), ucast (drop_bit 8 w), ucast w]"

definition sha256 :: "byte list \<Rightarrow> byte list" where
  "sha256 m = concat (map bytes_of_word (sha_blocks H0 (pad m)))"

section \<open>32-bit words inside 64-bit words\<close>

abbreviation up :: "w32 \<Rightarrow> word_t" where "up \<equiv> ucast"
abbreviation down :: "word_t \<Rightarrow> w32" where "down \<equiv> ucast"

lemma mask_32bit_take: "mask_32bit x = take_bit 32 x"
proof -
  have "(0xffffffff :: word_t) = mask 32" by (simp add: mask_eq_exp_minus_1)
  then show ?thesis by (simp add: mask_32bit_def take_bit_eq_mask)
qed

lemma mask_32bit_up: "mask_32bit x = up (down x)"
  unfolding mask_32bit_take by (rule bit_word_eqI) (auto simp: bit_simps)

lemma down_up [simp]: "down (up x) = x"
  by (rule bit_word_eqI) (auto simp: bit_simps)

lemma up_inj [simp]: "up x = up y \<longleftrightarrow> x = y"
  by (metis down_up)

lemma down_add [simp]: "down (x + y) = down x + down y"
proof transfer
  fix x y :: int
  show "take_bit LENGTH(32) (take_bit LENGTH(64) (x + y)) =
      take_bit LENGTH(32) (take_bit LENGTH(64) x + take_bit LENGTH(64) y)"
    using take_bit_add [of 32 "take_bit 64 x" "take_bit 64 y"] take_bit_add [of 32 x y] by simp
qed

lemma down_ops [simp]:
  "down (x AND y) = down x AND down y" "down (x XOR y) = down x XOR down y"
  "down (x OR y) = down x OR down y"
  by (rule bit_word_eqI; auto simp: bit_simps)+

lemma rotr_up:
  assumes "0 < n" "n < 32"
  shows "rotr (up x) n = up (word_rotr n x)"
proof (rule bit_word_eqI)
  fix i
  assume "i < LENGTH(64)"
  have ge: "bit x k \<Longrightarrow> k < 32" for k using bit_imp_le_length [of x k] by simp
  consider "i + n < 32" | "i < 32" "32 \<le> i + n" | "32 \<le> i" using assms by linarith
  then show "bit (rotr (up x) n) i \<longleftrightarrow> bit (up (word_rotr n x)) i"
  proof cases
    case 1
    with assms show ?thesis
      by (auto simp: rotr_def mask_32bit_take bit_simps bit_word_rotr_iff ac_simps)
  next
    case 2
    then have "(i + n) mod 32 = i - (32 - n)" using assms by (simp add: mod_if)
    with 2 assms show ?thesis
      by (auto simp: rotr_def mask_32bit_take bit_simps bit_word_rotr_iff ac_simps dest: ge)
  next
    case 3
    with assms show ?thesis
      by (auto simp: rotr_def mask_32bit_take bit_simps bit_word_rotr_iff)
  qed
qed

lemma xor_up: "up x XOR up y = up (x XOR y)"
  by (rule bit_word_eqI) (auto simp: bit_simps)

lemma ch_up: "down (ch (up x) (up y) (up z)) = Ch x y z"
  by (rule bit_word_eqI) (auto simp: ch_def Ch_def bit_simps)

lemma maj_up: "down (maj (up x) (up y) (up z)) = Maj x y z"
  by (rule bit_word_eqI) (auto simp: maj_def Maj_def bit_simps)

lemma shr_up: "shr (up x) n = up (drop_bit n x)"
  by (rule bit_word_eqI) (auto simp: shr_def bit_simps dest: bit_imp_le_length)

lemma sigma_up:
  "bsig0 (up x) = up (Sigma0 x)" "bsig1 (up x) = up (Sigma1 x)"
  "ssig0 (up x) = up (sigma0 x)" "ssig1 (up x) = up (sigma1 x)"
  by (simp_all add: bsig0_def Sigma0_def bsig1_def Sigma1_def ssig0_def sigma0_def ssig1_def
      sigma1_def rotr_up shr_up xor_up)

section \<open>The block function\<close>

lemma mask_8bit_id [simp]: "mask_8bit x = x"
proof -
  have "(0xff :: byte) = - 1" by simp
  then show ?thesis unfolding mask_8bit_def by (subst \<open>0xff = - 1\<close>) simp
qed

lemma horner8: "n * 256 + ucast (b :: byte) = push_bit 8 n OR (ucast b :: w32)"
proof -
  have "push_bit 8 n + (ucast b :: w32) = push_bit 8 n OR ucast b"
    by (rule disjunctive_add) (auto simp: bit_simps dest: bit_imp_le_length)
  then show ?thesis by (simp add: push_bit_eq_mult)
qed

lemma word_of_bytes_4:
  "word_of_bytes [b0, b1, b2, b3] =
     push_bit 24 (ucast b0) OR push_bit 16 (ucast b1) OR push_bit 8 (ucast b2) OR ucast b3"
  unfolding word_of_bytes_def foldl.simps horner8 by (simp add: push_bit_or ac_simps)

lemma load_word_up:
  assumes "i * 4 + 3 < length first"
  shows "load_word first i = up (word_of_bytes (take 4 (drop (4 * i) first)))"
proof -
  let ?b = "\<lambda>j. first ! (i * 4 + j)"
  have "take 4 (drop (4 * i) first) = [?b 0, ?b 1, ?b 2, ?b 3]"
    using assms by (intro nth_equalityI) (auto simp: less_Suc_eq numeral_eq_Suc ac_simps)
  moreover have "up (push_bit n (ucast b)) = push_bit n (ucast b)" if "n \<le> 24" for n and b :: byte
    using that by (intro bit_word_eqI) (auto simp: bit_simps dest: bit_imp_le_length)
  moreover have "up (ucast b) = ucast b" for b :: byte
    by (rule bit_word_eqI) (auto simp: bit_simps dest: bit_imp_le_length)
  moreover have "up (x OR y) = up x OR up y" for x y
    by (rule bit_word_eqI) (auto simp: bit_simps)
  ultimately show ?thesis by (simp add: load_word_def word_of_bytes_4)
qed

lemma message_schedule_up:
  assumes "length first = 64"
  shows "message_schedule first = map (\<lambda>t. up (schedule first t)) [0..<64]"
proof -
  have base: "map (load_word first) [0..<16] = map (\<lambda>t. up (schedule first t)) [0..<16]"
    using assms by (auto simp: schedule.simps load_word_up)
  have step: "extend_w (map (\<lambda>t. up (schedule first t)) [0..<n]) n = map (\<lambda>t. up (schedule first t)) [0..<Suc n]"
    if "16 \<le> n" for n
    using that by (simp add: extend_w_def mask_32bit_up sigma_up schedule.simps [of first n])
  have "16 \<le> n \<Longrightarrow> foldl extend_w (map (load_word first) [0..<16]) [16..<n] =
      map (\<lambda>t. up (schedule first t)) [0..<n]" for n
  proof (induction n rule: dec_induct)
    case base
    then show ?case using \<open>map (load_word first) [0..<16] = _\<close> by simp
  next
    case (step n)
    then show ?case using \<open>\<And>n. 16 \<le> n \<Longrightarrow> extend_w _ n = _\<close> by simp
  qed
  from this [of 64] show ?thesis by (simp add: message_schedule_def)
qed

lemma block_round_up:
  assumes "length first = 64" "i < 64" "length v = 8"
  shows "block_round (message_schedule first) (map up v) i = map up (compress first v i)"
proof -
  obtain a b c d e f g h where v: "v = [a, b, c, d, e, f, g, h]"
    using assms(3) by (auto simp: numeral_eq_Suc length_Suc_conv)
  have w: "message_schedule first ! i = up (schedule first i)"
    using assms(1,2) by (simp add: message_schedule_up)
  show ?thesis
    by (simp add: v block_round_def compress_def Let_def w mask_32bit_up sigma_up ch_up maj_up K256_def)
qed

lemma length_compress: "length v = 8 \<Longrightarrow> length (compress block v i) = 8"
  by (auto simp: compress_def Let_def numeral_eq_Suc length_Suc_conv)

lemma rounds_up:
  assumes "length first = 64" "\<forall>i \<in> set is. i < 64" "length v = 8"
  shows "foldl (block_round (message_schedule first)) (map up v) is = map up (foldl (compress first) v is) \<and>
    length (foldl (compress first) v is) = 8"
  using assms(2,3)
proof (induction "is" arbitrary: v)
  case (Cons i js)
  then show ?case using length_compress [of v first i] by (simp add: block_round_up [OF assms(1)])
qed simp

lemma hash256_block_up:
  assumes "length first = 64" "length H = 8"
  shows "hash256_block (map up H) first = map up (sha_block H first)"
proof -
  let ?v = "foldl (compress first) H [0..<64]"
  have v: "foldl (block_round (message_schedule first)) (map up H) [0..<64] = map up ?v" "length ?v = 8"
    using rounds_up [OF assms(1) _ assms(2), of "[0..<64]"] by auto
  have "map2 (\<lambda>m x. mask_32bit (m + x)) (map up H) (map up ?v) = map up (map2 (+) H ?v)"
    by (rule nth_equalityI) (simp_all add: mask_32bit_up)
  with v show ?thesis by (simp add: hash256_block_def sha_block_def)
qed

lemma length_sha_block: "length H = 8 \<Longrightarrow> length block = 64 \<Longrightarrow> length (sha_block H block) = 8"
  using rounds_up [of block "[0..<64]" H] by (simp add: sha_block_def)

section \<open>Blocks of a message\<close>

lemma length_sha_blocks: "length H = 8 \<Longrightarrow> length (sha_blocks H bs) = 8"
proof (induction H bs rule: sha_blocks.induct)
  case (1 H bs)
  then show ?case by (subst sha_blocks.simps) (simp add: length_sha_block)
qed

lemma sha_blocks_short: "length bs < 64 \<Longrightarrow> sha_blocks H bs = H"
  by (simp add: sha_blocks.simps)

lemma sha_blocks_block: "length b = 64 \<Longrightarrow> sha_blocks H (b @ bs) = sha_blocks (sha_block H b) bs"
  by (simp add: sha_blocks.simps [of H])

lemma sha_blocks_append:
  "length a = 64 * n \<Longrightarrow> sha_blocks H (a @ b) = sha_blocks (sha_blocks H a) b"
proof (induction n arbitrary: H a)
  case 0
  then show ?case by (simp add: sha_blocks_short)
next
  case (Suc n)
  have a: "a = take 64 a @ drop 64 a" and l: "length (take 64 a) = 64" "length (drop 64 a) = 64 * n"
    using Suc.prems by simp_all
  have "sha_blocks H (take 64 a @ drop 64 a @ b) = sha_blocks (sha_blocks (sha_block H (take 64 a)) (drop 64 a)) b"
    by (simp add: sha_blocks_block [OF l(1)] Suc.IH [OF l(2)])
  also have "sha_blocks (sha_block H (take 64 a)) (drop 64 a) = sha_blocks H (take 64 a @ drop 64 a)"
    by (rule sha_blocks_block [OF l(1), symmetric])
  finally show ?case by (metis append_assoc append_take_drop_id)
qed

lemma eat_blocks_up:
  "length H = 8 \<Longrightarrow> eat_blocks (map up H) bs =
     (map up (sha_blocks H bs), drop (64 * (length bs div 64)) bs)"
proof (induction H bs rule: sha_blocks.induct)
  case (1 H bs)
  show ?case
  proof (cases "64 \<le> length bs")
    case True
    then have "length bs div 64 = Suc ((length bs - 64) div 64)" by (simp add: div_if)
    with 1 True show ?thesis
      by (subst eat_blocks.simps, subst sha_blocks.simps)
        (simp add: hash256_block_up length_sha_block ac_simps)
  next
    case False
    then show ?thesis by (subst eat_blocks.simps, subst sha_blocks.simps) simp
  qed
qed

section \<open>The length counter\<close>

fun dval :: "word_t list \<Rightarrow> nat" where
  "dval [] = 0"
| "dval (d # ds) = unat d + 65536 * dval ds"

definition digits16 :: "word_t list \<Rightarrow> bool" where
  "digits16 ds \<longleftrightarrow> (\<forall>d \<in> set ds. unat d < 65536)"

lemma digits16_simps [simp]:
  "digits16 []" "digits16 (d # ds) \<longleftrightarrow> unat d < 65536 \<and> digits16 ds"
  by (auto simp: digits16_def)

lemma dval_less: "digits16 ds \<Longrightarrow> dval ds < 65536 ^ length ds"
  by (induction ds) (auto simp: algebra_simps)

lemma unat_and_65535: "unat (x AND 65535 :: word_t) = unat x mod 65536"
proof -
  have "(65535 :: word_t) = mask 16" by (simp add: mask_eq_exp_minus_1)
  then have "x AND 65535 = take_bit 16 x" by (simp add: take_bit_eq_mask)
  also have "unat \<dots> = take_bit 16 (unat x)" by (simp add: unsigned_take_bit_eq)
  also have "\<dots> = unat x mod 65536" by (simp add: take_bit_eq_mod)
  finally show ?thesis .
qed

lemma unat_drop_word: "unat (drop_bit n x :: word_t) = unat x div 2 ^ n"
  by (simp only: unat_drop_bit_eq) (simp add: drop_bit_eq_div)

lemma unat_word_less: "unat (x :: word_t) < 2 ^ 64"
  using unsigned_less [of x] by simp

lemma add_carry_value:
  "unat d + unat c < 2 ^ 64 \<Longrightarrow> digits16 ds \<Longrightarrow>
     \<exists>q. dval (add_carry c (d # ds)) + q * 65536 ^ Suc (length ds) = dval (d # ds) + unat c \<and>
       digits16 (add_carry c (d # ds)) \<and> length (add_carry c (d # ds)) = Suc (length ds)"
proof (induction ds arbitrary: d c)
  case Nil
  then have u: "unat (d + c) = unat d + unat c" by (simp add: unat_word_ariths)
  show ?case
  proof (cases "65536 \<le> d + c")
    case True
    with u show ?thesis
      by (intro exI [of _ "(unat d + unat c) div 65536"]) (simp add: Let_def unat_and_65535)
  next
    case False
    then have "unat (d + c) < 65536" by (simp add: not_le word_less_nat_alt)
    with u False show ?thesis by (simp add: Let_def)
  qed
next
  case (Cons e ds)
  then have u: "unat (d + c) = unat d + unat c" by (simp add: unat_word_ariths)
  show ?case
  proof (cases "65536 \<le> d + c")
    case True
    let ?c = "drop_bit 16 (d + c)"
    have c: "unat ?c = (unat d + unat c) div 65536" by (simp add: unat_drop_word u)
    have "(unat d + unat c) div 65536 < 2 ^ 48"
      using Cons.prems(1) by (intro less_mult_imp_div_less) simp
    with Cons.prems c have "unat e + unat ?c < 2 ^ 64" by simp
    from Cons.IH [OF this] Cons.prems obtain q where
      q: "dval (add_carry ?c (e # ds)) + q * 65536 ^ Suc (length ds) = dval (e # ds) + unat ?c"
      and r: "digits16 (add_carry ?c (e # ds))" "length (add_carry ?c (e # ds)) = Suc (length ds)"
      by auto
    have "dval (add_carry c (d # e # ds)) = (unat d + unat c) mod 65536 + 65536 * dval (add_carry ?c (e # ds))"
      using True u by (simp add: Let_def unat_and_65535)
    moreover have "65536 * (dval (add_carry ?c (e # ds)) + q * 65536 ^ Suc (length ds)) =
        65536 * dval (e # ds) + 65536 * ((unat d + unat c) div 65536)"
      unfolding q c by simp
    ultimately have "dval (add_carry c (d # e # ds)) + q * 65536 ^ Suc (length (e # ds)) =
        dval (d # e # ds) + unat c"
      by (simp add: algebra_simps)
    with True r u show ?thesis by (auto simp: Let_def unat_and_65535)
  next
    case False
    then have "unat (d + c) < 65536" by (simp add: not_le word_less_nat_alt)
    with u False Cons.prems show ?thesis by (intro exI [of _ 0]) (simp add: Let_def)
  qed
qed

lemma add_to_data_length_value:
  assumes "digits16 ds" "ds \<noteq> []" "n < 2 ^ 63"
  shows "dval (add_to_data_length (of_nat n) ds) = (dval ds + n) mod 65536 ^ length ds \<and>
    digits16 (add_to_data_length (of_nat n) ds) \<and>
    length (add_to_data_length (of_nat n) ds) = length ds"
proof -
  obtain d es where ds: "ds = d # es" using assms(2) by (cases ds) auto
  have n: "unat (of_nat n :: word_t) = n" using assms(3) by (simp add: unat_of_nat)
  with assms ds have u: "unat (d + of_nat n) = unat d + n" by (simp add: unat_word_ariths)
  then have "unat (d + of_nat n) + unat (0 :: word_t) < 2 ^ 64" using unat_word_less [of "d + of_nat n"] by simp
  from add_carry_value [OF this, of es] assms(1) ds u obtain q where
    q: "dval (add_to_data_length (of_nat n) ds) + q * 65536 ^ length ds = dval ds + n"
    and r: "digits16 (add_to_data_length (of_nat n) ds)" "length (add_to_data_length (of_nat n) ds) = length ds"
    unfolding add_to_data_length_def list.case ds by (auto simp: ac_simps simp del: add_carry.simps)
  have "dval (add_to_data_length (of_nat n) ds) < 65536 ^ length ds" using dval_less [OF r(1)] r(2) by simp
  then have "(dval (add_to_data_length (of_nat n) ds) + q * 65536 ^ length ds) mod 65536 ^ length ds =
      dval (add_to_data_length (of_nat n) ds)" by simp
  with q r show ?thesis by simp
qed

lemma unat_shift3: "unat d < 65536 \<Longrightarrow> unat c < 8 \<Longrightarrow> unat (push_bit 3 d OR c :: word_t) = 8 * unat d + unat c"
proof -
  assume d: "unat d < 65536" and c: "unat c < 8"
  have "unat (take_bit 3 c) = take_bit 3 (unat c)" by (simp only: unsigned_take_bit_eq)
  then have "c = take_bit 3 c" using c by (simp add: word_unat_eq_iff take_bit_eq_mod)
  then have b: "bit c n \<Longrightarrow> n < 3" for n by (metis bit_take_bit_iff)
  have "push_bit 3 d OR c = push_bit 3 d + c"
    by (intro disjunctive_add [symmetric]) (auto simp: bit_simps dest: b)
  moreover have "unat (d * 8) = unat d * 8" using d by (simp add: unat_word_ariths)
  ultimately show ?thesis using d c by (simp add: push_bit_eq_mult unat_word_ariths)
qed

lemma shift3_value:
  "digits16 ds \<Longrightarrow> unat c < 8 \<Longrightarrow>
     \<exists>q. dval (shift3 c ds) + q * 65536 ^ length ds = 8 * dval ds + unat c \<and>
       digits16 (shift3 c ds) \<and> length (shift3 c ds) = length ds"
proof (induction ds arbitrary: c)
  case Nil
  then show ?case by (intro exI [of _ "unat c"]) simp
next
  case (Cons d ds)
  then have d: "unat d < 65536" and ds: "digits16 ds" by auto
  let ?c = "drop_bit (16 - 3) d AND 65535"
  have c: "unat ?c = unat d div 8192" using d by (simp add: unat_and_65535 unat_drop_word)
  with d have "unat ?c < 8" by simp
  from Cons.IH [OF ds this] obtain q where
    q: "dval (shift3 ?c ds) + q * 65536 ^ length ds = 8 * dval ds + unat ?c"
    and r: "digits16 (shift3 ?c ds)" "length (shift3 ?c ds) = length ds" by blast
  have "dval (shift3 c (d # ds)) = (8 * unat d + unat c) mod 65536 + 65536 * dval (shift3 ?c ds)"
    using d Cons.prems(2) by (simp add: unat_and_65535 unat_shift3)
  moreover have "65536 * (dval (shift3 ?c ds) + q * 65536 ^ length ds) = 65536 * (8 * dval ds + unat d div 8192)"
    unfolding q c by simp
  moreover have "(8 * unat d + unat c) mod 65536 + 65536 * (unat d div 8192) = 8 * unat d + unat c"
  proof -
    have "(8 * unat d + unat c) div (8 * 8192) = (8 * unat d + unat c) div 8 div 8192" by (rule div_mult2_eq)
    also have "(8 * unat d + unat c) div 8 = unat d" using Cons.prems(2) by simp
    finally have "unat d div 8192 = (8 * unat d + unat c) div 65536" by simp
    then show ?thesis by (simp only: mod_mult_div_eq)
  qed
  ultimately have "dval (shift3 c (d # ds)) + q * 65536 ^ length (d # ds) = 8 * dval (d # ds) + unat c"
    by (simp add: algebra_simps)
  moreover have "digits16 (shift3 c (d # ds))" using r by (simp add: unat_and_65535)
  ultimately show ?case using r by (intro exI [of _ q]) simp
qed

lemma byte_eq_iff: "(of_nat n :: byte) = ucast (w :: word_t) \<longleftrightarrow> n mod 256 = unat w mod 256"
proof -
  have "unat (ucast w :: byte) = unat w mod 256"
    by (simp add: unsigned_ucast_eq take_bit_eq_mod)
  then show ?thesis by (simp add: word_unat_eq_iff unat_of_nat)
qed

lemma be_digits:
  "digits16 ds \<Longrightarrow>
     concat (map (\<lambda>d. [ucast (drop_bit 8 d), ucast d]) (rev ds)) =
     map (\<lambda>i. of_nat (dval ds div 256 ^ (2 * length ds - 1 - i)) :: byte) [0..<2 * length ds]"
proof (induction ds)
  case (Cons d ds)
  let ?n = "2 * length ds" and ?v = "dval (d # ds)"
  have d: "unat d < 65536" using Cons.prems by simp
  have up: "[0..<2 * length (d # ds)] = [0..<?n] @ [?n, Suc ?n]" by simp
  have "of_nat (?v div 256 ^ (?n + 1 - i)) = (of_nat (dval ds div 256 ^ (?n - 1 - i)) :: byte)" if "i < ?n" for i
  proof -
    have e: "?n + 1 - i = 2 + (?n - 1 - i)" using that by simp
    have "?v div 256 ^ (?n + 1 - i) = ?v div 65536 div 256 ^ (?n - 1 - i)"
      unfolding e power_add by (simp add: div_mult2_eq)
    also have "?v div 65536 = dval ds" using d by simp
    finally show ?thesis by simp
  qed
  moreover have "(of_nat (?v div 256) :: byte) = ucast (drop_bit 8 d)" "(of_nat ?v :: byte) = ucast d"
  proof -
    have "?v = unat d + 256 * (256 * dval ds)" by simp
    then have "?v div 256 = 256 * dval ds + unat d div 256" "?v mod 256 = unat d mod 256"
      using div_mult_self2 [of 256 "unat d" "256 * dval ds"] mod_mult_self2 [of "unat d" 256 "256 * dval ds"]
      by (simp_all del: dval.simps)
    then show "(of_nat (?v div 256) :: byte) = ucast (drop_bit 8 d)" "(of_nat ?v :: byte) = ucast d"
      unfolding byte_eq_iff unat_drop_word by (simp_all del: dval.simps)
  qed
  ultimately show ?case using Cons unfolding up by (simp del: upt_Suc)
qed simp

lemma be64_mod: "be64 (n mod 2 ^ 64) = be64 n"
proof -
  have "of_nat (n mod 2 ^ 64 div 256 ^ (7 - i)) = (of_nat (n div 256 ^ (7 - i)) :: byte)" if "i < 8" for i
  proof -
    have p: "(256 :: nat) ^ k = 2 ^ (8 * k)" for k by (simp add: power_mult)
    have "take_bit 8 (drop_bit (8 * (7 - i)) (take_bit 64 n)) = take_bit 8 (drop_bit (8 * (7 - i)) n)"
      using that by (intro bit_eqI) (auto simp: bit_simps)
    then have "n mod 2 ^ 64 div 256 ^ (7 - i) mod 256 = n div 256 ^ (7 - i) mod 256"
      unfolding p by (simp add: take_bit_eq_mod drop_bit_eq_div)
    then show ?thesis by (simp add: word_unat_eq_iff unat_of_nat)
  qed
  then show ?thesis by (simp add: be64_def)
qed

section \<open>The incremental hasher\<close>

text \<open>The state after the bytes \<open>xs\<close>, however they were delivered.\<close>

definition represents :: "byte list \<Rightarrow> hash256_one_by_one \<Rightarrow> bool" where
  "represents xs s \<longleftrightarrow>
     buffer s = drop (64 * (length xs div 64)) xs \<and> hash_h s = map up (sha_blocks H0 xs) \<and>
     length (data_length_digits s) = 4 \<and> digits16 (data_length_digits s) \<and>
     dval (data_length_digits s) = length xs mod 2 ^ 64"

lemma length_H0 [simp]: "length H0 = 8"
  by (simp add: H0_def initial_message_digest_def)

lemma represents_init: "represents [] init_hasher"
  by (simp add: represents_def init_hasher_def sha_blocks_short H0_def initial_message_digest_def)

lemma sha_blocks_resume:
  "sha_blocks H (xs @ ys) = sha_blocks (sha_blocks H xs) (drop (64 * (length xs div 64)) xs @ ys)"
proof -
  let ?n = "length xs div 64"
  let ?t = "take (64 * ?n) xs" and ?r = "drop (64 * ?n) xs"
  have t: "length ?t = 64 * ?n" by simp
  have "length ?r < 64" by (simp flip: minus_mod_eq_mult_div)
  then have "sha_blocks H xs = sha_blocks H ?t"
    using sha_blocks_append [OF t, of H ?r] by (simp add: sha_blocks_short)
  moreover have "sha_blocks H (xs @ ys) = sha_blocks (sha_blocks H ?t) (?r @ ys)"
    using sha_blocks_append [OF t, of H "?r @ ys"] by (simp flip: append_assoc)
  ultimately show ?thesis by simp
qed

lemma drop_resume:
  "drop (64 * (length (drop (64 * (length xs div 64)) xs @ ys) div 64)) (drop (64 * (length xs div 64)) xs @ ys) =
     drop (64 * (length (xs @ ys) div 64)) (xs @ ys)"
proof -
  let ?n = "length xs div 64"
  let ?r = "drop (64 * ?n) xs @ ys"
  have l: "length (xs @ ys) = 64 * ?n + length ?r" by simp
  then have "length (xs @ ys) div 64 = ?n + length ?r div 64" by simp
  then have "drop (64 * (length (xs @ ys) div 64)) (xs @ ys) = drop (64 * (length ?r div 64)) (drop (64 * ?n) (xs @ ys))"
    by (simp add: ac_simps distrib_left)
  also have "drop (64 * ?n) (xs @ ys) = ?r" by simp
  finally show ?thesis by simp
qed

lemma process_represents:
  assumes "represents xs s" "length ys < 2 ^ 63"
  shows "represents (xs @ ys) (process ys s)"
proof -
  let ?r = "drop (64 * (length xs div 64)) xs"
  have "length (sha_blocks H0 xs) = 8" by (simp add: length_sha_blocks)
  from eat_blocks_up [OF this, of "?r @ ys"] have
    e: "eat_blocks (hash_h s) (buffer s @ ys) = (map up (sha_blocks H0 (xs @ ys)),
      drop (64 * (length (xs @ ys) div 64)) (xs @ ys))"
    using assms(1) unfolding represents_def by (simp only: drop_resume sha_blocks_resume [of H0 xs ys])
  have "data_length_digits s \<noteq> []" using assms(1) by (auto simp: represents_def)
  with add_to_data_length_value [of "data_length_digits s" "length ys"] assms
  have "dval (add_to_data_length (of_nat (length ys)) (data_length_digits s)) = (length xs mod 2 ^ 64 + length ys) mod 2 ^ 64"
    "digits16 (add_to_data_length (of_nat (length ys)) (data_length_digits s))"
    "length (add_to_data_length (of_nat (length ys)) (data_length_digits s)) = 4"
    by (auto simp: represents_def)
  with e show ?thesis by (simp add: represents_def process_def mod_add_left_eq)
qed

lemma write_data_bit_length_be64:
  assumes "represents xs s"
  shows "write_data_bit_length (data_length_digits s) = be64 (8 * length xs)"
proof -
  let ?ds = "shift3 0 (data_length_digits s)"
  have d: "digits16 (data_length_digits s)" "length (data_length_digits s) = 4"
    "dval (data_length_digits s) = length xs mod 2 ^ 64"
    using assms by (auto simp: represents_def)
  from shift3_value [OF d(1), of 0] d obtain q where
    q: "dval ?ds + q * 2 ^ 64 = 8 * (length xs mod 2 ^ 64)" and r: "digits16 ?ds" "length ?ds = 4"
    by auto
  have "dval ?ds < 2 ^ 64" using dval_less [OF r(1)] r(2) by simp
  then have "dval ?ds = (dval ?ds + q * 2 ^ 64) mod 2 ^ 64" by simp
  also have "\<dots> = 8 * length xs mod 2 ^ 64" unfolding q by (rule mod_mult_right_eq)
  finally have "dval ?ds = 8 * length xs mod 2 ^ 64" .
  moreover have "write_data_bit_length (data_length_digits s) = be64 (dval ?ds)"
    using be_digits [OF r(1)] r(2) by (simp add: write_data_bit_length_def be64_def)
  ultimately show ?thesis using be64_mod [of "8 * length xs"] by simp
qed

lemma length_be64 [simp]: "length (be64 n) = 8"
  by (simp add: be64_def)

lemma put_marker:
  assumes "length r < 64"
  shows "(r @ replicate (64 - length r) 0)[length r := x] = r @ [x] @ replicate (63 - length r) 0"
proof -
  from assms have "64 - length r = Suc (63 - length r)" by simp
  then show ?thesis by (simp only: replicate_Suc list_update_length) simp
qed

lemma zeros_of_pad:
  "n < 64 \<Longrightarrow> (119 - n) mod 64 = (if n > 55 then (63 - n) + 56 else 55 - n)" for n :: nat
  by (auto simp: mod_if)

lemma finish_long:
  assumes "length r < 64" "length r > 55" "length H = 8" "length l = 8"
  shows "sha_blocks H (r @ [0x80] @ replicate ((63 - length r) + 56) 0 @ l) =
    sha_block (sha_block H (r @ [0x80] @ replicate (63 - length r) 0)) (replicate 56 0 @ l)"
proof -
  have l1: "length (r @ [0x80] @ replicate (63 - length r) 0) = 64" using assms by simp
  have l2: "length (replicate 56 0 @ l) = 64" using assms by simp
  have "sha_blocks H ((r @ [0x80] @ replicate (63 - length r) 0) @ (replicate 56 0 @ l) @ []) =
    sha_block (sha_block H (r @ [0x80] @ replicate (63 - length r) 0)) (replicate 56 0 @ l)"
    unfolding sha_blocks_block [OF l1] sha_blocks_block [OF l2] by (simp only: sha_blocks_short list.size)
  then show ?thesis unfolding replicate_add by (simp only: append_assoc append_Nil2)
qed

lemma finish_short:
  assumes "length r \<le> 55" "length H = 8" "length l = 8"
  shows "sha_blocks H (r @ [0x80] @ replicate (55 - length r) 0 @ l) =
    sha_block H (take 56 (r @ [0x80] @ replicate (63 - length r) 0) @ l)"
proof -
  have l: "length (r @ [0x80] @ replicate (55 - length r) 0 @ l) = 64" using assms by simp
  have "56 - length r = Suc (55 - length r)" using assms(1) by simp
  then have "take 56 (r @ [0x80] @ replicate (63 - length r) 0) = r @ [0x80] @ replicate (55 - length r) 0"
    using assms(1) by (simp add: min_def)
  then show ?thesis
    using sha_blocks_block [OF l, of H "[]"] by (simp only: append_Nil2 append_assoc sha_blocks_short list.size)
qed

lemma finish_digest:
  assumes "represents xs s"
  shows "hash_h (finish s) = map up (sha_blocks H0 (pad xs))"
proof -
  let ?r = "buffer s" and ?H = "sha_blocks H0 xs" and ?l = "be64 (8 * length xs)"
  have b: "?r = drop (64 * (length xs div 64)) xs" and h: "hash_h s = map up ?H"
    using assms by (auto simp: represents_def)
  have lr: "length ?r = length xs mod 64" unfolding b by (simp add: minus_mod_eq_mult_div [symmetric])
  then have lr64: "length ?r < 64" by simp
  have lH: "length ?H = 8" by (simp add: length_sha_blocks)
  have pad: "sha_blocks H0 (pad xs) = sha_blocks ?H (?r @ [0x80] @
      replicate (if length ?r > 55 then (63 - length ?r) + 56 else 55 - length ?r) 0 @ ?l)"
    unfolding pad_def lr [symmetric] zeros_of_pad [OF lr64] unfolding b by (rule sha_blocks_resume)
  note w = write_data_bit_length_be64 [OF assms]
  show ?thesis
  proof (cases "length ?r > 55")
    case True
    then have "length (?r @ [0x80] @ replicate (63 - length ?r) 0) = 64" using lr64 by simp
    with True show ?thesis
      unfolding pad finish_def Let_def w put_marker [OF lr64] if_P [OF True] h
        finish_long [OF lr64 True lH length_be64]
      by (simp add: hash256_block_up length_sha_block lH)
  next
    case False
    then have le: "length ?r \<le> 55" by simp
    then have "length (take 56 (?r @ [0x80] @ replicate (63 - length ?r) 0) @ ?l) = 64" by simp
    with lH show ?thesis
      unfolding pad finish_def Let_def w put_marker [OF lr64] if_not_P [OF False] h
        finish_short [OF le lH length_be64]
      by (simp only: hash256_block_up) simp
  qed
qed

lemma get_hash_bytes_up:
  assumes "hash_h s = map up H" "length H = 8"
  shows "get_hash_bytes 32 s = concat (map bytes_of_word H)"
proof -
  have b: "map (\<lambda>i. mask_8bit (ucast (drop_bit (24 - 8 * i) (up x)))) [0..<4] = bytes_of_word x" for x
    by (simp add: bytes_of_word_def upt_rec numeral_eq_Suc)
      (auto simp: bit_simps intro!: bit_word_eqI)
  have "length (concat (map bytes_of_word H)) = 32"
    using assms(2) by (simp add: length_concat bytes_of_word_def comp_def sum_list_triv)
  then show ?thesis
    unfolding get_hash_bytes_def assms(1) map_map comp_def b by simp
qed

lemma digest_of: "represents xs s \<Longrightarrow> get_hash_bytes 32 (finish s) = sha256 xs"
  using get_hash_bytes_up [OF finish_digest] by (simp add: sha256_def length_sha_blocks)

lemma process_pieces_represents:
  assumes "0 < n" "represents xs s" "n < 2 ^ 63"
  shows "\<exists>s'. process_pieces n ys s = Some s' \<and> represents (xs @ ys) s'"
  using assms(2)
proof (induction ys arbitrary: xs s rule: length_induct)
  case (1 ys)
  show ?case
  proof (cases "ys = []")
    case True
    with 1(2) show ?thesis by (subst process_pieces.simps) simp
  next
    case False
    have "represents (xs @ take n ys) (process (take n ys) s)"
      using process_represents [OF 1(2)] assms(3) by (simp add: min_def)
    moreover have "length (drop n ys) < length ys" using False assms(1) by simp
    ultimately obtain s' where "process_pieces n (drop n ys) (process (take n ys) s) = Some s'"
      "represents ((xs @ take n ys) @ drop n ys) s'" using 1(1) by blast
    with False show ?thesis by (subst process_pieces.simps) simp
  qed
qed

lemma process_pieces_progress: "process_pieces n ys s = Some s' \<Longrightarrow> 0 < n \<or> ys = []"
  by (erule process_pieces.raw_induct [where P = "\<lambda>n ys _ _. 0 < n \<or> ys = []", rotated])
    (fastforce split: if_splits)

section \<open>Properties\<close>

fun process_all :: "byte list list \<Rightarrow> hash256_one_by_one \<Rightarrow> hash256_one_by_one" where
  "process_all [] s = s"
| "process_all (c # cs) s = process_all cs (process c s)"

lemma process_all_represents:
  "represents xs s \<Longrightarrow> \<forall>c \<in> set cs. length c < 2 ^ 63 \<Longrightarrow> represents (xs @ concat cs) (process_all cs s)"
proof (induction cs arbitrary: xs s)
  case (Cons c cs)
  from Cons.IH [OF process_represents [OF Cons.prems(1)], of c] Cons.prems(2) show ?case by simp
qed simp

text \<open>C25. The incremental hasher on masked 64-bit words computes the SHA-256 of the standard on
  32-bit words, whatever pieces the message arrives in (each shorter than \<open>2 ^ 63\<close> bytes).\<close>

theorem picosha2_is_sha256:
  assumes "\<forall>piece \<in> set pieces. length piece < 2 ^ 63"
  shows "get_hash_bytes 32 (finish (process_all pieces init_hasher)) = sha256 (concat pieces)"
  using digest_of [OF process_all_represents [OF represents_init assms]] by simp

lemma picosha2_is_sha256_witness:
  "get_hash_bytes 32 (finish (process_all [[0x61], [0x62, 0x63]] init_hasher)) = sha256 [0x61, 0x62, 0x63]"
  using picosha2_is_sha256 [of "[[0x61], [0x62, 0x63]]"] by simp

text \<open>The overload for input iterators, which reads through a buffer, returns exactly when the
  buffer is not empty or the input is, and then gives the digest of the overload for random access
  iterators, 32 bytes.\<close>

theorem hash256_overloads_agree:
  assumes "length data < 2 ^ 63" and "buffer_size < 2 ^ 31"
  shows "hash256_input buffer_size data =
      (if 0 < buffer_size \<or> data = [] then Some (hash256_random_access data) else None) \<and>
    length (hash256_random_access data) = 32 \<and> hash256_random_access data = sha256 data"
proof -
  have ra: "hash256_random_access data = sha256 data"
    using digest_of [OF process_represents [OF represents_init assms(1)]]
    by (simp add: hash256_random_access_def)
  have "hash256_input buffer_size data = Some (sha256 data)" if n: "0 < buffer_size"
  proof -
    have "buffer_size < 2 ^ 63" using assms(2) by simp
    from process_pieces_represents [OF n represents_init this, of data] digest_of show ?thesis
      by (auto simp: hash256_input_def)
  qed
  moreover have "hash256_input buffer_size [] = Some (sha256 [])"
    using digest_of [OF represents_init] by (simp add: hash256_input_def process_pieces.simps)
  moreover have "hash256_input 0 data = None" if "data \<noteq> []"
    using process_pieces_progress [of 0 data init_hasher] that
    by (cases "process_pieces 0 data init_hasher") (auto simp: hash256_input_def)
  moreover have "length (sha256 data) = 32"
    by (simp add: sha256_def length_concat bytes_of_word_def comp_def sum_list_triv length_sha_blocks)
  ultimately show ?thesis using ra by (cases "buffer_size = 0") auto
qed

lemma hash256_overloads_agree_witness:
  "hash256_input 2 [1, 2, 3] = Some (hash256_random_access [1, 2, 3]) \<and> hash256_input 0 [1] = None"
  using hash256_overloads_agree [of "[1, 2, 3]" 2] hash256_overloads_agree [of "[1]" 0] by simp

definition hex_value :: "char \<Rightarrow> nat" where
  "hex_value c = (if (of_char c :: nat) < 97 then of_char c - 48 else of_char c - 87)"

fun read_hex :: "string \<Rightarrow> byte list" where
  "read_hex (a # b # s) = of_nat (16 * hex_value a + hex_value b) # read_hex s"
| "read_hex _ = []"

lemma hex_char_value: "n < 16 \<Longrightarrow> hex_value (hex_char n) = n"
  using of_char_hex_char [of n] by (auto simp: hex_value_def split: if_splits)

text \<open>The natural numbers whose fractional root bits the standard takes as constants.\<close>

definition first_primes :: "int list" where
  "first_primes = filter (\<lambda>p. list_all (\<lambda>d. d * d > p \<or> p mod d \<noteq> 0) [2, 3, 5, 7, 11, 13, 17]) [2..311]"

text \<open>\<open>c\<close> is the first 32 bits of the fractional part of the \<open>k\<close>-th root of \<open>p\<close>.\<close>

definition root_fraction :: "nat \<Rightarrow> int \<Rightarrow> word_t \<Rightarrow> bool" where
  "root_fraction k p c \<longleftrightarrow>
     list_ex (\<lambda>m. (m * 2 ^ 32 + uint c) ^ k \<le> p * 2 ^ (32 * k) \<and> p * 2 ^ (32 * k) < (m * 2 ^ 32 + uint c + 1) ^ k)
       [1..6]"

text \<open>The hexadecimal form of a digest has two digits per byte and determines the bytes, 64
  characters for a hash; and the tables of the code are those of the standard: the first 32 bits of
  the fractional parts of the cube roots of the first 64 primes, and of the square roots of the
  first eight.\<close>

theorem sha256_hex_and_tables:
  "read_hex (output_hex bs) = bs \<and> length (output_hex bs) = 2 * length bs \<and>
   length first_primes = 64 \<and>
   list_all2 (root_fraction 3) first_primes add_constant \<and>
   list_all2 (root_fraction 2) (take 8 first_primes) initial_message_digest"
proof (intro conjI)
  show "read_hex (output_hex bs) = bs"
  proof (induction bs)
    case (Cons b bs)
    have "unat b < 256" using unsigned_less [of b] by simp
    then have "unat b div 16 < 16" "unat b mod 16 < 16" by auto
    then have "read_hex (output_hex (b # bs)) = of_nat (16 * (unat b div 16) + unat b mod 16) # read_hex (output_hex bs)"
      by (simp add: output_hex_def hex_char_value)
    then show ?case using Cons by simp
  qed (simp add: output_hex_def)
  show "length (output_hex bs) = 2 * length bs"
    by (simp add: output_hex_def length_concat comp_def sum_list_triv)
  show "length first_primes = 64" by code_simp
  show "list_all2 (root_fraction 3) first_primes add_constant" by code_simp
  show "list_all2 (root_fraction 2) (take 8 first_primes) initial_message_digest" by code_simp
qed

end
