(* ===== verification/Hashing.thy ===== *)
theory Hashing
  imports Prelude
begin

text \<open>
  The contract of the two string hashes of the program (\<open>CommandDispatcher::Djb2Hash\<close> and
  \<open>TaskGenerator::hash\<close>): a hash reads a C string one character at a time, and its step can be
  undone in the state and tells characters apart. The consequences the users of the hashes rely on
  are proved here once.
\<close>

locale byte_hash =
  fixes hash :: "size_t \<Rightarrow> string \<Rightarrow> size_t"
    and step :: "size_t \<Rightarrow> char \<Rightarrow> size_t"
  assumes hash_Nil: "hash seed [] = seed"
    and hash_Cons: "hash seed (c # s) = hash (step seed c) s"
    and step_state: "step h c = step h' c \<Longrightarrow> h = h'"
    and step_char: "step h c = step h c' \<Longrightarrow> c = c'"
begin

lemma hash_append: "hash seed (s @ t) = hash (hash seed s) t"
  by (induction s arbitrary: seed) (simp_all add: hash_Nil hash_Cons)

lemma hash_seed_inj: "hash seed s = hash seed' s \<Longrightarrow> seed = seed'"
proof (induction s arbitrary: seed seed')
  case (Cons c s)
  then have "step seed c = step seed' c" by (auto simp: hash_Cons)
  then show ?case by (rule step_state)
qed (simp add: hash_Nil)

text \<open>A common end neither creates nor removes a collision, and one different character is none.\<close>

lemma hash_suffix_iff: "hash seed (s @ u) = hash seed (t @ u) \<longleftrightarrow> hash seed s = hash seed t"
  using hash_seed_inj by (auto simp: hash_append)

lemma hash_one_char: "c \<noteq> d \<Longrightarrow> hash seed (s @ c # u) \<noteq> hash seed (s @ d # u)"
  using step_char [of "hash seed s" c d] hash_seed_inj [of "step (hash seed s) c" u]
  by (auto simp: hash_append hash_Cons)

end

lemma odd_factor_cancel:
  fixes x y k inv :: "'a::len word"
  assumes "inv * k = 1" and "x * k = y * k"
  shows "x = y"
proof -
  have "x * k * inv = y * k * inv" using assms(2) by simp
  then have "x * (inv * k) = y * (inv * k)" by (simp add: ac_simps)
  with assms(1) show ?thesis by simp
qed

text \<open>\<open>std::size_t(c)\<close> of a plain \<open>char\<close> sign-extends, of an \<open>unsigned char\<close> it does not.\<close>

definition char_size :: "char \<Rightarrow> size_t" where
  "char_size c = of_nat (of_char c)"

definition schar_size :: "char \<Rightarrow> size_t" where
  "schar_size c = scast (char_byte c)"

lemma char_nat_less_256: "of_char c < (256 :: nat)"
  by simp

lemma char_size_inj: "char_size c = char_size d \<Longrightarrow> c = d"
proof -
  assume "char_size c = char_size d"
  then have "unat (of_nat (of_char c) :: size_t) = unat (of_nat (of_char d) :: size_t)"
    by (simp add: char_size_def)
  moreover have "of_char c < (2 :: nat) ^ 64" "of_char d < (2 :: nat) ^ 64"
    by (rule less_trans [OF char_nat_less_256]; simp)+
  ultimately have "(of_char c :: nat) = of_char d" by (simp add: unat_of_nat)
  then show "c = d" by simp
qed

lemma schar_size_inj: "schar_size c = schar_size d \<Longrightarrow> c = d"
proof -
  assume "schar_size c = schar_size d"
  then have "(ucast (scast (char_byte c) :: size_t) :: byte) = ucast (scast (char_byte d) :: size_t)"
    by (simp add: schar_size_def)
  moreover have "(ucast (scast b :: size_t) :: byte) = b" for b :: byte
    by (rule bit_word_eqI) (simp add: bit_simps)
  ultimately show "c = d" using inj_char_byte by (auto dest: injD)
qed

end
