(* ===== verification/Dispatcher.thy ===== *)
theory Dispatcher
  imports Hashing Strings Json
begin

text \<open>
  \<open>CommandDispatcher\<close> of \<open>src/src/components/server/commander.hpp\<close> and \<open>commander.cpp\<close>: an
  unordered map from 64-bit hashes of command names to handlers.
\<close>

unbundle bit_operations_syntax

section \<open>The hash\<close>

definition djb2_step :: "size_t \<Rightarrow> char \<Rightarrow> size_t" where
  "djb2_step hash c = (push_bit 5 hash + hash) + char_size c"

fun djb2_loop :: "size_t \<Rightarrow> string \<Rightarrow> size_t" where
  "djb2_loop hash [] = hash"
| "djb2_loop hash (c # str) = djb2_loop (djb2_step hash c) str"

text \<open>\<open>c_str()\<close> is read up to its first null character.\<close>

definition c_string :: "string \<Rightarrow> string" where
  "c_string s = takeWhile (\<lambda>c. c \<noteq> CHR 0x00) s"

definition Djb2Hash :: "string \<Rightarrow> size_t" where
  "Djb2Hash str = djb2_loop 5381 (c_string str)"

lemma djb2_step_eq: "djb2_step h c = h * 33 + char_size c"
  by (simp add: djb2_step_def push_bit_eq_mult algebra_simps)

interpretation djb2: byte_hash djb2_loop djb2_step
proof unfold_locales
  fix h h' :: size_t and c c'
  show "h = h'" if "djb2_step h c = djb2_step h' c"
  proof (rule odd_factor_cancel)
    show "(1117984489315730401 :: size_t) * 33 = 1" by simp
    show "h * 33 = h' * 33" using that by (simp add: djb2_step_eq)
  qed
  show "c = c'" if "djb2_step h c = djb2_step h c'"
    using that char_size_inj by (simp add: djb2_step_eq)
qed simp_all

section \<open>The dispatcher\<close>

record 'h dispatcher =
  handlers :: "size_t \<rightharpoonup> 'h"

definition empty_dispatcher :: "'h dispatcher" where
  "empty_dispatcher = \<lparr>handlers = Map.empty\<rparr>"

definition RegisterHandler :: "string \<Rightarrow> 'h \<Rightarrow> 'h dispatcher \<Rightarrow> 'h dispatcher" where
  "RegisterHandler name handler d = d\<lparr>handlers := (handlers d)(Djb2Hash name \<mapsto> handler)\<rparr>"

definition HasHandler :: "string \<Rightarrow> 'h dispatcher \<Rightarrow> bool" where
  "HasHandler name d \<longleftrightarrow> handlers d (Djb2Hash name) \<noteq> None"

text \<open>The handler called and its argument; nothing is called for an unknown command.\<close>

definition Dispatch :: "string \<Rightarrow> json \<Rightarrow> 'h dispatcher \<Rightarrow> ('h \<times> json) option" where
  "Dispatch name data d =
     (case handlers d (Djb2Hash name) of Some h \<Rightarrow> Some (h, data) | None \<Rightarrow> None)"

fun register_all :: "(string \<times> 'h) list \<Rightarrow> 'h dispatcher \<Rightarrow> 'h dispatcher" where
  "register_all [] d = d"
| "register_all ((n, h) # rs) d = register_all rs (RegisterHandler n h d)"

lemma register_all_handlers:
  "handlers (register_all rs d) k =
     (case map_of (rev (map (\<lambda>(n, h). (Djb2Hash n, h)) rs)) k of
        Some h \<Rightarrow> Some h | None \<Rightarrow> handlers d k)"
  by (induction rs d rule: register_all.induct)
    (auto simp: RegisterHandler_def map_add_def split: option.splits)

lemma inj_on_hash_map_of:
  "inj_on f (insert n (fst ` set rs)) \<Longrightarrow>
     map_of (map (\<lambda>(m, h). (f m, h)) rs) (f n) = map_of rs n"
proof (induction rs)
  case (Cons r rs)
  then have "map_of (map (\<lambda>(m, h). (f m, h)) rs) (f n) = map_of rs n"
    by (auto intro: inj_on_subset)
  moreover have "f (fst r) = f n \<longleftrightarrow> fst r = n" using inj_onD [OF Cons.prems, of "fst r" n] by auto
  ultimately show ?case by (cases r) auto
qed simp

section \<open>Properties\<close>

text \<open>C31. The dispatcher is a map from names to handlers exactly as far as the hash tells the
  names apart: where it is injective on the registered names and the one asked for, a dispatch
  calls the handler registered last under that name with the data given, and nothing where the
  name was not registered.\<close>

theorem dispatch_last_registered:
  assumes "inj_on Djb2Hash (insert name (fst ` set rs))"
  shows "Dispatch name data (register_all rs empty_dispatcher) =
      map_option (\<lambda>h. (h, data)) (map_of (rev rs) name) \<and>
    (HasHandler name (register_all rs empty_dispatcher) \<longleftrightarrow> name \<in> fst ` set rs)"
proof -
  have "inj_on Djb2Hash (insert name (fst ` set (rev rs)))" using assms by simp
  from inj_on_hash_map_of [OF this] have
    "handlers (register_all rs empty_dispatcher) (Djb2Hash name) = map_of (rev rs) name"
    by (simp add: register_all_handlers empty_dispatcher_def rev_map split: option.splits)
  then show ?thesis
    using map_of_eq_None_iff [of "rev rs" name]
    by (auto simp: Dispatch_def HasHandler_def split: option.splits)
qed

lemma dispatch_last_registered_witness:
  "Dispatch ''b'' JNull (register_all [(''a'', 1 :: nat), (''b'', 2), (''b'', 3)] empty_dispatcher)
     = Some (3, JNull)"
proof -
  have "Djb2Hash ''a'' = 177670" "Djb2Hash ''b'' = 177671" by code_simp+
  then have "inj_on Djb2Hash (insert ''b'' (fst ` set [(''a'', 1 :: nat), (''b'', 2), (''b'', 3)]))"
    by (auto simp: inj_on_def)
  from dispatch_last_registered [OF this, of JNull] show ?thesis by simp
qed

text \<open>The 64-bit hash never confuses two names of which one arises from the other by replacing
  one character, and whether two names with a common ending collide is decided by what precedes
  it; but it does confuse names of two characters, so \<open>HasHandler\<close> answers yes for every name
  \<open>FY...\<close> once \<open>Ez...\<close> is registered, and the dispatch runs the other command's handler.\<close>

theorem Djb2Hash_collisions:
  assumes "CHR 0x00 \<notin> set (s @ c # d # u)"
  shows "(c \<noteq> d \<longrightarrow> Djb2Hash (s @ c # u) \<noteq> Djb2Hash (s @ d # u)) \<and>
    (HasHandler (''FY'' @ u) (RegisterHandler (''Ez'' @ u) h empty_dispatcher)) \<and>
    Dispatch (''FY'' @ u) data (RegisterHandler (''Ez'' @ u) h empty_dispatcher) = Some (h, data)"
proof -
  have c: "c_string t = t" if "CHR 0x00 \<notin> set t" for t
    using that by (simp add: c_string_def takeWhile_eq_all_conv) metis
  have "djb2_loop 5381 ''Ez'' = djb2_loop 5381 ''FY''" by code_simp
  then have "djb2_loop 5381 (''Ez'' @ u) = djb2_loop 5381 (''FY'' @ u)"
    using djb2.hash_suffix_iff by blast
  moreover have "Djb2Hash (''Ez'' @ u) = djb2_loop 5381 (''Ez'' @ u)"
    "Djb2Hash (''FY'' @ u) = djb2_loop 5381 (''FY'' @ u)"
    using c [of "''Ez'' @ u"] c [of "''FY'' @ u"] assms by (auto simp: Djb2Hash_def)
  ultimately have "Djb2Hash (''Ez'' @ u) = Djb2Hash (''FY'' @ u)" by simp
  moreover have "c \<noteq> d \<longrightarrow> Djb2Hash (s @ c # u) \<noteq> Djb2Hash (s @ d # u)"
    using djb2.hash_one_char [of c d 5381 s u] c [of "s @ c # u"] c [of "s @ d # u"] assms
    by (auto simp: Djb2Hash_def)
  ultimately show ?thesis by (simp add: HasHandler_def Dispatch_def RegisterHandler_def)
qed

lemma Djb2Hash_collisions_witness:
  "Djb2Hash ''Stop'' \<noteq> Djb2Hash ''Stap'' \<and>
   HasHandler ''FYp'' (RegisterHandler ''Ezp'' (0 :: nat) empty_dispatcher)"
  using Djb2Hash_collisions [of "''St''" "CHR ''o''" "CHR ''a''" "''p''" "0 :: nat" JNull] by simp

end
