(* ===== verification/WsServer.thy ===== *)
theory WsServer
  imports Dispatcher Config
begin

text \<open>
  \<open>WebSocketServer\<close> of \<open>src/src/components/server/wsserver.hpp\<close> and \<open>wsserver.cpp\<close>: the
  connection counter, the client list kept in \<open>clients.json\<close>, and the command protocol. The
  websocketpp endpoint is external: what it says of a connection's remote end is an argument
  (\<open>None\<close> where \<open>remote_endpoint()\<close> throws). A callback that throws unwinds into
  \<open>WebSocketServer::run\<close>, which swallows the exception and serves on.
\<close>

section \<open>State\<close>

datatype ws_handler = RunDeviceTask | GetDeviceInfo

record ws_server =
  running :: bool
  max_connections :: int
  active_connections :: int
  client_file :: file_content
  m_CommandDispatcher :: "ws_handler dispatcher"

type_synonym peer = "(string \<times> int) option"

definition WebSocketServer :: "int \<Rightarrow> file_content \<Rightarrow> ws_server" where
  "WebSocketServer max_conn clients =
     \<lparr>running = False, max_connections = max_conn, active_connections = 0, client_file = clients,
      m_CommandDispatcher =
        RegisterHandler ''GetDeviceInfo'' GetDeviceInfo
          (RegisterHandler ''RunDeviceTask'' RunDeviceTask empty_dispatcher)\<rparr>"

text \<open>\<open>run\<close> up to its service loop: a server that cannot listen throws before it counts as running.\<close>

definition ws_run :: "bool \<Rightarrow> ws_server \<Rightarrow> ws_server result" where
  "ws_run listen_ok s =
     (if running s then Inr s
      else if \<not> listen_ok then Inl (Throw ''listen'')
      else Inr (s\<lparr>running := True\<rparr>))"

definition ws_stop :: "bool \<Rightarrow> ws_server \<Rightarrow> ws_server" where
  "ws_stop stop_ok s = (if \<not> running s then s else if stop_ok then s\<lparr>running := False\<rparr> else s)"

section \<open>The list of clients\<close>

fun json_is_string :: "string \<Rightarrow> json \<Rightarrow> bool" where
  "json_is_string t (JStr s) = (s = t)"
| "json_is_string t _ = False"

fun json_is_number :: "int \<Rightarrow> json \<Rightarrow> bool" where
  "json_is_number n (JInt i) = (i = n)"
| "json_is_number n (JFloat d) = (d = of_int n)"
| "json_is_number n _ = False"

text \<open>
  The comparison \<open>client["ip"] == ip && client["port"] == port\<close>. The subscripts insert a null
  member where there is none, so the client comes back changed.
\<close>

definition client_matches :: "string \<Rightarrow> int \<Rightarrow> json \<Rightarrow> (json \<times> bool) result" where
  "client_matches ip port client =
     rbind (j_slot ''ip'' client) (\<lambda>v.
     rbind (j_put ''ip'' v client) (\<lambda>c1.
       if json_is_string ip v then
         rbind (j_slot ''port'' c1) (\<lambda>w.
         rbind (j_put ''port'' w c1) (\<lambda>c2. Inr (c2, json_is_number port w)))
       else Inr (c1, False)))"

fun scan_clients :: "string \<Rightarrow> int \<Rightarrow> json list \<Rightarrow> (json list \<times> bool) result" where
  "scan_clients ip port [] = Inr ([], False)"
| "scan_clients ip port (c # cs) =
     rbind (client_matches ip port c) (\<lambda>(c', hit).
       if hit then Inr (c' # cs, True)
       else rbind (scan_clients ip port cs) (\<lambda>(cs', b). Inr (c' # cs', b)))"

definition client_info :: "string \<Rightarrow> int \<Rightarrow> json" where
  "client_info ip port = JObj [(''ip'', JStr ip), (''port'', JInt port)]"

text \<open>
  The file after the call. A file that cannot be opened or parsed makes \<open>operator>>\<close> throw, a
  scalar or null document throws too; the exception is swallowed and nothing is written.
\<close>

definition saveClientInfo :: "string \<Rightarrow> int \<Rightarrow> file_content \<Rightarrow> file_content" where
  "saveClientInfo ip port file =
     (case file of
        Parsed clients \<Rightarrow>
          (case scan_clients ip port (j_elems clients) of
             Inl e \<Rightarrow> file
           | Inr (cs, exists) \<Rightarrow>
               if exists then file
               else (case clients of
                   JArr _ \<Rightarrow> Parsed (JArr (cs @ [client_info ip port]))
                 | JObj m \<Rightarrow>
                     Parsed (JObj (obj_put (''client'' @ show_nat (length m + 1)) (client_info ip port)
                       (zip (map fst m) cs)))
                 | _ \<Rightarrow> file))
      | _ \<Rightarrow> file)"

section \<open>Connections\<close>

definition onOpen :: "peer \<Rightarrow> ws_server \<Rightarrow> ws_server" where
  "onOpen conn s =
     (if 0 < max_connections s \<and> max_connections s \<le> active_connections s then s
      else (case conn of
          None \<Rightarrow> s
        | Some (client_ip, client_port) \<Rightarrow>
            s\<lparr>client_file := saveClientInfo client_ip client_port (client_file s),
              active_connections := active_connections s + 1\<rparr>))"

definition onClose :: "peer \<Rightarrow> ws_server \<Rightarrow> ws_server" where
  "onClose conn s =
     (case conn of
        None \<Rightarrow> s
      | Some _ \<Rightarrow> s\<lparr>active_connections := active_connections s - 1\<rparr>)"

section \<open>Messages\<close>

datatype reply = ReplyOK | ReplyMissing | ReplyException cpp_error

text \<open>
  One message in its own thread: the reply sent, if any, and the handler called with its
  argument. The two handlers only print their names and cannot throw.
\<close>

definition processMessage ::
  "string \<Rightarrow> json \<Rightarrow> ws_server \<Rightarrow> reply option \<times> (ws_handler \<times> json) option" where
  "processMessage payload data s =
     (if payload = [] then (None, None)
      else if j_empty data then (None, None)
      else if j_contains ''name'' data \<and> j_contains ''params'' data then
        (case rbind (j_at ''name'' data) j_get_string of
           Inl e \<Rightarrow> (Some (ReplyException e), None)
         | Inr name \<Rightarrow>
             (case j_at ''params'' data of
                Inl e \<Rightarrow> (Some (ReplyException e), None)
              | Inr params \<Rightarrow>
                  (Some ReplyOK,
                   if HasHandler name (m_CommandDispatcher s)
                   then Dispatch name JNull (m_CommandDispatcher s) else None)))
      else (Some ReplyMissing, None))"

text \<open>\<open>parse\<close> is the JSON parser of the library: \<open>None\<close> for text it does not accept.\<close>

definition onMessage ::
  "(string \<Rightarrow> json option) \<Rightarrow> peer \<Rightarrow> (bool \<times> string) option \<Rightarrow> ws_server
     \<Rightarrow> reply option \<times> (ws_handler \<times> json) option" where
  "onMessage parse conn msg s =
     (case msg of
        None \<Rightarrow> (None, None)
      | Some (is_text, payload) \<Rightarrow>
          if conn = None then (None, None)
          else if is_text then
            (case parse payload of
               None \<Rightarrow> (None, None)
             | Some data \<Rightarrow> processMessage payload data s)
          else (None, None))"

section \<open>Runs of connections\<close>

datatype ws_event = Opened nat peer | Closed nat peer

text \<open>
  A run with the history the counter stands for: the identifiers of the connections that were
  counted and are still open, and how many connections closed that had never been counted.
\<close>

fun ws_trace :: "ws_event list \<Rightarrow> ws_server \<Rightarrow> nat list \<Rightarrow> nat \<Rightarrow> ws_server \<times> nat list \<times> nat" where
  "ws_trace [] s counted stray = (s, counted, stray)"
| "ws_trace (Opened i p # es) s counted stray =
     ws_trace es (onOpen p s) (if active_connections (onOpen p s) = active_connections s then counted else i # counted) stray"
| "ws_trace (Closed i p # es) s counted stray =
     (if p = None then ws_trace es s counted stray
      else ws_trace es (onClose p s) (remove1 i counted)
             (if i \<in> set counted then stray else stray + 1))"

definition counter_ok :: "ws_server \<Rightarrow> nat list \<Rightarrow> nat \<Rightarrow> bool" where
  "counter_ok s counted stray \<longleftrightarrow>
     active_connections s = int (length counted) - int stray \<and>
     (0 < max_connections s \<longrightarrow> active_connections s \<le> max_connections s)"

lemma onOpen_refused: "active_connections (onOpen p s) = active_connections s \<Longrightarrow> onOpen p s = s"
  by (auto simp: onOpen_def split: option.splits if_splits)

lemma onOpen_changes: "active_connections (onOpen p s) \<noteq> active_connections s \<Longrightarrow> active_connections (onOpen p s) = active_connections s + 1 \<and>
    max_connections (onOpen p s) = max_connections s \<and>
    (0 < max_connections s \<longrightarrow> active_connections s < max_connections s)"
  by (auto simp: onOpen_def split: option.splits if_splits)

lemma ws_trace_counter_ok:
  "counter_ok s counted stray \<Longrightarrow> ws_trace es s counted stray = (s', counted', stray') \<Longrightarrow>
     counter_ok s' counted' stray' \<and> max_connections s' = max_connections s"
proof (induction es s counted stray rule: ws_trace.induct)
  case (2 i p es s counted stray)
  show ?case
  proof (cases "active_connections (onOpen p s) = active_connections s")
    case True
    with 2 onOpen_refused [OF True] show ?thesis by simp
  next
    case False
    from onOpen_changes [OF this] 2(2) have "counter_ok (onOpen p s) (i # counted) stray"
      by (auto simp: counter_ok_def)
    with 2(1,3) False onOpen_changes [OF False] show ?thesis by simp
  qed
next
  case (3 i p es s counted stray)
  show ?case
  proof (cases p)
    case None
    with 3 show ?thesis by simp
  next
    case (Some q)
    have "counter_ok (onClose p s) (remove1 i counted) (if i \<in> set counted then stray else stray + 1)"
    proof (cases "i \<in> set counted")
      case True
      then have "int (length (remove1 i counted)) = int (length counted) - 1"
        using True by (cases "length counted") (auto simp: length_remove1)
      with True 3(3) Some show ?thesis by (auto simp: counter_ok_def onClose_def)
    next
      case False
      with 3(3) Some show ?thesis by (auto simp: counter_ok_def onClose_def remove1_idem)
    qed
    moreover have "max_connections (onClose p s) = max_connections s" using Some by (simp add: onClose_def)
    ultimately show ?thesis using 3(2,4) Some by simp
  qed
qed simp

section \<open>Properties\<close>



text \<open>On a client file that is an array of the records the server writes, the call adds the
  client at the end exactly when it is not listed yet, so no client is listed twice; where the
  file is missing or unreadable it is never created.\<close>

theorem saveClientInfo_adds_once:
  defines "clients cs \<equiv> Parsed (JArr (map (\<lambda>(ip, port). client_info ip port) cs))"
  shows "saveClientInfo ip port (clients cs) =
      clients (if (ip, port) \<in> set cs then cs else cs @ [(ip, port)]) \<and>
    saveClientInfo ip port CannotOpen = CannotOpen \<and> saveClientInfo ip port BadJson = BadJson"
proof -
  have m: "client_matches ip port (client_info i p) = Inr (client_info i p, (i, p) = (ip, port))" for i p
    by (simp add: client_matches_def client_info_def)
  have "scan_clients ip port (map (\<lambda>(ip, port). client_info ip port) cs) =
      Inr (map (\<lambda>(ip, port). client_info ip port) cs, (ip, port) \<in> set cs)"
  proof (induction cs)
    case (Cons c cs)
    then show ?case by (cases c) (auto simp: m)
  qed simp
  then show ?thesis by (auto simp: saveClientInfo_def clients_def)
qed

text \<open>A message that names a command is answered with OK whether or not the command exists,
  and its handler is called with null: the parameters the client sent reach no handler. A message
  without name or parameters is answered with the error, one whose name is no string with the
  exception.\<close>

theorem processMessage_reply:
  assumes "payload \<noteq> []" and "map_of m ''name'' = Some n" and "map_of m ''params'' = Some params"
  shows "processMessage payload (JObj m) s =
    (case n of
       JStr name \<Rightarrow> (Some ReplyOK, map_option (\<lambda>h. (h, JNull)) (handlers (m_CommandDispatcher s) (Djb2Hash name)))
     | _ \<Rightarrow> (Some (ReplyException (Throw ''type_error.302'')), None))"
  using assms
  by (cases n) (auto simp: processMessage_def j_contains_def HasHandler_def Dispatch_def split: option.splits)

lemma processMessage_reply_witness:
  "processMessage ''x'' (JObj [(''name'', JStr ''GetDeviceInfo''), (''params'', JInt 5)])
     (WebSocketServer 0 CannotOpen) = (Some ReplyOK, Some (GetDeviceInfo, JNull))"
proof -
  have "map_of [(''name'', JStr ''GetDeviceInfo''), (''params'', JInt 5)] ''name'' = Some (JStr ''GetDeviceInfo'')"
    and "map_of [(''name'', JStr ''GetDeviceInfo''), (''params'', JInt 5)] ''params'' = Some (JInt 5)"
    by simp_all
  from processMessage_reply [OF _ this, of "''x''" "WebSocketServer 0 CannotOpen"] show ?thesis
    by (simp add: WebSocketServer_def RegisterHandler_def)
qed

end
