(* ===== verification/Task.thy ===== *)
theory Task
  imports Json
begin

text \<open>
  The task classes of \<open>src/src/components/task/task.hpp\<close>. A task is one record with the members
  of \<open>BasicTask\<close> and a body for those of its class. A \<open>std::function\<close> is a value of the type
  \<open>'f option\<close> (\<open>None\<close> is the empty one, whose call throws \<open>bad_function_call\<close>); what calling it
  does is an argument of the execution. \<open>id_\<close> is not initialised by the constructor, so a
  constructor takes the indeterminate value as \<open>junk\<close>. The stop flag may be set by another thread
  while a task runs: \<open>seen i\<close> says whether its \<open>i\<close>-th reading finds it set.
\<close>

section \<open>State\<close>

datatype 'f task_body =
    SimpleTask "'f option" json json
  | ConditionalTask "'f option" json "'f option"
  | LoopTask "'f option" json
  | DaemonTask "'f option"

record 'f basic_task =
  done_flag :: bool
  task_id :: int
  task_name :: string
  description :: string
  can_stop :: bool
  stop_fn :: "'f option"
  stop_flag :: bool
  can_execute :: bool
  body :: "'f task_body"

text \<open>
  The constructor of \<open>BasicTask\<close>: \<open>can_stop_\<close> is computed from the stop function, the argument
  \<open>can_stop\<close> is not read.
\<close>

definition BasicTask :: "int \<Rightarrow> 'f option \<Rightarrow> bool \<Rightarrow> 'f task_body \<Rightarrow> 'f basic_task" where
  "BasicTask junk stop can_stop_arg b =
     \<lparr>done_flag = False, task_id = junk, task_name = [], description = [], can_stop = (stop \<noteq> None),
      stop_fn = stop, stop_flag = False, can_execute = True, body = b\<rparr>"

definition make_SimpleTask :: "int \<Rightarrow> 'f option \<Rightarrow> json \<Rightarrow> 'f option \<Rightarrow> bool \<Rightarrow> 'f basic_task" where
  "make_SimpleTask junk func params stop can_stop_arg =
     BasicTask junk stop can_stop_arg (SimpleTask func params JNull)"

definition make_ConditionalTask :: "int \<Rightarrow> 'f option \<Rightarrow> json \<Rightarrow> 'f option \<Rightarrow> 'f option \<Rightarrow> 'f basic_task" where
  "make_ConditionalTask junk condition params task_fn stop =
     BasicTask junk stop (stop \<noteq> None) (ConditionalTask condition params task_fn)"

definition make_LoopTask :: "int \<Rightarrow> 'f option \<Rightarrow> json \<Rightarrow> 'f option \<Rightarrow> 'f basic_task" where
  "make_LoopTask junk item_fn params stop = BasicTask junk stop (stop \<noteq> None) (LoopTask item_fn params)"

definition make_DaemonTask :: "int \<Rightarrow> 'f option \<Rightarrow> 'f option \<Rightarrow> 'f basic_task" where
  "make_DaemonTask junk task_fn stop = BasicTask junk stop True (DaemonTask task_fn)"

section \<open>Serialisation\<close>

definition ToJson_basic :: "'f basic_task \<Rightarrow> (string \<times> json) list" where
  "ToJson_basic t =
     foldr (\<lambda>(k, v). obj_put k v)
       [(''type'', JStr ''basic''), (''name'', JStr (task_name t)), (''id'', JInt (task_id t)),
        (''description'', JStr (description t)), (''can_stop'', JBool (can_stop t))] []"

definition ToJson :: "'f basic_task \<Rightarrow> json" where
  "ToJson t =
     (let j = ToJson_basic t in
      case body t of
        SimpleTask _ params _ \<Rightarrow> JObj (obj_put ''params'' params (obj_put ''type'' (JStr ''simple'') j))
      | ConditionalTask _ params _ \<Rightarrow>
          JObj (obj_put ''params'' params (obj_put ''type'' (JStr ''conditional'') j))
      | LoopTask _ params \<Rightarrow> JObj (obj_put ''params'' params (obj_put ''type'' (JStr ''loop'') j))
      | DaemonTask _ \<Rightarrow> JObj (obj_put ''type'' (JStr ''daemon'') j))"

section \<open>Execution\<close>

definition call_fn :: "('f \<Rightarrow> json \<Rightarrow> json result) \<Rightarrow> 'f option \<Rightarrow> json \<Rightarrow> json result" where
  "call_fn call fn x = (case fn of None \<Rightarrow> Inl (Throw ''bad_function_call'') | Some f \<Rightarrow> call f x)"

text \<open>The condition of a conditional task: the value of the call, a \<open>bool\<close> in the code.\<close>

definition is_true :: "json \<Rightarrow> bool" where
  "is_true j \<longleftrightarrow> j = JBool True"

text \<open>The calls made by a loop task, in order, and how the loop ended.\<close>

fun loop_items :: "('f \<Rightarrow> json \<Rightarrow> json result) \<Rightarrow> 'f option \<Rightarrow> (nat \<Rightarrow> bool) \<Rightarrow> nat \<Rightarrow> json list
    \<Rightarrow> json list \<times> unit result" where
  "loop_items call fn seen i [] = ([], Inr ())"
| "loop_items call fn seen i (x # xs) =
     (if seen i then ([], Inr ())
      else (case call_fn call fn (JObj [(''item'', x)]) of
          Inl e \<Rightarrow> ([JObj [(''item'', x)]], Inl e)
        | Inr _ \<Rightarrow>
            (let (calls, r) = loop_items call fn seen (Suc i) xs in (JObj [(''item'', x)] # calls, r))))"

definition status_done :: json where
  "status_done = JObj [(''status'', JStr ''done'')]"

text \<open>
  \<open>Execute\<close>: the task afterwards, the arguments its function was called with, and what is
  returned or thrown. \<open>params_["items"]\<close> of a loop task inserts the member where it is missing.
  A daemon task only starts its thread, which runs \<open>RunTask\<close>.
\<close>

definition Execute :: "('f \<Rightarrow> json \<Rightarrow> json result) \<Rightarrow> (nat \<Rightarrow> bool) \<Rightarrow> 'f basic_task
    \<Rightarrow> 'f basic_task \<times> json list \<times> json result" where
  "Execute call seen t =
     (let seen = (\<lambda>i. stop_flag t \<or> seen i) in
      case body t of
        SimpleTask func params returns \<Rightarrow>
          if seen 0 then (t\<lparr>done_flag := True\<rparr>, [], Inr (ToJson t))
          else (case call_fn call func params of
              Inl e \<Rightarrow> (t, [params], Inl e)
            | Inr r \<Rightarrow>
                (let t' = t\<lparr>done_flag := True, body := SimpleTask func params r\<rparr> in
                 (t', [params], Inr (ToJson t'))))
      | ConditionalTask condition params task_fn \<Rightarrow>
          (case call_fn call condition params of
             Inl e \<Rightarrow> (t, [], Inl e)
           | Inr b \<Rightarrow>
               if is_true b then
                 (case call_fn call task_fn params of
                    Inl e \<Rightarrow> (t, [params], Inl e)
                  | Inr _ \<Rightarrow> (t\<lparr>done_flag := True\<rparr>, [params], Inr status_done))
               else (t\<lparr>done_flag := True\<rparr>, [], Inr status_done))
      | LoopTask item_fn params \<Rightarrow>
          (case rbind (j_slot ''items'' params) (\<lambda>v. rbind (j_put ''items'' v params) (\<lambda>p. Inr (v, p))) of
             Inl e \<Rightarrow> (t, [], Inl e)
           | Inr (items, params') \<Rightarrow>
               (let t' = t\<lparr>body := LoopTask item_fn params'\<rparr>;
                    (calls, r) = loop_items call item_fn seen 0 (j_elems items)
                in case r of
                     Inl e \<Rightarrow> (t', calls, Inl e)
                   | Inr _ \<Rightarrow> (t'\<lparr>done_flag := True\<rparr>, calls, Inr status_done)))
      | DaemonTask task_fn \<Rightarrow> (t, [], Inr (JObj [(''status'', JStr ''running'')])))"

definition Stop :: "'f basic_task \<Rightarrow> 'f basic_task \<times> 'f option" where
  "Stop t = (t\<lparr>stop_flag := True\<rparr>, stop_fn t)"

definition set_stop_function :: "'f option \<Rightarrow> 'f basic_task \<Rightarrow> 'f basic_task" where
  "set_stop_function fn t = t\<lparr>stop_fn := fn, can_stop := True\<rparr>"

text \<open>
  The daemon's thread: the number of calls made before the flag is seen. It need not end, so the
  function is partial.
\<close>

partial_function (option) RunTask :: "(nat \<Rightarrow> bool) \<Rightarrow> nat \<Rightarrow> nat option" where
  "RunTask seen i = (if seen i then Some i else RunTask seen (Suc i))"

section \<open>Lemmas\<close>

lemma loop_items_complete:
  assumes "\<forall>x \<in> set xs. \<exists>v. call_fn call fn (JObj [(''item'', x)]) = Inr v"
  shows "loop_items call fn seen i xs =
    (map (\<lambda>x. JObj [(''item'', x)]) (take (length (takeWhile (\<lambda>k. \<not> seen k) [i..<i + length xs])) xs), Inr ())"
  using assms
proof (induction xs arbitrary: i)
  case (Cons x xs)
  then obtain v where v: "call_fn call fn (JObj [(''item'', x)]) = Inr v" by auto
  have up: "[i..<i + length (x # xs)] = i # [Suc i..<Suc i + length xs]"
    by (subst upt_rec) simp
  show ?case unfolding up using Cons v by simp
qed simp

lemma RunTask_returns: "seen (i + n) \<Longrightarrow> \<exists>k. RunTask seen i = Some k \<and> i \<le> k \<and> k \<le> i + n \<and> seen k \<and>
    (\<forall>j. i \<le> j \<longrightarrow> j < k \<longrightarrow> \<not> seen j)"
proof (induction n arbitrary: i)
  case 0
  then show ?case by (subst RunTask.simps) auto
next
  case (Suc n)
  show ?case
  proof (cases "seen i")
    case True
    then show ?thesis by (subst RunTask.simps) auto
  next
    case False
    from Suc.prems have "seen (Suc i + n)" by simp
    from Suc.IH [OF this] obtain k where k: "RunTask seen (Suc i) = Some k" "Suc i \<le> k" "k \<le> Suc i + n"
      "seen k" "\<forall>j. Suc i \<le> j \<longrightarrow> j < k \<longrightarrow> \<not> seen j" by blast
    have "\<not> seen j" if "i \<le> j" "j < k" for j using that k(5) False by (cases "j = i") auto
    with k False show ?thesis by (subst RunTask.simps) auto
  qed
qed

lemma RunTask_Some: "RunTask seen i = Some k \<Longrightarrow> seen k"
  by (erule RunTask.raw_induct [where P = "\<lambda>seen _ k. seen k", rotated]) (auto split: if_splits)

section \<open>Properties\<close>

text \<open>A loop task whose function throws for no item calls it with the items of its parameters in
  order, up to the first reading of the stop flag that finds it set, then is done; a task already
  stopped calls nothing.\<close>

theorem LoopTask_runs_until_stopped:
  assumes "body t = LoopTask (Some f) (JObj m)" and "map_of m ''items'' = Some (JArr xs)"
    and "\<forall>x \<in> set xs. \<exists>v. call f (JObj [(''item'', x)]) = Inr v"
    and "\<forall>i < n. \<not> seen i" and "seen n \<or> n = length xs" and "n \<le> length xs"
  shows "\<exists>t'. Execute call seen t =
      (t', if stop_flag t then [] else map (\<lambda>x. JObj [(''item'', x)]) (take n xs), Inr status_done) \<and>
    done_flag t' \<and> stop_flag t' = stop_flag t"
proof -
  let ?seen = "\<lambda>i. stop_flag t \<or> seen i"
  have c: "\<forall>x \<in> set xs. \<exists>v. call_fn call (Some f) (JObj [(''item'', x)]) = Inr v"
    using assms(3) by (simp add: call_fn_def)
  have n: "length (takeWhile (\<lambda>k. \<not> ?seen k) [0..<length xs]) = (if stop_flag t then 0 else n)"
  proof (cases "stop_flag t")
    case False
    have "[0..<length xs] = [0..<n] @ [n..<length xs]" using upt_add_eq_append [of 0 n "length xs - n"] assms(6) by simp
    moreover have "takeWhile (\<lambda>k. \<not> seen k) [n..<length xs] = []"
      using assms(5,6) by (cases "n = length xs") (auto simp: upt_rec)
    moreover have "takeWhile (\<lambda>k. \<not> seen k) ([0..<n] @ [n..<length xs]) =
        [0..<n] @ takeWhile (\<lambda>k. \<not> seen k) [n..<length xs]"
      using assms(4) by (intro takeWhile_append2) auto
    ultimately show ?thesis using False by simp
  qed (simp add: takeWhile_eq_Nil_iff)
  have "Execute call seen t = (let t' = t\<lparr>body := LoopTask (Some f) (JObj (obj_put ''items'' (JArr xs) m))\<rparr>;
      (calls, r) = loop_items call (Some f) ?seen 0 xs
    in case r of Inl e \<Rightarrow> (t', calls, Inl e) | Inr _ \<Rightarrow> (t'\<lparr>done_flag := True\<rparr>, calls, Inr status_done))"
    using assms(1,2) by (simp add: Execute_def Let_def)
  with loop_items_complete [OF c, of ?seen 0] n show ?thesis by simp
qed

lemma LoopTask_runs_until_stopped_witness:
  "fst (snd (Execute (\<lambda>_ _. Inr JNull) (\<lambda>i. i = 1)
      (make_LoopTask 0 (Some ()) (JObj [(''items'', JArr [JInt 1, JInt 2])]) None))) = [JObj [(''item'', JInt 1)]]"
proof -
  let ?t = "make_LoopTask 0 (Some ()) (JObj [(''items'', JArr [JInt 1, JInt 2])]) None"
  have "body ?t = LoopTask (Some ()) (JObj [(''items'', JArr [JInt 1, JInt 2])])" "\<not> stop_flag ?t"
    by (simp_all add: make_LoopTask_def BasicTask_def)
  then show ?thesis
    using LoopTask_runs_until_stopped [of ?t "()" "[(''items'', JArr [JInt 1, JInt 2])]"
        "[JInt 1, JInt 2]" "\<lambda>_ _. Inr JNull" 1 "\<lambda>i. i = 1"] by auto
qed

text \<open>The thread of a daemon task ends exactly when some reading of the stop flag finds it set,
  after as many calls as there are readings before the first such one.\<close>

theorem RunTask_ends_iff_stopped:
  "(case RunTask seen 0 of
      Some n \<Rightarrow> seen n \<and> (\<forall>j < n. \<not> seen j)
    | None \<Rightarrow> \<forall>j. \<not> seen j)"
proof (cases "\<exists>n. seen n")
  case True
  then obtain n where "seen (0 + n)" by auto
  from RunTask_returns [of seen 0 n, OF this] show ?thesis by auto
next
  case False
  then have "RunTask seen 0 = None" using RunTask_Some [of seen 0] by (cases "RunTask seen 0") auto
  with False show ?thesis by simp
qed

lemma RunTask_ends_iff_stopped_witness: "RunTask (\<lambda>i. 3 \<le> i) 0 = Some 3"
proof -
  have "(\<exists>n. RunTask (\<lambda>i. 3 \<le> i) 0 = Some n)"
    using RunTask_ends_iff_stopped [of "\<lambda>i. 3 \<le> i"] by (auto split: option.splits)
  then obtain n where n: "RunTask (\<lambda>i. 3 \<le> i) 0 = Some n" by blast
  with RunTask_ends_iff_stopped [of "\<lambda>i. 3 \<le> i"] have "3 \<le> n" "\<forall>j < n. \<not> 3 \<le> j" by simp_all
  then have "n = 3" by (metis le_neq_implies_less order_refl)
  with n show ?thesis by simp
qed

text \<open>Whatever its constructor asks for, a task reports \<open>can_stop\<close> exactly when it was given a
  stop function; a daemon task, which asks for it, does not report it without one, until
  \<open>set_stop_function\<close> is called with anything.\<close>

theorem can_stop_reported:
  "j_find ''can_stop'' (ToJson (make_SimpleTask junk f params stop arg)) = Some (JBool (stop \<noteq> None)) \<and>
   j_find ''can_stop'' (ToJson (make_DaemonTask junk f stop)) = Some (JBool (stop \<noteq> None)) \<and>
   j_find ''can_stop'' (ToJson (set_stop_function g (make_DaemonTask junk f stop))) = Some (JBool True) \<and>
   j_find ''id'' (ToJson (make_DaemonTask junk f stop)) = Some (JInt junk)"
  by (simp add: ToJson_def ToJson_basic_def make_SimpleTask_def make_DaemonTask_def BasicTask_def
      set_stop_function_def)

end
