(* ===== verification/TaskRunner.thy ===== *)
theory TaskRunner
  imports Task Hashing Config Registry "HOL-Library.Sublist"
begin

text \<open>
  \<open>TaskGenerator\<close> and \<open>TaskManager\<close> of \<open>src/src/components/task/runner.hpp\<close> and
  \<open>runner.cpp\<close>. Tasks are shared objects: the manager holds pointers into a store, so a change made
  through one pointer shows through all. The runner spells the members of a task differently from
  \<open>task.hpp\<close> (\<open>setName\<close> for \<open>set_name\<close> and so on); the model takes them for the same.
\<close>

unbundle bit_operations_syntax

section \<open>Generating tasks\<close>

text \<open>\<open>TaskGenerator::hash\<close>: the recursion on a C string.\<close>

definition fnv_step :: "size_t \<Rightarrow> char \<Rightarrow> size_t" where
  "fnv_step value c = (value XOR schar_size c) * 0x100000001b3"

fun generator_hash :: "size_t \<Rightarrow> string \<Rightarrow> size_t" where
  "generator_hash value [] = value"
| "generator_hash value (c # str) = generator_hash (fnv_step value c) str"

interpretation fnv: byte_hash generator_hash fnv_step
proof unfold_locales
  fix h h' :: size_t and c c'
  have inv: "(14886173955864302971 :: size_t) * 0x100000001b3 = 1" by simp
  show "h = h'" if "fnv_step h c = fnv_step h' c"
  proof -
    from that have "h XOR schar_size c = h' XOR schar_size c"
      unfolding fnv_step_def by (rule odd_factor_cancel [OF inv])
    then have "(h XOR schar_size c) XOR schar_size c = (h' XOR schar_size c) XOR schar_size c" by simp
    then show ?thesis by (simp only: xor.assoc xor_self_eq xor.right_neutral)
  qed
  show "c = c'" if "fnv_step h c = fnv_step h c'"
  proof -
    from that have "h XOR schar_size c = h XOR schar_size c'"
      unfolding fnv_step_def by (rule odd_factor_cancel [OF inv])
    then have "h XOR (h XOR schar_size c) = h XOR (h XOR schar_size c')" by simp
    then have "schar_size c = schar_size c'"
      by (simp only: xor.assoc [symmetric] xor_self_eq xor.left_neutral)
    then show ?thesis by (rule schar_size_inj)
  qed
qed simp_all

text \<open>The functions the generator puts into tasks.\<close>

datatype task_fun = PrintFun | SumFun | ModuleFun string string | StatusPredicate

definition getTaskFunction :: "string \<Rightarrow> string \<Rightarrow> task_fun option" where
  "getTaskFunction funcName moduleName =
     (if funcName = ''Print'' then Some PrintFun
      else if funcName = ''Sum'' then Some SumFun
      else if moduleName \<noteq> [] then Some (ModuleFun moduleName funcName)
      else None)"

text \<open>What a call of such a function does; \<open>load\<close> runs a function of a loaded module.\<close>

definition int_add :: "int \<Rightarrow> int \<Rightarrow> int result" where
  "int_add a b = (if a + b = wrap32 (a + b) then Inr (a + b) else Inl IntOverflow)"

fun sum_elems :: "int \<Rightarrow> json list \<Rightarrow> int result" where
  "sum_elems a [] = Inr a"
| "sum_elems a (b # bs) = rbind (j_get_int b) (\<lambda>n. rbind (int_add a n) (\<lambda>a'. sum_elems a' bs))"

fun call_task_fun :: "(string \<Rightarrow> string \<Rightarrow> unit result) \<Rightarrow> task_fun \<Rightarrow> json \<Rightarrow> json result" where
  "call_task_fun load PrintFun j = Inr JNull"
| "call_task_fun load SumFun j = rbind (sum_elems 0 (j_elems j)) (\<lambda>_. Inr JNull)"
| "call_task_fun load (ModuleFun m f) j = rbind (load m f) (\<lambda>_. Inr JNull)"
| "call_task_fun load StatusPredicate j =
     (if j_contains ''status'' j
      then rbind (j_at ''status'' j) (\<lambda>s. rbind (j_get_int s) (\<lambda>n. Inr (JBool (n = 1))))
      else Inr (JBool False))"

text \<open>
  The conditional task is built with the task function in the place of the condition and the
  predicate in the place of the function, as the arguments stand in the code.
\<close>

definition generateTask :: "int \<Rightarrow> string \<Rightarrow> string \<Rightarrow> string \<Rightarrow> json \<Rightarrow> string \<Rightarrow> string
    \<Rightarrow> task_fun basic_task option" where
  "generateTask junk taskType taskName desc params moduleName funcName =
     (let taskFunction = getTaskFunction funcName moduleName;
          task = (if taskType = ''simple'' then Some (make_SimpleTask junk taskFunction params None False)
                  else if taskType = ''conditional'' then
                    Some (make_ConditionalTask junk taskFunction params (Some StatusPredicate) None)
                  else if taskType = ''loop'' then Some (make_LoopTask junk taskFunction params None)
                  else None)
      in map_option (\<lambda>t. t\<lparr>task_name := taskName, description := desc\<rparr>) task)"

definition generate_one :: "int \<Rightarrow> json \<Rightarrow> task_fun basic_task option result" where
  "generate_one junk taskJson =
     (if \<not> j_contains ''type'' taskJson \<or> \<not> j_contains ''name'' taskJson
        \<or> \<not> j_contains ''description'' taskJson then Inr None
      else
        rbind (rbind (j_at ''type'' taskJson) j_get_string) (\<lambda>type.
        rbind (rbind (j_at ''name'' taskJson) j_get_string) (\<lambda>name.
        rbind (rbind (j_at ''description'' taskJson) j_get_string) (\<lambda>desc.
        rbind (j_value ''params'' (JArr []) taskJson) (\<lambda>params.
        rbind (j_value_string ''module_name'' [] taskJson) (\<lambda>moduleName.
        rbind (j_value_string ''func_name'' [] taskJson) (\<lambda>funcName.
          Inr (generateTask junk type name desc params moduleName funcName))))))))"

fun generate_all :: "int \<Rightarrow> json list \<Rightarrow> task_fun basic_task list result" where
  "generate_all junk [] = Inr []"
| "generate_all junk (j # js) =
     rbind (generate_one junk j) (\<lambda>t. rbind (generate_all junk js) (\<lambda>ts.
       Inr (case t of None \<Rightarrow> ts | Some t \<Rightarrow> t # ts)))"

definition generateTasksFromJson :: "int \<Rightarrow> json \<Rightarrow> task_fun basic_task list result" where
  "generateTasksFromJson junk tasksJson =
     (case j_find ''tasks'' tasksJson of
        None \<Rightarrow> Inr []
      | Some v \<Rightarrow> generate_all junk (j_elems v))"

definition generateTasksFromFile :: "int \<Rightarrow> file_content \<Rightarrow> task_fun basic_task list result" where
  "generateTasksFromFile junk file =
     (case file of Parsed j \<Rightarrow> generateTasksFromJson junk j | _ \<Rightarrow> Inr [])"

section \<open>The list of tasks\<close>

type_synonym 'f store = "nat \<Rightarrow> 'f basic_task"

record 'f runner =
  store :: "'f store"
  m_taskList :: "nat list"
  m_completedTaskCount :: nat
  skipList :: "int list"
  m_StopFlag :: bool
  m_CurrentTask :: "nat option"

definition set_can_execute :: "bool \<Rightarrow> nat \<Rightarrow> 'f runner \<Rightarrow> 'f runner" where
  "set_can_execute b p r = r\<lparr>store := (store r)(p := (store r p)\<lparr>can_execute := b\<rparr>)\<rparr>"

definition name_at :: "'f runner \<Rightarrow> nat \<Rightarrow> string" where
  "name_at r p = task_name (store r p)"

definition addTask :: "nat option \<Rightarrow> bool \<Rightarrow> 'f runner \<Rightarrow> 'f runner" where
  "addTask task canExecute r =
     (case task of
        None \<Rightarrow> r
      | Some p \<Rightarrow> (set_can_execute canExecute p r)\<lparr>m_taskList := m_taskList r @ [p]\<rparr>)"

definition insertTask :: "int \<Rightarrow> nat option \<Rightarrow> bool \<Rightarrow> 'f runner \<Rightarrow> 'f runner" where
  "insertTask taskIndex task canExecute r =
     (case task of
        None \<Rightarrow> r
      | Some p \<Rightarrow>
          (let r = set_can_execute canExecute p r in
           if taskIndex < 0 \<or> taskIndex > int (length (m_taskList r)) then r
           else r\<lparr>m_taskList := insert_at (nat taskIndex) p (m_taskList r)\<rparr>))"

definition modifyTask :: "int \<Rightarrow> nat option \<Rightarrow> bool \<Rightarrow> 'f runner \<Rightarrow> 'f runner" where
  "modifyTask taskIndex task canExecute r =
     (case task of
        None \<Rightarrow> r
      | Some p \<Rightarrow>
          (let r = set_can_execute canExecute p r in
           if taskIndex < 0 \<or> taskIndex \<ge> int (length (m_taskList r)) then r
           else r\<lparr>m_taskList := (m_taskList r)[nat taskIndex := p]\<rparr>))"

definition find_task :: "string \<Rightarrow> 'f runner \<Rightarrow> nat" where
  "find_task name r = find_if (\<lambda>p. name_at r p = name) (m_taskList r)"

definition modifyTaskByName :: "string \<Rightarrow> nat option \<Rightarrow> bool \<Rightarrow> 'f runner \<Rightarrow> 'f runner" where
  "modifyTaskByName name task canExecute r =
     (let i = find_task name r in
      if i = length (m_taskList r) then r
      else (case task of
          None \<Rightarrow> r
        | Some p \<Rightarrow>
            (set_can_execute canExecute p r)\<lparr>m_taskList := (m_taskList r)[i := p]\<rparr>))"

definition drop_skip :: "int \<Rightarrow> int list \<Rightarrow> int list" where
  "drop_skip i sk = (let k = find_if (\<lambda>j. j = i) sk in if k = length sk then sk else erase_at k sk)"

definition deleteTask :: "int \<Rightarrow> 'f runner \<Rightarrow> 'f runner" where
  "deleteTask taskIndex r =
     (if taskIndex < 0 \<or> taskIndex \<ge> int (length (m_taskList r)) then r
      else r\<lparr>skipList := drop_skip taskIndex (skipList r),
             m_taskList := erase_at (nat taskIndex) (m_taskList r)\<rparr>)"

definition deleteTaskByName :: "string \<Rightarrow> 'f runner \<Rightarrow> 'f runner" where
  "deleteTaskByName name r =
     (let i = find_task name r in
      if i = length (m_taskList r) then r
      else r\<lparr>skipList := drop_skip (int i) (skipList r), m_taskList := erase_at i (m_taskList r)\<rparr>)"

definition queryTaskByName :: "string \<Rightarrow> 'f runner \<Rightarrow> 'f basic_task option" where
  "queryTaskByName name r =
     (let i = find_task name r in
      if i = length (m_taskList r) then None else Some (store r (m_taskList r ! i)))"

text \<open>\<open>saveTasksToJson\<close>: the document written; it starts from null, so no task gives null.\<close>

definition saveTasksToJson :: "'f runner \<Rightarrow> json" where
  "saveTasksToJson r =
     (if m_taskList r = [] then JNull
      else JArr (map (\<lambda>p. JObj [(''description'', JStr (description (store r p))),
                                (''id'', JInt (task_id (store r p)))]) (m_taskList r)))"

definition stopTask :: "'f runner \<Rightarrow> 'f runner" where
  "stopTask r =
     (case m_CurrentTask r of
        None \<Rightarrow> r\<lparr>m_StopFlag := True\<rparr>
      | Some p \<Rightarrow>
          r\<lparr>m_StopFlag := True, store := (store r)(p := fst (Stop (store r p))), m_CurrentTask := None\<rparr>)"

section \<open>Running the tasks\<close>

text \<open>
  One pass of \<open>executeAllTasks\<close> while no other thread intervenes: the manager afterwards and the
  tasks begun. An exception of a task is logged and the pass goes on; what is no exception is not
  caught.
\<close>

fun execute_from :: "('f \<Rightarrow> json \<Rightarrow> json result) \<Rightarrow> nat list \<Rightarrow> 'f runner \<Rightarrow> ('f runner \<times> nat list) result" where
  "execute_from call [] r = Inr (r, [])"
| "execute_from call (p # ps) r =
     (if \<not> m_StopFlag r \<and> can_execute (store r p) then
        (case Execute call (\<lambda>_. False) (store r p) of
           (t', _, Inr _) \<Rightarrow>
             rbind (execute_from call ps (r\<lparr>store := (store r)(p := t'),
                 m_completedTaskCount := m_completedTaskCount r + 1, m_CurrentTask := None\<rparr>))
               (\<lambda>(r', ran). Inr (r', p # ran))
         | (t', _, Inl (Throw w)) \<Rightarrow>
             rbind (execute_from call ps (r\<lparr>store := (store r)(p := t'), m_CurrentTask := None\<rparr>))
               (\<lambda>(r', ran). Inr (r', p # ran))
         | (t', _, Inl e) \<Rightarrow> Inl e)
      else execute_from call ps r)"

definition executeAllTasks :: "('f \<Rightarrow> json \<Rightarrow> json result) \<Rightarrow> 'f runner \<Rightarrow> ('f runner \<times> nat list) result" where
  "executeAllTasks call r =
     execute_from call (m_taskList r) (r\<lparr>m_CurrentTask := None, m_StopFlag := False\<rparr>)"

definition executeTaskByName :: "('f \<Rightarrow> json \<Rightarrow> json result) \<Rightarrow> string \<Rightarrow> 'f runner
    \<Rightarrow> ('f runner \<times> nat list) result" where
  "executeTaskByName call name r =
     (let i = find_task name r in
      if i = length (m_taskList r) then Inr (r, [])
      else (let p = m_taskList r ! i in
        if can_execute (store r p)
        then (case Execute call (\<lambda>_. False) (store r p) of
            (t', _, Inl (Throw w)) \<Rightarrow> Inr (r\<lparr>store := (store r)(p := t')\<rparr>, [p])
          | (t', _, Inl e) \<Rightarrow> Inl e
          | (t', _, Inr _) \<Rightarrow> Inr (r\<lparr>store := (store r)(p := t')\<rparr>, [p]))
        else Inr (r, [])))"

text \<open>
  The pass together with another thread that may call \<open>stopTask\<close> at any moment. \<open>pos\<close> counts the
  list positions passed, \<open>busy\<close> is the task being executed as it was when it was begun, \<open>begun\<close>
  are the tasks begun so far.
\<close>

record 'f pass = "'f runner" +
  pos :: nat
  busy :: "'f basic_task option"
  begun :: "nat list"

datatype label = LBegin nat | LFinish | LFail | LSkip | LStop

inductive pass_step :: "('f \<Rightarrow> json \<Rightarrow> json result) \<Rightarrow> 'f pass \<Rightarrow> label \<Rightarrow> 'f pass \<Rightarrow> bool"
  for call :: "'f \<Rightarrow> json \<Rightarrow> json result" where
  begin_task:
    "busy s = None \<Longrightarrow> pos s < length (m_taskList s) \<Longrightarrow> p = m_taskList s ! pos s \<Longrightarrow>
     \<not> m_StopFlag s \<Longrightarrow> can_execute (store s p) \<Longrightarrow>
     pass_step call s (LBegin p)
       (s\<lparr>m_CurrentTask := Some p, busy := Some (store s p), begun := begun s @ [p]\<rparr>)"
| skip_task:
    "busy s = None \<Longrightarrow> pos s < length (m_taskList s) \<Longrightarrow>
     m_StopFlag s \<or> \<not> can_execute (store s (m_taskList s ! pos s)) \<Longrightarrow>
     pass_step call s LSkip (s\<lparr>pos := pos s + 1\<rparr>)"
| finish_task:
    "busy s = Some t \<Longrightarrow> p = m_taskList s ! pos s \<Longrightarrow>
     ((\<exists>i. seen i) \<longrightarrow> stop_flag (store s p)) \<Longrightarrow> Execute call seen t = (t', calls, Inr j) \<Longrightarrow>
     pass_step call s LFinish
       (s\<lparr>store := (store s)(p := t'\<lparr>stop_flag := stop_flag (store s p)\<rparr>),
          m_completedTaskCount := m_completedTaskCount s + 1, m_CurrentTask := None,
          busy := None, pos := pos s + 1\<rparr>)"
| fail_task:
    "busy s = Some t \<Longrightarrow> p = m_taskList s ! pos s \<Longrightarrow>
     ((\<exists>i. seen i) \<longrightarrow> stop_flag (store s p)) \<Longrightarrow> Execute call seen t = (t', calls, Inl (Throw w)) \<Longrightarrow>
     pass_step call s LFail
       (s\<lparr>store := (store s)(p := t'\<lparr>stop_flag := stop_flag (store s p)\<rparr>),
          m_CurrentTask := None, busy := None, pos := pos s + 1\<rparr>)"
| stop_task:
    "pass_step call s LStop
       (case m_CurrentTask s of
          None \<Rightarrow> s\<lparr>m_StopFlag := True\<rparr>
        | Some p \<Rightarrow> s\<lparr>m_StopFlag := True, store := (store s)(p := fst (Stop (store s p))), m_CurrentTask := None\<rparr>)"

inductive_cases pass_stepE: "pass_step call s l s'"

inductive pass_run :: "('f \<Rightarrow> json \<Rightarrow> json result) \<Rightarrow> 'f pass \<Rightarrow> label list \<Rightarrow> 'f pass \<Rightarrow> bool"
  for call :: "'f \<Rightarrow> json \<Rightarrow> json result" where
  run_nil: "pass_run call s [] s"
| run_step: "pass_step call s l s' \<Longrightarrow> pass_run call s' ls s'' \<Longrightarrow> pass_run call s (l # ls) s''"

definition start_pass :: "'f runner \<Rightarrow> 'f pass" where
  "start_pass r =
     \<lparr>store = store r, m_taskList = m_taskList r, m_completedTaskCount = m_completedTaskCount r,
      skipList = skipList r, m_StopFlag = False, m_CurrentTask = None, pos = 0, busy = None, begun = []\<rparr>"

section \<open>Lemmas on passes\<close>

definition count_label :: "label \<Rightarrow> label list \<Rightarrow> nat" where
  "count_label l ls = length (filter (\<lambda>k. k = l) ls)"

fun begins :: "label list \<Rightarrow> nat list" where
  "begins [] = []"
| "begins (LBegin p # ls) = p # begins ls"
| "begins (_ # ls) = begins ls"

lemma stop_flag_sticky: "pass_step call s l s' \<Longrightarrow> m_StopFlag s \<Longrightarrow> m_StopFlag s'"
  by (erule pass_stepE) (auto split: option.splits)

lemma stop_sets_flag: "pass_step call s LStop s' \<Longrightarrow> m_StopFlag s'"
  by (erule pass_stepE) (auto split: option.splits)

lemma no_begin_when_stopped: "pass_step call s (LBegin p) s' \<Longrightarrow> \<not> m_StopFlag s"
  by (erule pass_stepE) auto

lemma stopped_run_begins_nothing: "pass_run call s ls s' \<Longrightarrow> m_StopFlag s \<Longrightarrow> begins ls = []"
proof (induction rule: pass_run.induct)
  case (run_step s l s' ls s'')
  with stop_flag_sticky no_begin_when_stopped show ?case by (cases l) fastforce+
qed simp

lemma pass_run_append:
  "pass_run call s (ks @ ls) s'' \<Longrightarrow> \<exists>s'. pass_run call s ks s' \<and> pass_run call s' ls s''"
proof (induction ks arbitrary: s)
  case Nil
  then show ?case using run_nil by force
next
  case (Cons k ks)
  from Cons.prems obtain t where "pass_step call s k t" "pass_run call t (ks @ ls) s''"
    by (auto elim: pass_run.cases)
  with Cons.IH run_step show ?case by blast
qed

text \<open>Each step keeps the list, and counts what it is named after.\<close>

lemma pass_step_frame:
  "pass_step call s l s' \<Longrightarrow> m_taskList s' = m_taskList s \<and>
     m_completedTaskCount s' = m_completedTaskCount s + (if l = LFinish then 1 else 0) \<and>
     begun s' = begun s @ begins [l] \<and> skipList s' = skipList s"
  by (erule pass_stepE) (auto split: option.splits)

lemma pass_run_frame:
  "pass_run call s ls s' \<Longrightarrow> m_taskList s' = m_taskList s \<and>
     m_completedTaskCount s' = m_completedTaskCount s + count_label LFinish ls \<and>
     begun s' = begun s @ begins ls"
proof (induction rule: pass_run.induct)
  case (run_step s l s' ls s'')
  have "begins (l # ls) = begins [l] @ begins ls" by (cases l) simp_all
  with run_step pass_step_frame [OF run_step(1)] show ?case by (simp add: count_label_def)
qed (simp add: count_label_def)

text \<open>
  The invariant of a pass: the task begun last is the one at \<open>pos\<close>, it is the current task unless
  it was stopped, and the tasks begun are a subsequence of the positions passed.
\<close>

definition pass_ok :: "'f pass \<Rightarrow> bool" where
  "pass_ok s \<longleftrightarrow>
     pos s \<le> length (m_taskList s) \<and>
     (busy s \<noteq> None \<longrightarrow> pos s < length (m_taskList s) \<and>
        (m_CurrentTask s = (if m_StopFlag s then None else Some (m_taskList s ! pos s)))) \<and>
     (busy s = None \<longrightarrow> m_CurrentTask s = None) \<and>
     subseq (begun s) (take (pos s + (if busy s = None then 0 else 1)) (m_taskList s))"

lemma subseq_snoc: "subseq xs ys \<Longrightarrow> subseq xs (ys @ [y])" "subseq xs ys \<Longrightarrow> subseq (xs @ [y]) (ys @ [y])"
proof -
  assume h: "subseq xs ys"
  have "subseq ys (ys @ [y])" by (simp add: prefix_imp_subseq)
  with h show "subseq xs (ys @ [y])" by (rule subseq_order.trans)
  from h show "subseq (xs @ [y]) (ys @ [y])" by (simp add: subseq_append)
qed

lemma pass_ok_step:
  assumes "pass_step call s l s'" "pass_ok s"
  shows "pass_ok s'"
  using assms
proof (cases rule: pass_step.cases)
  case (begin_task p)
  then show ?thesis
    using assms(2) subseq_snoc(2) [of "begun s" "take (pos s) (m_taskList s)"]
    by (auto simp: pass_ok_def take_Suc_conv_app_nth)
next
  case skip_task
  then show ?thesis
    using assms(2) subseq_snoc(1) [of "begun s" "take (pos s) (m_taskList s)"]
    by (auto simp: pass_ok_def take_Suc_conv_app_nth)
next
  case stop_task
  then show ?thesis using assms(2) by (auto simp: pass_ok_def split: option.splits if_splits)
qed (use assms(2) in \<open>auto simp: pass_ok_def\<close>)

lemma pass_ok_run: "pass_run call s ls s' \<Longrightarrow> pass_ok s \<Longrightarrow> pass_ok s'"
  by (induction rule: pass_run.induct) (auto intro: pass_ok_step)

lemma pass_ok_start: "pass_ok (start_pass r)"
  by (simp add: pass_ok_def start_pass_def)

text \<open>Executing a task changes neither its name nor its flags.\<close>

lemma Execute_frame:
  "Execute call seen t = (t', calls, res) \<Longrightarrow>
     can_execute t' = can_execute t \<and> task_name t' = task_name t \<and> stop_flag t' = stop_flag t"
  by (cases "body t") (auto simp: Execute_def Let_def split: sum.splits if_splits prod.splits)

lemma execute_from_spec:
  "execute_from call ps r = Inr (r', ps1) \<Longrightarrow> \<not> m_StopFlag r \<Longrightarrow>
     ps1 = filter (\<lambda>p. can_execute (store r p)) ps \<and> m_taskList r' = m_taskList r \<and> \<not> m_StopFlag r' \<and>
     m_CurrentTask r' \<in> {None, m_CurrentTask r} \<and>
     (\<forall>p. can_execute (store r' p) = can_execute (store r p) \<and> task_name (store r' p) = task_name (store r p)) \<and>
     m_completedTaskCount r \<le> m_completedTaskCount r' \<and>
     m_completedTaskCount r' \<le> m_completedTaskCount r + length ps1"
proof (induction ps arbitrary: r r' ps1)
  case (Cons p ps)
  show ?case
  proof (cases "can_execute (store r p)")
    case False
    with Cons show ?thesis by simp
  next
    case True
    obtain t' calls res where e: "Execute call (\<lambda>_. False) (store r p) = (t', calls, res)"
      by (metis prod_cases3)
    note f = Execute_frame [OF e]
    let ?r = "\<lambda>c. r\<lparr>store := (store r)(p := t'), m_completedTaskCount := c, m_CurrentTask := None\<rparr>"
    have step: "\<exists>c ps1'. execute_from call ps (?r c) = Inr (r', ps1') \<and> ps1 = p # ps1' \<and>
        m_completedTaskCount r \<le> c \<and> c \<le> m_completedTaskCount r + 1"
      if "m_completedTaskCount r \<le> c \<and> c \<le> m_completedTaskCount r + 1"
        and eq: "execute_from call (p # ps) r =
          rbind (execute_from call ps (?r c)) (\<lambda>(r', ps1'). Inr (r', p # ps1'))" for c
    proof -
      from Cons.prems(1) eq have "rbind (execute_from call ps (?r c)) (\<lambda>(r', ps1'). Inr (r', p # ps1')) = Inr (r', ps1)"
        by (rule trans [OF sym, rotated])
      then show ?thesis using that(1) by (auto simp: rbind_Inr_iff)
    qed
    have "\<exists>c ps1'. execute_from call ps
        (r\<lparr>store := (store r)(p := t'), m_completedTaskCount := c, m_CurrentTask := None\<rparr>) = Inr (r', ps1') \<and>
        ps1 = p # ps1' \<and> m_completedTaskCount r \<le> c \<and> c \<le> m_completedTaskCount r + 1"
    proof (cases res)
      case (Inr j)
      with Cons.prems(2) True e show ?thesis by (intro step [of "m_completedTaskCount r + 1"]) simp_all
    next
      case (Inl x)
      with Cons.prems True e obtain w where "x = Throw w" by (cases x) simp_all
      with Inl Cons.prems(2) True e show ?thesis by (intro step [of "m_completedTaskCount r"]) simp_all
    qed
    then obtain c ps1' where c: "execute_from call ps
        (r\<lparr>store := (store r)(p := t'), m_completedTaskCount := c, m_CurrentTask := None\<rparr>) = Inr (r', ps1')"
      "ps1 = p # ps1'" "m_completedTaskCount r \<le> c" "c \<le> m_completedTaskCount r + 1" by blast
    let ?s = "r\<lparr>store := (store r)(p := t'), m_completedTaskCount := c, m_CurrentTask := None\<rparr>"
    have same: "can_execute (store ?s q) = can_execute (store r q)" "task_name (store ?s q) = task_name (store r q)" for q
      using f by auto
    from Cons.prems(2) have "\<not> m_StopFlag ?s" by simp
    note IH = Cons.IH [OF c(1) this, unfolded same]
    have "filter (\<lambda>p. can_execute (store r p)) (p # ps) = p # ps1'" using IH True by simp
    moreover have "m_completedTaskCount r' \<le> m_completedTaskCount r + length ps1"
    proof -
      have "m_completedTaskCount r' \<le> c + length ps1'" using IH by (elim conjE) simp
      with c(4) show ?thesis unfolding c(2) by simp
    qed
    ultimately show ?thesis using IH c(2,3) by simp
  qed
qed simp

definition only_throws :: "('f \<Rightarrow> json \<Rightarrow> json result) \<Rightarrow> bool" where
  "only_throws call \<longleftrightarrow> (\<forall>f x e. call f x = Inl e \<longrightarrow> (\<exists>w. e = Throw w))"

lemma loop_items_Throw:
  assumes "only_throws call"
  shows "loop_items call fn seen i xs = (calls, Inl e) \<Longrightarrow> \<exists>w. e = Throw w"
proof (induction xs arbitrary: i calls)
  case (Cons x xs)
  then show ?case
    using assms by (auto simp: only_throws_def call_fn_def split: if_splits option.splits sum.splits prod.splits)
qed simp

lemma Execute_Throw:
  assumes "only_throws call"
  shows "Execute call seen t = (t', calls, Inl e) \<Longrightarrow> \<exists>w. e = Throw w"
proof -
  have c: "call_fn call fn x = Inl e' \<Longrightarrow> \<exists>w. e' = Throw w" for fn x e'
    using assms by (auto simp: only_throws_def call_fn_def split: option.splits)
  have i: "rbind (j_slot ''items'' p) (\<lambda>v. rbind (j_put ''items'' v p) (\<lambda>q. Inr (v, q))) = Inl e' \<Longrightarrow>
      \<exists>w. e' = Throw w" for p e'
    by (cases p) (auto split: option.splits)
  show "Execute call seen t = (t', calls, Inl e) \<Longrightarrow> \<exists>w. e = Throw w"
    using c i loop_items_Throw [OF assms]
    by (cases "body t") (fastforce simp: Execute_def Let_def split: if_splits sum.splits prod.splits)+
qed

lemma execute_from_total:
  assumes "only_throws call"
  shows "\<exists>r' ps1. execute_from call ps r = Inr (r', ps1)"
proof (induction ps arbitrary: r)
  case (Cons p ps)
  obtain t' calls res where e: "Execute call (\<lambda>_. False) (store r p) = (t', calls, res)"
    by (metis prod_cases3)
  show ?case
  proof (cases res)
    case (Inl x)
    with e have "Execute call (\<lambda>_. False) (store r p) = (t', calls, Inl x)" by simp
    from Execute_Throw [OF assms this] obtain w where "x = Throw w" by blast
    with Inl e Cons show ?thesis by (auto simp: rbind_Inr_iff split_beta)
  next
    case (Inr j)
    with e Cons show ?thesis by (auto simp: rbind_Inr_iff split_beta)
  qed
qed simp

section \<open>The pass without a second thread is a run of the steps\<close>

text \<open>The manager a pass works on, and the pass at a position where no task is being executed.\<close>

definition pass_at :: "'f runner \<Rightarrow> nat \<Rightarrow> nat list \<Rightarrow> 'f pass" where
  "pass_at r i done_ps =
     \<lparr>store = store r, m_taskList = m_taskList r, m_completedTaskCount = m_completedTaskCount r,
      skipList = skipList r, m_StopFlag = m_StopFlag r, m_CurrentTask = m_CurrentTask r,
      pos = i, busy = None, begun = done_ps\<rparr>"

lemma pass_at_simps [simp]:
  "store (pass_at r i d) = store r" "m_taskList (pass_at r i d) = m_taskList r" "pos (pass_at r i d) = i"
  "m_StopFlag (pass_at r i d) = m_StopFlag r" "busy (pass_at r i d) = None" "begun (pass_at r i d) = d"
  "m_completedTaskCount (pass_at r i d) = m_completedTaskCount r"
  by (simp_all add: pass_at_def)

lemma Execute_flag_restored:
  "Execute call seen t = (t', calls, res) \<Longrightarrow> t'\<lparr>stop_flag := stop_flag t\<rparr> = t'"
  using Execute_frame [of call seen t t' calls res] by (cases t') simp

lemma step_task_done:
  assumes "i < length (m_taskList r)" "p = m_taskList r ! i" "\<not> m_StopFlag r" "can_execute (store r p)"
    and "m_CurrentTask r = None"
    and e: "Execute call (\<lambda>_. False) (store r p) = (t', calls, Inr j)"
  shows "pass_run call (pass_at r i d) [LBegin p, LFinish]
    (pass_at (r\<lparr>store := (store r)(p := t'), m_completedTaskCount := m_completedTaskCount r + 1,
       m_CurrentTask := None\<rparr>) (i + 1) (d @ [p]))"
proof -
  let ?s = "(pass_at r i d)\<lparr>m_CurrentTask := Some p, busy := Some (store r p), begun := d @ [p]\<rparr>"
  have "pass_step call (pass_at r i d) (LBegin p) ?s"
    using begin_task [of "pass_at r i d" p call] assms by simp
  moreover have "pass_step call ?s LFinish
      (?s\<lparr>store := (store ?s)(p := t'\<lparr>stop_flag := stop_flag (store ?s p)\<rparr>),
          m_completedTaskCount := m_completedTaskCount ?s + 1, m_CurrentTask := None,
          busy := None, pos := pos ?s + 1\<rparr>)"
    using assms(2) e by (intro finish_task [where t = "store r p" and seen = "\<lambda>_. False"]) simp_all
  ultimately have "pass_run call (pass_at r i d) [LBegin p, LFinish]
      (?s\<lparr>store := (store r)(p := t'), m_completedTaskCount := m_completedTaskCount r + 1,
          m_CurrentTask := None, busy := None, pos := i + 1\<rparr>)"
    using Execute_flag_restored [OF e] by (auto intro: run_step run_nil)
  then show ?thesis by (simp add: pass_at_def)
qed

lemma step_task_failed:
  assumes "i < length (m_taskList r)" "p = m_taskList r ! i" "\<not> m_StopFlag r" "can_execute (store r p)"
    and "m_CurrentTask r = None"
    and e: "Execute call (\<lambda>_. False) (store r p) = (t', calls, Inl (Throw w))"
  shows "pass_run call (pass_at r i d) [LBegin p, LFail]
    (pass_at (r\<lparr>store := (store r)(p := t'), m_CurrentTask := None\<rparr>) (i + 1) (d @ [p]))"
proof -
  let ?s = "(pass_at r i d)\<lparr>m_CurrentTask := Some p, busy := Some (store r p), begun := d @ [p]\<rparr>"
  have "pass_step call (pass_at r i d) (LBegin p) ?s"
    using begin_task [of "pass_at r i d" p call] assms by simp
  moreover have "pass_step call ?s LFail
      (?s\<lparr>store := (store ?s)(p := t'\<lparr>stop_flag := stop_flag (store ?s p)\<rparr>),
          m_CurrentTask := None, busy := None, pos := pos ?s + 1\<rparr>)"
    using assms(2) e by (intro fail_task [where t = "store r p" and seen = "\<lambda>_. False"]) simp_all
  ultimately have "pass_run call (pass_at r i d) [LBegin p, LFail]
      (?s\<lparr>store := (store r)(p := t'), m_CurrentTask := None, busy := None, pos := i + 1\<rparr>)"
    using Execute_flag_restored [OF e] by (auto intro: run_step run_nil)
  then show ?thesis by (simp add: pass_at_def)
qed

lemma pass_run_trans:
  "pass_run call s ks s' \<Longrightarrow> pass_run call s' ls s'' \<Longrightarrow> pass_run call s (ks @ ls) s''"
  by (induction rule: pass_run.induct) (auto intro: run_step)

lemma execute_from_is_run:
  "execute_from call ps r = Inr (r', ps1) \<Longrightarrow> m_taskList r = qs @ ps \<Longrightarrow> \<not> m_StopFlag r \<Longrightarrow>
     m_CurrentTask r = None \<Longrightarrow>
     \<exists>ls. pass_run call (pass_at r (length qs) d) ls (pass_at r' (length (m_taskList r)) (d @ ps1)) \<and>
       LStop \<notin> set ls"
proof (induction ps arbitrary: r ps1 qs d)
  case Nil
  then show ?case by (intro exI [of _ "[]"]) (auto intro: run_nil)
next
  case (Cons p ps)
  let ?i = "length qs"
  have i: "?i < length (m_taskList r)" "p = m_taskList r ! ?i" using Cons.prems(2) by simp_all
  have qs: "m_taskList r = (qs @ [p]) @ ps" "length (qs @ [p]) = ?i + 1" using Cons.prems(2) by simp_all
  show ?case
  proof (cases "can_execute (store r p)")
    case False
    then have "pass_step call (pass_at r ?i d) LSkip ((pass_at r ?i d)\<lparr>pos := ?i + 1\<rparr>)"
      using skip_task [of "pass_at r ?i d" call] i by simp
    moreover have "(pass_at r ?i d)\<lparr>pos := ?i + 1\<rparr> = pass_at r (length (qs @ [p])) d" by (simp add: pass_at_def)
    moreover have "execute_from call ps r = Inr (r', ps1)" using False Cons.prems(1) by simp
    from Cons.IH [OF this qs(1) Cons.prems(3,4)] obtain ls where
      "pass_run call (pass_at r (length (qs @ [p])) d) ls (pass_at r' (length (m_taskList r)) (d @ ps1))"
      "LStop \<notin> set ls" by blast
    ultimately show ?thesis by (intro exI [of _ "LSkip # ls"]) (auto intro: run_step)
  next
    case True
    obtain t' calls res where e: "Execute call (\<lambda>_. False) (store r p) = (t', calls, res)"
      by (metis prod_cases3)
    have run: "\<exists>ls. pass_run call (pass_at r ?i d) ls (pass_at r' (length (m_taskList r)) (d @ ps1)) \<and> LStop \<notin> set ls"
      if first: "pass_run call (pass_at r ?i d) ks (pass_at r1 (?i + 1) (d @ [p]))" "LStop \<notin> set ks"
        and r1: "m_taskList r1 = m_taskList r" "\<not> m_StopFlag r1" "m_CurrentTask r1 = None"
        and rest: "rbind (execute_from call ps r1) (\<lambda>(r', done_ps). Inr (r', p # done_ps)) = Inr (r', ps1)"
      for ks and r1 :: "'a runner"
    proof -
      from rest obtain ps1' where "execute_from call ps r1 = Inr (r', ps1')" "ps1 = p # ps1'"
        by (auto simp: rbind_Inr_iff)
      with Cons.IH [of r1 ps1' "qs @ [p]" "d @ [p]"] r1 qs obtain ls where
        "pass_run call (pass_at r1 (?i + 1) (d @ [p])) ls (pass_at r' (length (m_taskList r)) (d @ ps1))"
        "LStop \<notin> set ls" by auto
      with pass_run_trans [OF first(1)] first(2) show ?thesis by (intro exI [of _ "ks @ ls"]) auto
    qed
    show ?thesis
    proof (cases res)
      case (Inr j)
      with e have e': "Execute call (\<lambda>_. False) (store r p) = (t', calls, Inr j)" by simp
      show ?thesis
        by (rule run [OF step_task_done [OF i Cons.prems(3) True Cons.prems(4) e']])
          (use Cons.prems True e' in simp_all)
    next
      case (Inl x)
      with e Cons.prems True obtain w where "x = Throw w" by (cases x) simp_all
      with Inl e have e': "Execute call (\<lambda>_. False) (store r p) = (t', calls, Inl (Throw w))" by simp
      show ?thesis
        by (rule run [OF step_task_failed [OF i Cons.prems(3) True Cons.prems(4) e']])
          (use Cons.prems True e' in simp_all)
    qed
  qed
qed

section \<open>The list as a registry\<close>

definition task_names :: "'f runner \<Rightarrow> string list" where
  "task_names r = map (name_at r) (m_taskList r)"

lemma name_at_set_can_execute [simp]: "name_at (set_can_execute b p r) = name_at r"
  by (auto simp: name_at_def set_can_execute_def)

lemma set_can_execute_frame [simp]: "m_taskList (set_can_execute b p r) = m_taskList r"
  by (simp add: set_can_execute_def)

lemma name_at_cong: "store r' = store r \<Longrightarrow> name_at r' = name_at r"
  by (auto simp: name_at_def)

lemma name_at_list_update [simp]: "name_at (r\<lparr>skipList := sk, m_taskList := ps\<rparr>) = name_at r"
  by (rule name_at_cong) simp

interpretation tasks: named_registry task_names deleteTaskByName "\<lambda>p. addTask (Some p) True" name_at
proof unfold_locales
  fix n and s :: "'a runner"
  show "task_names (deleteTaskByName n s) = remove1 n (task_names s)"
    using map_erase_find_if [of "name_at s" n "m_taskList s"]
    by (auto simp: task_names_def deleteTaskByName_def Let_def find_task_def name_at_def)
next
  fix p and s :: "'a runner"
  have "name_at (addTask (Some p) True s) = name_at s"
    by (simp add: addTask_def name_at_cong [of _ "set_can_execute True p s"])
  then show "task_names (addTask (Some p) True s) = task_names s @ [name_at s p]"
    by (simp add: task_names_def addTask_def)
next
  fix y x and s :: "'a runner"
  show "name_at (addTask (Some y) True s) x = name_at s x"
    by (simp add: addTask_def name_at_cong [of _ "set_can_execute True y s"])
qed

section \<open>Properties\<close>





text \<open>The list under its operations by name: adding appends the task's name, deleting by name
  removes the first entry of that name and no other, deletions commute, and a name not in the list
  changes nothing; inserting at a position and deleting that position gives the list back.\<close>

theorem task_list_registry:
  "task_names (addTask (Some p) True r) = task_names r @ [name_at r p] \<and>
   task_names (deleteTaskByName n r) = remove1 n (task_names r) \<and>
   task_names (deleteTaskByName m (deleteTaskByName n r)) = task_names (deleteTaskByName n (deleteTaskByName m r)) \<and>
   (name_at r p \<notin> set (task_names r) \<longrightarrow>
      task_names (deleteTaskByName (name_at r p) (addTask (Some p) True r)) = task_names r) \<and>
   (0 \<le> i \<and> i \<le> int (length (m_taskList r)) \<longrightarrow>
      m_taskList (deleteTask i (insertTask i (Some p) b r)) = m_taskList r)"
proof -
  have "m_taskList (deleteTask i (insertTask i (Some p) b r)) = m_taskList r"
    if "0 \<le> i" "i \<le> int (length (m_taskList r))"
  proof -
    from that have n: "nat i \<le> length (m_taskList r)" by simp
    with that show ?thesis
      by (simp add: deleteTask_def insertTask_def Let_def length_insert_at [OF n] erase_insert_at)
  qed
  then show ?thesis
    using tasks.names_append [of p r] tasks.names_delete [of n r] tasks.delete_commute [of m n r]
      tasks.append_delete_fresh [of r p] by simp
qed

lemma task_list_registry_witness:
  "m_taskList (deleteTask 1 (insertTask 1 (Some 9) True
     \<lparr>store = (\<lambda>p. make_SimpleTask 0 (Some ()) JNull None False), m_taskList = [4, 5],
      m_completedTaskCount = 0, skipList = [], m_StopFlag = False, m_CurrentTask = None\<rparr>)) = [4, 5]"
  using task_list_registry [where i = 1 and p = 9 and b = True and
      r = "\<lparr>store = (\<lambda>p. make_SimpleTask 0 (Some ()) JNull None False), m_taskList = [4, 5],
      m_completedTaskCount = 0, skipList = [], m_StopFlag = False, m_CurrentTask = None\<rparr>"] by simp

definition entry_complete :: "json \<Rightarrow> bool" where
  "entry_complete j \<longleftrightarrow> (\<forall>k \<in> {''type'', ''name'', ''description''}. j_contains k j)"

definition entry_strings :: "json \<Rightarrow> bool" where
  "entry_strings j \<longleftrightarrow> (\<forall>k \<in> {''type'', ''name'', ''description'', ''module_name'', ''func_name''}.
     \<forall>v. j_find k j = Some v \<longrightarrow> (\<exists>s. v = JStr s))"

definition str_field :: "string \<Rightarrow> json \<Rightarrow> string" where
  "str_field k j = (case j_find k j of Some (JStr s) \<Rightarrow> s | _ \<Rightarrow> [])"

definition entry_task :: "int \<Rightarrow> json \<Rightarrow> task_fun basic_task option" where
  "entry_task junk j =
     (if entry_complete j then
        generateTask junk (str_field ''type'' j) (str_field ''name'' j) (str_field ''description'' j)
          (case j_find ''params'' j of None \<Rightarrow> JArr [] | Some p \<Rightarrow> p)
          (str_field ''module_name'' j) (str_field ''func_name'' j)
      else None)"

lemma generate_one_strings:
  assumes "entry_complete j \<longrightarrow> entry_strings j"
  shows "generate_one junk j = Inr (entry_task junk j)"
proof (cases "entry_complete j")
  case False
  then show ?thesis by (auto simp: generate_one_def entry_task_def entry_complete_def)
next
  case True
  then obtain m where m: "j = JObj m" by (cases j) (auto simp: entry_complete_def j_contains_def)
  from True assms m obtain ty nm ds where f: "map_of m ''type'' = Some (JStr ty)"
    "map_of m ''name'' = Some (JStr nm)" "map_of m ''description'' = Some (JStr ds)"
    by (fastforce simp: entry_complete_def entry_strings_def j_contains_def)
  from True assms m have o: "map_of m k = Some v \<Longrightarrow> \<exists>s. v = JStr s"
    if "k \<in> {''module_name'', ''func_name''}" for k v
    using that by (auto simp: entry_strings_def)
  have "j_value_string k [] j = Inr (str_field k j)" if "k \<in> {''module_name'', ''func_name''}" for k
    using o [OF that] m by (cases "map_of m k") (auto simp: str_field_def)
  then have "j_value_string ''module_name'' [] j = Inr (str_field ''module_name'' j)"
    "j_value_string ''func_name'' [] j = Inr (str_field ''func_name'' j)" by simp_all
  with True m f show ?thesis
    by (cases "map_of m ''params''")
      (simp_all add: generate_one_def entry_task_def str_field_def j_contains_def)
qed

lemma generate_all_strings:
  "\<forall>j \<in> set js. entry_complete j \<longrightarrow> entry_strings j \<Longrightarrow>
     generate_all junk js = Inr (List.map_filter (entry_task junk) js)"
  by (induction js) (auto simp: generate_one_strings List.map_filter_simps split: option.split)

lemma j_get_string_Throw: "j_get_string v = Inl e \<Longrightarrow> \<exists>w. e = Throw w"
  by (cases v) auto

lemma j_at_present: "j_contains k j \<Longrightarrow> \<exists>v. j_at k j = Inr v \<and> j_find k j = Some v"
  by (cases j) (auto simp: j_contains_def)

lemma generate_one_Throw: "generate_one junk j = Inl e \<Longrightarrow> \<exists>w. e = Throw w"
proof -
  assume g: "generate_one junk j = Inl e"
  then obtain m where m: "j = JObj m"
    by (cases j) (auto simp: generate_one_def j_contains_def)
  have v: "j_value_string k d j = Inl e' \<Longrightarrow> \<exists>w. e' = Throw w" for k d e'
    using m j_get_string_Throw by (auto split: option.splits)
  have p: "j_value k d j = Inl e' \<Longrightarrow> \<exists>w. e' = Throw w" for k d e'
    using m by (auto split: option.splits)
  have s: "j_contains k j \<Longrightarrow> rbind (j_at k j) j_get_string = Inl e' \<Longrightarrow> \<exists>w. e' = Throw w" for k e'
    using j_at_present [of k j] j_get_string_Throw by auto
  show ?thesis
    using g s p v unfolding generate_one_def
    by (auto simp del: j_value.simps j_value_string.simps simp: rbind_Inl_iff split: if_splits)
qed

lemma generate_one_bad_type:
  assumes "entry_complete j" "j_find ''type'' j = Some v" "\<nexists>s. v = JStr s"
  shows "\<exists>w. generate_one junk j = Inl (Throw w)"
proof -
  have "j_get_string v = Inl (Throw ''type_error.302'')" using assms(3) by (cases v) auto
  moreover have "j_at ''type'' j = Inr v" using assms(2) by (cases j) auto
  ultimately show ?thesis using assms(1) by (auto simp: generate_one_def entry_complete_def)
qed

lemma generate_all_bad:
  assumes "j \<in> set js" "entry_complete j" "j_find ''type'' j = Some v" "\<nexists>s. v = JStr s"
  shows "\<exists>w. generate_all junk js = Inl (Throw w)"
  using assms(1)
proof (induction js)
  case (Cons i js)
  show ?case
  proof (cases "generate_one junk i")
    case (Inl e)
    with generate_one_Throw [OF Inl] show ?thesis by auto
  next
    case (Inr t)
    then have "i \<noteq> j" using generate_one_bad_type [OF assms(2-4), of junk] by auto
    with Cons Inr show ?thesis by auto
  qed
qed simp



end
