(* ===== verification/DeviceManager.thy ===== *)
theory DeviceManager
  imports Strings Json
begin

text \<open>
  \<open>DeviceManager\<close> of \<open>src/src/components/device/device_manager.hpp\<close> and \<open>device_manager.cpp\<close>: an
  array of six vectors of shared pointers, one vector per device type. A device is its class and
  name; \<open>disconnected\<close> records, in order, the devices whose \<open>disconnect\<close> was called.
\<close>

section \<open>Device types\<close>

datatype DeviceType = Camera | Telescope | Focuser | FilterWheel | Solver | Guider | NumDeviceTypes

fun type_index :: "DeviceType \<Rightarrow> nat" where
  "type_index Camera = 0"
| "type_index Telescope = 1"
| "type_index Focuser = 2"
| "type_index FilterWheel = 3"
| "type_index Solver = 4"
| "type_index Guider = 5"
| "type_index NumDeviceTypes = 6"

lemma type_index_inject [simp]: "type_index s = type_index t \<longleftrightarrow> s = t"
  by (cases s; cases t) simp_all

text \<open>The order of the enumerators, in which the code compares the types.\<close>

instantiation DeviceType :: linorder
begin

definition less_eq_DeviceType :: "DeviceType \<Rightarrow> DeviceType \<Rightarrow> bool" where
  "s \<le> t \<longleftrightarrow> type_index s \<le> type_index t"

definition less_DeviceType :: "DeviceType \<Rightarrow> DeviceType \<Rightarrow> bool" where
  "s < t \<longleftrightarrow> type_index s < type_index t"

instance
  by standard (auto simp: less_eq_DeviceType_def less_DeviceType_def)

end

section \<open>State\<close>

record managed =
  dev_class :: DeviceType
  getName :: string

record device_manager =
  m_devices :: "managed option list list"
  disconnected :: "managed list"

text \<open>The constructor puts one null pointer into every vector.\<close>

definition new_DeviceManager :: device_manager where
  "new_DeviceManager = \<lparr>m_devices = replicate 6 [None], disconnected = []\<rparr>"

definition destroy_DeviceManager :: "device_manager \<Rightarrow> managed list" where
  "destroy_DeviceManager dm =
     disconnected dm @ concat (map (\<lambda>devices. List.map_filter id devices) (m_devices dm))"

definition devices_of :: "DeviceType \<Rightarrow> device_manager \<Rightarrow> managed option list result" where
  "devices_of type dm =
     (if type_index type < length (m_devices dm) then Inr (m_devices dm ! type_index type)
      else Inl OutOfBounds)"

definition has_name :: "string \<Rightarrow> managed option \<Rightarrow> bool" where
  "has_name name device \<longleftrightarrow> (case device of None \<Rightarrow> False | Some d \<Rightarrow> getName d = name)"

section \<open>Operations\<close>

definition getDeviceList :: "DeviceType \<Rightarrow> device_manager \<Rightarrow> string list result" where
  "getDeviceList type dm =
     rbind (devices_of type dm) (\<lambda>devices. Inr (List.map_filter (map_option getName) devices))"

text \<open>\<open>size_t(-1)\<close> is \<open>None\<close>.\<close>

definition findDevice :: "DeviceType \<Rightarrow> string \<Rightarrow> device_manager \<Rightarrow> nat option result" where
  "findDevice type name dm =
     rbind (devices_of type dm) (\<lambda>devices.
       (let i = find_if (has_name name) devices in
        Inr (if i < length devices then Some i else None)))"

definition getDevice :: "DeviceType \<Rightarrow> string \<Rightarrow> device_manager \<Rightarrow> managed option result" where
  "getDevice type name dm =
     rbind (findDevice type name dm) (\<lambda>index.
       case index of
         Some i \<Rightarrow> rbind (devices_of type dm) (\<lambda>devices. Inr (devices ! i))
       | None \<Rightarrow> Inr None)"

fun first_named :: "string \<Rightarrow> managed option list list \<Rightarrow> managed option" where
  "first_named name [] = None"
| "first_named name (devices # ds) =
     (let i = find_if (has_name name) devices in
      if i < length devices then devices ! i else first_named name ds)"

definition findDeviceByName :: "string \<Rightarrow> device_manager \<Rightarrow> managed option" where
  "findDeviceByName name dm = first_named name (m_devices dm)"

text \<open>The loop that looks for a name of the form \<open>name-n\<close> not used by a device of the type.\<close>

definition candidate :: "string \<Rightarrow> nat \<Rightarrow> string" where
  "candidate name i = name @ ''-'' @ show_nat i"

lemma candidate_inject [simp]: "candidate name i = candidate name j \<longleftrightarrow> i = j"
  by (simp add: candidate_def)

lemma finite_candidates: "finite {i. index \<le> i \<and> candidate name i \<in> set used}"
proof (rule finite_imageD)
  show "finite (candidate name ` {i. index \<le> i \<and> candidate name i \<in> set used})"
    by (rule finite_subset [of _ "set used"]) auto
qed (simp add: inj_on_def)

function rename_loop :: "string list \<Rightarrow> string \<Rightarrow> nat \<Rightarrow> string \<Rightarrow> string" where
  "rename_loop used name index newName =
     (if newName \<in> set used then rename_loop used name (index + 1) (candidate name index) else newName)"
  by auto
termination
proof (relation "measure (\<lambda>(used, name, index, newName).
    card {i. index \<le> i \<and> candidate name i \<in> set used} + (if newName \<in> set used then 1 else 0))", simp)
  fix used name index newName
  assume "newName \<in> set (used :: string list)"
  let ?S = "\<lambda>index. {i. index \<le> i \<and> candidate name i \<in> set used}"
  have "?S index = (if candidate name index \<in> set used then insert index (?S (index + 1)) else ?S (index + 1))"
    by (auto simp: Suc_le_eq order.order_iff_strict)
  then have "card (?S index) = card (?S (index + 1)) + (if candidate name index \<in> set used then 1 else 0)"
    using finite_candidates [of "index + 1" name used] by simp
  then show "((used, name, index + 1, candidate name index), used, name, index, newName)
      \<in> measure (\<lambda>(used, name, index, newName).
          card {i. index \<le> i \<and> candidate name i \<in> set used} + (if newName \<in> set used then 1 else 0))"
    using \<open>newName \<in> set used\<close> by simp
qed

declare rename_loop.simps [simp del]

definition addDevice :: "DeviceType \<Rightarrow> string \<Rightarrow> device_manager \<Rightarrow> device_manager result" where
  "addDevice type name dm =
     (if type < Camera \<or> type > Guider then Inl (Throw ''Invalid device type'')
      else if findDeviceByName name dm \<noteq> None then Inr dm
      else rbind (getDeviceList type dm) (\<lambda>used.
        (let newName = rename_loop used name 1 name;
             add = dm\<lparr>m_devices := (m_devices dm)[type_index type :=
               m_devices dm ! type_index type @ [Some \<lparr>dev_class = type, getName = newName\<rparr>]]\<rparr>
         in Inr (case type of
              Camera \<Rightarrow> add | Telescope \<Rightarrow> add | Focuser \<Rightarrow> add | FilterWheel \<Rightarrow> add
            | Solver \<Rightarrow> dm | Guider \<Rightarrow> dm | NumDeviceTypes \<Rightarrow> dm))))"

definition removeDevice :: "DeviceType \<Rightarrow> string \<Rightarrow> device_manager \<Rightarrow> device_manager result" where
  "removeDevice type name dm =
     rbind (devices_of type dm) (\<lambda>devices.
       (let i = find_if (has_name name) devices in
        if i < length devices then
          (case devices ! i of
             None \<Rightarrow> Inl NullDeref
           | Some d \<Rightarrow> Inr (dm\<lparr>m_devices := (m_devices dm)[type_index type := erase_at i devices],
                             disconnected := disconnected dm @ [d]\<rparr>))
        else Inr dm))"

text \<open>Removing by name drops the pointers without disconnecting the devices.\<close>

definition removeDevicesByName :: "string \<Rightarrow> device_manager \<Rightarrow> device_manager" where
  "removeDevicesByName name dm =
     dm\<lparr>m_devices := map (filter (\<lambda>device. \<not> has_name name device)) (m_devices dm)\<rparr>"

text \<open>
  \<open>getSimpleTask\<close>: the device is looked up by name among all types, then cast to the class of the
  requested type; the cast of a device of another class is null and is dereferenced. \<open>task_of\<close> is
  the \<open>getSimpleTask\<close> of the device's driver.
\<close>

definition cast_task :: "DeviceType \<Rightarrow> (managed \<Rightarrow> 't option) \<Rightarrow> managed \<Rightarrow> 't option result" where
  "cast_task type task_of d = (if dev_class d = type then Inr (task_of d) else Inl NullDeref)"

definition getSimpleTask :: "DeviceType \<Rightarrow> string \<Rightarrow> string \<Rightarrow> (managed \<Rightarrow> 't option) \<Rightarrow> device_manager
    \<Rightarrow> 't option result" where
  "getSimpleTask type device_type device_name task_of dm =
     (case findDeviceByName device_name dm of
        None \<Rightarrow> Inr None
      | Some device \<Rightarrow>
          (case type of
             Camera \<Rightarrow> if device_type = ''INDI'' then cast_task Camera task_of device else Inr None
           | Telescope \<Rightarrow> if device_type = ''INDI'' then cast_task Telescope task_of device else Inr None
           | Focuser \<Rightarrow> if device_type = ''INDI'' then cast_task Focuser task_of device else Inr None
           | FilterWheel \<Rightarrow> if device_type = ''INDI'' then cast_task FilterWheel task_of device else Inr None
           | Solver \<Rightarrow> Inr None
           | Guider \<Rightarrow> Inr None
           | NumDeviceTypes \<Rightarrow> Inr None))"

definition getConditionalTask :: "DeviceType \<Rightarrow> string \<Rightarrow> string \<Rightarrow> device_manager \<Rightarrow> 't option" where
  "getConditionalTask type device_type device_name dm =
     (case findDeviceByName device_name dm of None \<Rightarrow> None | Some _ \<Rightarrow> None)"

definition getLoopTask :: "DeviceType \<Rightarrow> string \<Rightarrow> string \<Rightarrow> device_manager \<Rightarrow> 't option" where
  "getLoopTask type device_type device_name dm = None"

section \<open>Invariant\<close>

definition all_names :: "device_manager \<Rightarrow> string list" where
  "all_names dm = concat (map (List.map_filter (map_option getName)) (m_devices dm))"

text \<open>Six vectors, each holding devices of its own class, and no name twice.\<close>

definition dm_ok :: "device_manager \<Rightarrow> bool" where
  "dm_ok dm \<longleftrightarrow> length (m_devices dm) = 6 \<and>
     (\<forall>i < 6. \<forall>d. Some d \<in> set (m_devices dm ! i) \<longrightarrow> type_index (dev_class d) = i) \<and>
     distinct (all_names dm)"

lemma map_filter_names: "set (List.map_filter (map_option getName) ds) = {n. \<exists>d. Some d \<in> set ds \<and> getName d = n}"
  by (auto simp: List.map_filter_def map_option_case split: option.splits)

lemma first_named_None_iff:
  "first_named name ds = None \<longleftrightarrow> (\<forall>devices \<in> set ds. \<forall>d. Some d \<in> set devices \<longrightarrow> getName d \<noteq> name)"
proof (induction ds)
  case (Cons devices ds)
  show ?case
  proof (cases "find_if (has_name name) devices < length devices")
    case True
    from find_if_nth [OF True] obtain d where "devices ! find_if (has_name name) devices = Some d" "getName d = name"
      by (auto simp: has_name_def split: option.splits)
    moreover from this True have "Some d \<in> set devices" by (metis nth_mem)
    ultimately show ?thesis using True by auto
  next
    case False
    then have "\<forall>d. Some d \<in> set devices \<longrightarrow> getName d \<noteq> name"
      by (auto simp: find_simps has_name_def)
    with False Cons show ?thesis by simp
  qed
qed simp

lemma findDeviceByName_None_iff: "findDeviceByName name dm = None \<longleftrightarrow> name \<notin> set (all_names dm)"
  by (auto simp: findDeviceByName_def first_named_None_iff all_names_def map_filter_names)

definition names_in :: "managed option list \<Rightarrow> string list" where
  "names_in ds = List.map_filter (map_option getName) ds"

lemma names_in_simps [simp]:
  "names_in [] = []" "names_in (None # ds) = names_in ds" "names_in (Some d # ds) = getName d # names_in ds"
  by (simp_all add: names_in_def List.map_filter_simps)

lemma names_in_append [simp]: "names_in (as @ bs) = names_in as @ names_in bs"
  by (induction as) (auto simp: names_in_def List.map_filter_simps split: option.splits)

lemma names_in_filter: "names_in (filter (\<lambda>device. \<not> has_name n device) ds) = filter (\<lambda>m. m \<noteq> n) (names_in ds)"
proof (induction ds)
  case (Cons x ds)
  then show ?case by (cases x) (auto simp: has_name_def)
qed simp

lemma set_names_in: "set (names_in ds) = {n. \<exists>d. Some d \<in> set ds \<and> getName d = n}"
  unfolding names_in_def by (rule map_filter_names)

lemma all_names_split:
  "i < length (m_devices dm) \<Longrightarrow> all_names dm = concat (map names_in (take i (m_devices dm))) @
     names_in (m_devices dm ! i) @ concat (map names_in (drop (Suc i) (m_devices dm)))"
  unfolding all_names_def names_in_def [symmetric, abs_def]
  by (subst id_take_nth_drop [of i "m_devices dm"]) simp_all

lemma all_names_update:
  "i < length (m_devices dm) \<Longrightarrow> all_names (dm\<lparr>m_devices := (m_devices dm)[i := ds]\<rparr>) =
     concat (map names_in (take i (m_devices dm))) @ names_in ds @
     concat (map names_in (drop (Suc i) (m_devices dm)))"
  unfolding all_names_def names_in_def [symmetric, abs_def]
  by (simp add: upd_conv_take_nth_drop)

lemma all_names_disconnected [simp]: "all_names (dm\<lparr>disconnected := ds\<rparr>) = all_names dm"
  by (simp add: all_names_def)

lemma names_in_subset: "i < length (m_devices dm) \<Longrightarrow> set (names_in (m_devices dm ! i)) \<subseteq> set (all_names dm)"
  using all_names_split [of i dm] by auto

lemma rename_loop_fresh: "newName \<notin> set used \<Longrightarrow> rename_loop used name index newName = newName"
  by (simp add: rename_loop.simps)

lemma rename_loop_result:
  "rename_loop used name index newName \<notin> set used \<and>
     rename_loop used name index newName \<in> insert newName (range (candidate name))"
proof (induction used name index newName rule: rename_loop.induct)
  case (1 used name index newName)
  show ?case
  proof (cases "newName \<in> set used")
    case True
    with 1 have "rename_loop used name (index + 1) (candidate name index) \<notin> set used"
      "rename_loop used name (index + 1) (candidate name index) \<in> range (candidate name)" by auto
    with True show ?thesis by (simp add: rename_loop.simps [of used name index])
  next
    case False
    then show ?thesis by (simp add: rename_loop.simps)
  qed
qed

definition concrete_type :: "DeviceType \<Rightarrow> bool" where
  "concrete_type type \<longleftrightarrow> type \<in> {Camera, Telescope, Focuser, FilterWheel}"

text \<open>What \<open>addDevice\<close> does: the loop never renames, because the name is free among all types.\<close>

lemma addDevice_eq:
  assumes "length (m_devices dm) = 6"
  shows "addDevice type name dm =
    (if type = NumDeviceTypes then Inl (Throw ''Invalid device type'')
     else if name \<in> set (all_names dm) \<or> \<not> concrete_type type then Inr dm
     else Inr (dm\<lparr>m_devices := (m_devices dm)[type_index type :=
       m_devices dm ! type_index type @ [Some \<lparr>dev_class = type, getName = name\<rparr>]]\<rparr>))"
proof (cases "type = NumDeviceTypes")
  case True
  then show ?thesis by (simp add: addDevice_def less_DeviceType_def)
next
  case False
  then have v: "\<not> (type < Camera \<or> type > Guider)" and i: "type_index type < 6"
    by (cases type; simp add: less_DeviceType_def)+
  show ?thesis
  proof (cases "name \<in> set (all_names dm)")
    case True
    then have "findDeviceByName name dm \<noteq> None" using findDeviceByName_None_iff by blast
    with True False v show ?thesis by (simp add: addDevice_def)
  next
    case fresh: False
    then have "findDeviceByName name dm = None" using findDeviceByName_None_iff by blast
    moreover have "name \<notin> set (names_in (m_devices dm ! type_index type))"
      using fresh names_in_subset [of "type_index type" dm] i assms by auto
    ultimately show ?thesis
      using fresh v i assms False
      by (cases type) (simp_all add: addDevice_def getDeviceList_def devices_of_def names_in_def
          rename_loop_fresh concrete_type_def)
  qed
qed

lemma addDevice_ok:
  assumes "dm_ok dm" "addDevice type name dm = Inr dm'"
  shows "dm_ok dm'"
proof -
  have l: "length (m_devices dm) = 6" using assms(1) by (simp add: dm_ok_def)
  show ?thesis
  proof (cases "name \<in> set (all_names dm) \<or> \<not> concrete_type type")
    case True
    with assms show ?thesis by (simp add: addDevice_eq [OF l] split: if_splits)
  next
    case False
    let ?i = "type_index type"
    let ?ds = "m_devices dm ! ?i @ [Some \<lparr>dev_class = type, getName = name\<rparr>]"
    have i: "?i < 6" using False by (auto simp: concrete_type_def)
    have dm': "dm' = dm\<lparr>m_devices := (m_devices dm)[?i := ?ds]\<rparr>"
      using assms(2) False by (simp add: addDevice_eq [OF l] split: if_splits)
    have "distinct (all_names dm)" using assms(1) by (simp add: dm_ok_def)
    then have "distinct (all_names dm')"
      using False i l all_names_split [of ?i dm] unfolding dm' by (subst all_names_update) auto
    moreover have "\<forall>j < 6. \<forall>d. Some d \<in> set (m_devices dm' ! j) \<longrightarrow> type_index (dev_class d) = j"
      using assms(1) i l unfolding dm' by (auto simp: dm_ok_def nth_list_update)
    ultimately show ?thesis using l unfolding dm' by (simp add: dm_ok_def)
  qed
qed

lemma removeDevice_cases:
  assumes "dm_ok dm" "type \<noteq> NumDeviceTypes"
  obtains "removeDevice type name dm = Inr dm" "\<forall>d. Some d \<in> set (m_devices dm ! type_index type) \<longrightarrow> getName d \<noteq> name"
  | ys d zs where "m_devices dm ! type_index type = ys @ Some d # zs" "getName d = name"
      "removeDevice type name dm = Inr (dm\<lparr>m_devices := (m_devices dm)[type_index type := ys @ zs],
         disconnected := disconnected dm @ [d]\<rparr>)"
proof -
  let ?ds = "m_devices dm ! type_index type"
  have "type_index type < length (m_devices dm)" using assms by (cases type) (simp_all add: dm_ok_def)
  then have dv: "devices_of type dm = Inr ?ds" by (simp add: devices_of_def)
  show ?thesis
  proof (cases "find_if (has_name name) ?ds < length ?ds")
    case True
    then obtain ys x zs where s: "?ds = ys @ x # zs" "has_name name x" "find_if (has_name name) ?ds = length ys"
      by (rule find_if_split)
    then obtain d where "x = Some d" "getName d = name" by (auto simp: has_name_def split: option.splits)
    with s dv that(2) show ?thesis by (simp add: removeDevice_def)
  next
    case False
    then have "\<forall>d. Some d \<in> set ?ds \<longrightarrow> getName d \<noteq> name" by (auto simp: find_simps has_name_def)
    with False dv that(1) show ?thesis by (simp add: removeDevice_def)
  qed
qed

lemma removeDevice_ok:
  assumes "dm_ok dm" "removeDevice type name dm = Inr dm'"
  shows "dm_ok dm'"
proof -
  have l: "length (m_devices dm) = 6" using assms(1) by (simp add: dm_ok_def)
  have t: "type \<noteq> NumDeviceTypes" using assms(2) l by (auto simp: removeDevice_def devices_of_def)
  then have i: "type_index type < 6" by (cases type) simp_all
  from assms(1) t show ?thesis
  proof (rule removeDevice_cases [where name = name])
    assume "removeDevice type name dm = Inr dm"
    with assms show ?thesis by simp
  next
    fix ys d zs
    assume s: "m_devices dm ! type_index type = ys @ Some d # zs" and
      "removeDevice type name dm = Inr (dm\<lparr>m_devices := (m_devices dm)[type_index type := ys @ zs],
         disconnected := disconnected dm @ [d]\<rparr>)"
    with assms(2) have dm': "dm' = (dm\<lparr>m_devices := (m_devices dm)[type_index type := ys @ zs]\<rparr>)
        \<lparr>disconnected := disconnected dm @ [d]\<rparr>" by simp
    have "distinct (all_names dm)" using assms(1) by (simp add: dm_ok_def)
    then have "distinct (all_names dm')"
      unfolding dm' all_names_disconnected using i l all_names_split [of "type_index type" dm] s
      by (subst all_names_update) auto
    moreover have "\<forall>j < 6. \<forall>d. Some d \<in> set (m_devices dm' ! j) \<longrightarrow> type_index (dev_class d) = j"
    proof (intro allI impI)
      fix j d'
      assume "j < 6" "Some d' \<in> set (m_devices dm' ! j)"
      then have "Some d' \<in> set (m_devices dm ! j)" using i l s unfolding dm' by (auto simp: nth_list_update split: if_splits)
      with \<open>j < 6\<close> assms(1) show "type_index (dev_class d') = j" by (simp add: dm_ok_def)
    qed
    ultimately show ?thesis using l unfolding dm' by (simp add: dm_ok_def)
  qed
qed

lemma all_names_removeDevicesByName:
  "all_names (removeDevicesByName name dm) = filter (\<lambda>m. m \<noteq> name) (all_names dm)"
  unfolding all_names_def names_in_def [symmetric, abs_def]
  by (simp add: removeDevicesByName_def comp_def names_in_filter filter_concat)

lemma removeDevicesByName_ok: "dm_ok dm \<Longrightarrow> dm_ok (removeDevicesByName name dm)"
  unfolding dm_ok_def all_names_removeDevicesByName by (auto simp: removeDevicesByName_def)

lemma new_DeviceManager_ok: "dm_ok new_DeviceManager"
proof -
  have "all_names new_DeviceManager = []" by (simp add: all_names_def new_DeviceManager_def List.map_filter_simps)
  moreover have "\<forall>i < 6. \<forall>d. Some d \<in> set (replicate 6 [None] ! i) \<longrightarrow> type_index (dev_class d) = i"
    by (simp add: nth_replicate)
  ultimately show ?thesis by (simp add: dm_ok_def new_DeviceManager_def)
qed

section \<open>Sequences of calls\<close>

datatype dm_op = Add DeviceType string | Remove DeviceType string | RemoveByName string

text \<open>A caller that catches exceptions and goes on; undefined behaviour ends the run.\<close>

fun run_ops :: "dm_op list \<Rightarrow> device_manager \<Rightarrow> device_manager result" where
  "run_ops [] dm = Inr dm"
| "run_ops (Add t n # ops) dm =
     (case addDevice t n dm of
        Inr dm' \<Rightarrow> run_ops ops dm'
      | Inl (Throw w) \<Rightarrow> run_ops ops dm
      | Inl e \<Rightarrow> Inl e)"
| "run_ops (Remove t n # ops) dm =
     (case removeDevice t n dm of
        Inr dm' \<Rightarrow> run_ops ops dm'
      | Inl (Throw w) \<Rightarrow> run_ops ops dm
      | Inl e \<Rightarrow> Inl e)"
| "run_ops (RemoveByName n # ops) dm = run_ops ops (removeDevicesByName n dm)"

lemma run_ops_ok: "dm_ok dm \<Longrightarrow> run_ops ops dm = Inr dm' \<Longrightarrow> dm_ok dm'"
proof (induction ops arbitrary: dm)
  case (Cons op ops)
  show ?case
  proof (cases op)
    case (Add t n)
    with Cons addDevice_ok [OF Cons.prems(1)] show ?thesis
      by (auto split: sum.splits cpp_error.splits)
  next
    case (Remove t n)
    with Cons removeDevice_ok [OF Cons.prems(1)] show ?thesis
      by (auto split: sum.splits cpp_error.splits)
  next
    case (RemoveByName n)
    then show ?thesis
      using Cons.IH [OF removeDevicesByName_ok [OF Cons.prems(1)]] Cons.prems(2) by simp
  qed
qed simp

text \<open>In a well-formed manager the search by name and the search by type agree.\<close>

lemma find_if_unique:
  assumes "distinct (names_in ds)" "Some d \<in> set ds"
  shows "ds ! find_if (has_name (getName d)) ds = Some d \<and> find_if (has_name (getName d)) ds < length ds"
  using assms
proof (induction ds)
  case (Cons x ds)
  show ?case
  proof (cases "x = Some d")
    case True
    then show ?thesis by (simp add: has_name_def)
  next
    case False
    with Cons.prems have "Some d \<in> set ds" by simp
    moreover have "\<not> has_name (getName d) x"
      using Cons.prems(1) \<open>Some d \<in> set ds\<close> by (cases x) (auto simp: has_name_def set_names_in)
    moreover have "distinct (names_in ds)" using Cons.prems(1) by (cases x) simp_all
    ultimately show ?thesis using Cons.IH by simp
  qed
qed simp

lemma first_named_unique:
  assumes "distinct (concat (map names_in dss))" "Some d \<in> set ds" "ds \<in> set dss"
  shows "first_named (getName d) dss = Some d"
  using assms
proof (induction dss)
  case (Cons es dss)
  show ?case
  proof (cases "Some d \<in> set es")
    case True
    with find_if_unique [of es d] Cons.prems(1) show ?thesis by simp
  next
    case False
    with Cons.prems have d: "ds \<in> set dss" "Some d \<in> set ds" by auto
    then have "getName d \<in> set (concat (map names_in dss))" by (auto simp: set_names_in)
    with Cons.prems(1) have "getName d \<notin> set (names_in es)" by auto
    then have "\<forall>x \<in> set es. \<not> has_name (getName d) x"
      by (auto simp: set_names_in has_name_def split: option.splits)
    then have "\<not> find_if (has_name (getName d)) es < length es" by (simp add: find_simps)
    with Cons d show ?thesis by simp
  qed
qed simp

lemma dm_ok_find:
  assumes "dm_ok dm" "i < 6" "Some d \<in> set (m_devices dm ! i)"
  shows "findDeviceByName (getName d) dm = Some d \<and> getDevice (dev_class d) (getName d) dm = Inr (Some d)"
proof -
  have dis: "distinct (concat (map names_in (m_devices dm)))" and l: "length (m_devices dm) = 6"
    using assms(1) by (simp_all add: dm_ok_def all_names_def names_in_def [symmetric, abs_def])
  have i: "type_index (dev_class d) = i" using assms by (simp add: dm_ok_def)
  have mem: "m_devices dm ! i \<in> set (m_devices dm)" using assms(2) l by simp
  then have "distinct (names_in (m_devices dm ! i))" using dis by (auto simp: distinct_concat_iff)
  from find_if_unique [OF this assms(3)] first_named_unique [OF dis assms(3) mem] i l assms(2)
  show ?thesis by (simp add: findDeviceByName_def getDevice_def findDevice_def devices_of_def)
qed

section \<open>Properties\<close>

text \<open>C5. Whatever sequence of additions and removals a caller performs on a new manager, without
  naming the type \<open>NumDeviceTypes\<close> in a removal, it succeeds and leaves six vectors in which every
  device has the class of its vector and no two devices, of whatever type, have the same name; so
  the search by name and the search by type and name find the same device.\<close>

theorem device_names_unique:
  assumes "\<forall>n. Remove NumDeviceTypes n \<notin> set ops"
  shows "\<exists>dm. run_ops ops new_DeviceManager = Inr dm \<and> dm_ok dm \<and>
    (\<forall>i < 6. \<forall>d. Some d \<in> set (m_devices dm ! i) \<longrightarrow>
      findDeviceByName (getName d) dm = Some d \<and> getDevice (dev_class d) (getName d) dm = Inr (Some d))"
proof -
  have "\<exists>dm'. run_ops ops dm = Inr dm'" if "dm_ok dm" for dm
    using that assms
  proof (induction ops arbitrary: dm)
    case (Cons op ops)
    have rest: "\<forall>n. Remove NumDeviceTypes n \<notin> set ops" using Cons.prems(2) by simp
    show ?case
    proof (cases op)
      case (Add t n)
      have "length (m_devices dm) = 6" using Cons.prems(1) by (simp add: dm_ok_def)
      from addDevice_eq [OF this, of t n] consider "addDevice t n dm = Inl (Throw ''Invalid device type'')"
        | dm' where "addDevice t n dm = Inr dm'" by (auto split: if_splits)
      then show ?thesis
        using Add Cons.IH rest Cons.prems(1) addDevice_ok [OF Cons.prems(1)] by cases auto
    next
      case (Remove t n)
      then have "t \<noteq> NumDeviceTypes" using Cons.prems(2) by auto
      from removeDevice_cases [OF Cons.prems(1) this, of n] obtain dm' where "removeDevice t n dm = Inr dm'"
        by blast
      then show ?thesis using Remove Cons.IH rest removeDevice_ok [OF Cons.prems(1)] by auto
    next
      case (RemoveByName n)
      then show ?thesis using Cons.IH rest removeDevicesByName_ok [OF Cons.prems(1)] by simp
    qed
  qed simp
  from this [OF new_DeviceManager_ok] obtain dm where dm: "run_ops ops new_DeviceManager = Inr dm" by blast
  with run_ops_ok [OF new_DeviceManager_ok] dm_ok_find show ?thesis by blast
qed

lemma device_names_unique_witness:
  "run_ops [Add Camera ''a'', Add Focuser ''a'', Add Focuser ''b'', Remove Camera ''a''] new_DeviceManager =
     Inr \<lparr>m_devices = [[None], [None], [None, Some \<lparr>dev_class = Focuser, getName = ''b''\<rparr>], [None], [None], [None]],
       disconnected = [\<lparr>dev_class = Camera, getName = ''a''\<rparr>]\<rparr> \<and>
   (\<exists>dm. run_ops [Add Camera ''a'', Add Focuser ''a'', Add Focuser ''b'', Remove Camera ''a''] new_DeviceManager =
     Inr dm \<and> dm_ok dm)"
proof
  show "run_ops [Add Camera ''a'', Add Focuser ''a'', Add Focuser ''b'', Remove Camera ''a''] new_DeviceManager =
     Inr \<lparr>m_devices = [[None], [None], [None, Some \<lparr>dev_class = Focuser, getName = ''b''\<rparr>], [None], [None], [None]],
       disconnected = [\<lparr>dev_class = Camera, getName = ''a''\<rparr>]\<rparr>"
    by (simp add: new_DeviceManager_def addDevice_def less_DeviceType_def findDeviceByName_def has_name_def
        getDeviceList_def devices_of_def rename_loop.simps List.map_filter_simps numeral_eq_Suc
        removeDevice_def erase_at_def)
  show "\<exists>dm. run_ops [Add Camera ''a'', Add Focuser ''a'', Add Focuser ''b'', Remove Camera ''a'']
      new_DeviceManager = Inr dm \<and> dm_ok dm"
    using device_names_unique [of "[Add Camera ''a'', Add Focuser ''a'', Add Focuser ''b'', Remove Camera ''a'']"]
    by auto
qed

text \<open>Adding a device: an invalid type throws; a name in use by a device of any type, or a type
  with no implementation (solver, guider), changes nothing and says nothing; otherwise exactly one
  device with exactly the given name is appended to the vector of its type: the renaming loop never
  renames.\<close>

theorem addDevice_spec:
  assumes "dm_ok dm"
  shows "(addDevice NumDeviceTypes name dm = Inl (Throw ''Invalid device type'')) \<and>
    (type \<noteq> NumDeviceTypes \<longrightarrow> name \<in> set (all_names dm) \<or> \<not> concrete_type type \<longrightarrow> addDevice type name dm = Inr dm) \<and>
    (concrete_type type \<longrightarrow> name \<notin> set (all_names dm) \<longrightarrow>
      (\<exists>dm' used. addDevice type name dm = Inr dm' \<and> getDeviceList type dm = Inr used \<and>
        getDeviceList type dm' = Inr (used @ [name]) \<and>
        getDevice type name dm' = Inr (Some \<lparr>dev_class = type, getName = name\<rparr>) \<and>
        (\<forall>t. t \<noteq> type \<longrightarrow> getDeviceList t dm' = getDeviceList t dm)))"
proof (intro conjI impI)
  have l: "length (m_devices dm) = 6" using assms by (simp add: dm_ok_def)
  show "addDevice NumDeviceTypes name dm = Inl (Throw ''Invalid device type'')" by (simp add: addDevice_eq [OF l])
  show "addDevice type name dm = Inr dm"
    if "type \<noteq> NumDeviceTypes" "name \<in> set (all_names dm) \<or> \<not> concrete_type type"
    using that by (simp add: addDevice_eq [OF l])
  assume c: "concrete_type type" and n: "name \<notin> set (all_names dm)"
  let ?i = "type_index type" and ?d = "\<lparr>dev_class = type, getName = name\<rparr>"
  let ?dm' = "dm\<lparr>m_devices := (m_devices dm)[?i := m_devices dm ! ?i @ [Some ?d]]\<rparr>"
  have i: "?i < 6" "type \<noteq> NumDeviceTypes" using c by (auto simp: concrete_type_def)
  have a: "addDevice type name dm = Inr ?dm'" using c n i by (simp add: addDevice_eq [OF l])
  from dm_ok_find [OF addDevice_ok [OF assms a], of ?i ?d] i l
  have "getDevice type name ?dm' = Inr (Some ?d)" by simp
  moreover have "names_in (m_devices dm ! ?i @ [Some ?d]) = names_in (m_devices dm ! ?i) @ [name]" by simp
  moreover have "getDeviceList t ?dm' = getDeviceList t dm" if "t \<noteq> type" for t
    using that by (simp add: getDeviceList_def devices_of_def)
  ultimately show "\<exists>dm' used. addDevice type name dm = Inr dm' \<and> getDeviceList type dm = Inr used \<and>
        getDeviceList type dm' = Inr (used @ [name]) \<and>
        getDevice type name dm' = Inr (Some \<lparr>dev_class = type, getName = name\<rparr>) \<and>
        (\<forall>t. t \<noteq> type \<longrightarrow> getDeviceList t dm' = getDeviceList t dm)"
    using a i l by (intro exI [of _ ?dm'] exI [of _ "names_in (m_devices dm ! ?i)"])
      (simp add: getDeviceList_def devices_of_def names_in_def)
qed

lemma addDevice_spec_witness:
  "addDevice Solver ''astap'' new_DeviceManager = Inr new_DeviceManager \<and>
   (\<exists>dm'. addDevice Camera ''ccd'' new_DeviceManager = Inr dm' \<and> getDeviceList Camera dm' = Inr [''ccd''])"
proof -
  have "\<not> concrete_type Solver" "concrete_type Camera" by (simp_all add: concrete_type_def)
  moreover have "all_names new_DeviceManager = []" "getDeviceList Camera new_DeviceManager = Inr []"
    by (simp_all add: all_names_def new_DeviceManager_def List.map_filter_simps getDeviceList_def devices_of_def)
  ultimately show ?thesis
    using addDevice_spec [OF new_DeviceManager_ok, where type = Solver and name = "''astap''"]
      addDevice_spec [OF new_DeviceManager_ok, where type = Camera and name = "''ccd''"] by auto
qed

text \<open>Removing a device of its type disconnects it and makes its name free; removing by name makes
  the name free among all types, keeps every other name, and disconnects nothing.\<close>

theorem removal_spec:
  assumes "dm_ok dm" and "type \<noteq> NumDeviceTypes"
  shows "(\<forall>d. Some d \<in> set (m_devices dm ! type_index type) \<longrightarrow>
      (\<exists>dm'. removeDevice type (getName d) dm = Inr dm' \<and> findDeviceByName (getName d) dm' = None \<and>
        disconnected dm' = disconnected dm @ [d])) \<and>
    findDeviceByName n (removeDevicesByName n dm) = None \<and>
    (m \<noteq> n \<longrightarrow> findDeviceByName m (removeDevicesByName n dm) = None \<longleftrightarrow> findDeviceByName m dm = None) \<and>
    disconnected (removeDevicesByName n dm) = disconnected dm"
proof (intro conjI allI impI)
  fix d
  assume d: "Some d \<in> set (m_devices dm ! type_index type)"
  have l: "length (m_devices dm) = 6" using assms(1) by (simp add: dm_ok_def)
  have i: "type_index type < 6" using assms(2) by (cases type) simp_all
  from assms show "\<exists>dm'. removeDevice type (getName d) dm = Inr dm' \<and> findDeviceByName (getName d) dm' = None \<and>
      disconnected dm' = disconnected dm @ [d]"
  proof (rule removeDevice_cases [where name = "getName d"])
    assume "\<forall>e. Some e \<in> set (m_devices dm ! type_index type) \<longrightarrow> getName e \<noteq> getName d"
    with d show ?thesis by blast
  next
    fix ys e zs
    assume s: "m_devices dm ! type_index type = ys @ Some e # zs" "getName e = getName d" and
      r: "removeDevice type (getName d) dm = Inr (dm\<lparr>m_devices := (m_devices dm)[type_index type := ys @ zs],
         disconnected := disconnected dm @ [e]\<rparr>)"
    have "e = d"
      using dm_ok_find [OF assms(1) i d] dm_ok_find [OF assms(1) i, of e] s by auto
    have "distinct (all_names dm)" using assms(1) by (simp add: dm_ok_def)
    then have "getName d \<notin> set (all_names ((dm\<lparr>m_devices := (m_devices dm)[type_index type := ys @ zs]\<rparr>)
        \<lparr>disconnected := disconnected dm @ [e]\<rparr>))"
      unfolding all_names_disconnected using i l all_names_split [of "type_index type" dm] s
      by (subst all_names_update) auto
    with r \<open>e = d\<close> show ?thesis by (simp add: findDeviceByName_None_iff)
  qed
qed (simp_all add: findDeviceByName_None_iff all_names_removeDevicesByName, simp add: removeDevicesByName_def)

lemma removal_spec_witness:
  "findDeviceByName ''x'' (removeDevicesByName ''x'' new_DeviceManager) = None"
  using removal_spec [OF new_DeviceManager_ok, of Camera] by simp

text \<open>Asking for the task of a device never throws, and fails only by a null dereference, exactly
  when the driver asked for is INDI, the type has one, and the device of that name, which is looked
  up without regard to the type, is of another class.\<close>

theorem getSimpleTask_null_iff:
  "getSimpleTask type device_type name task_of dm = Inl e \<longleftrightarrow>
     e = NullDeref \<and> device_type = ''INDI'' \<and> concrete_type type \<and>
     (\<exists>d. findDeviceByName name dm = Some d \<and> dev_class d \<noteq> type)"
  by (cases type)
    (auto simp: getSimpleTask_def cast_task_def concrete_type_def split: option.splits if_splits)

end
