(* ===== verification/Indi.thy ===== *)
theory Indi
  imports Task
begin

text \<open>
  What the four INDI drivers of \<open>src/src/components/driver/indi\<close> share: the pointers they keep to
  vectors owned by the INDI client library, the connection bookkeeping of
  \<open>src/src/components/api/indiclient.cpp\<close>, and the handling of the properties every serial device
  has (CONNECTION, DEVICE_PORT, DEVICE_BAUD_RATE, DRIVER_INFO). The library is outside the
  repository: its lookup functions are the fields of an argument of type \<open>indi_lib\<close>, its memory an
  argument of type \<open>indi_mem\<close>, and the answer of \<open>INDI::BaseClient::connectServer\<close> a boolean argument.
\<close>

section \<open>Memory of the client library\<close>

text \<open>
  A member pointer is null, indeterminate (the constructors of the drivers do not initialise
  theirs), or the address of a vector. A vector the library has freed is absent from the memory. The
  text of an element may be a null \<open>char *\<close>.
\<close>

type_synonym addr = nat

datatype pointer = Null | Indet | At addr

record 'v ivector =
  vec_name :: string
  vec_elems :: "(string \<times> 'v) list"

record indi_mem =
  switches :: "addr \<Rightarrow> bool ivector option"
  numbers :: "addr \<Rightarrow> double ivector option"
  texts :: "addr \<Rightarrow> string option ivector option"

record indi_lib =
  IUFindSwitch :: "bool ivector \<Rightarrow> string \<Rightarrow> bool option"
  IUFindNumber :: "double ivector \<Rightarrow> string \<Rightarrow> double option"
  IUFindText :: "string option ivector \<Rightarrow> string \<Rightarrow> string option option"
  INDI_SHARED_BLOB_SUPPORT :: bool

text \<open>
  The lookups as the library documents them: the first element of the name. The last field tells
  how the library was built.
\<close>

definition lookup_lib :: indi_lib where
  "lookup_lib = \<lparr>IUFindSwitch = (\<lambda>v. map_of (vec_elems v)), IUFindNumber = (\<lambda>v. map_of (vec_elems v)),
     IUFindText = (\<lambda>v. map_of (vec_elems v)), INDI_SHARED_BLOB_SUPPORT = False\<rparr>"

definition load :: "(addr \<Rightarrow> 'v option) \<Rightarrow> pointer \<Rightarrow> 'v result" where
  "load m p = (case p of
     Null \<Rightarrow> Inl NullDeref
   | Indet \<Rightarrow> Inl Uninitialised
   | At a \<Rightarrow> (case m a of None \<Rightarrow> Inl Dangling | Some v \<Rightarrow> Inr v))"

definition store :: "pointer \<Rightarrow> 'v \<Rightarrow> (addr \<Rightarrow> 'v option) \<Rightarrow> addr \<Rightarrow> 'v option" where
  "store p v m = (case p of At a \<Rightarrow> m(a := Some v) | _ \<Rightarrow> m)"

definition is_null :: "pointer \<Rightarrow> bool result" where
  "is_null p = (case p of Null \<Rightarrow> Inr True | Indet \<Rightarrow> Inl Uninitialised | At a \<Rightarrow> Inr False)"

definition points_to :: "addr \<Rightarrow> pointer \<Rightarrow> bool result" where
  "points_to a p = (case p of Null \<Rightarrow> Inr False | Indet \<Rightarrow> Inl Uninitialised | At b \<Rightarrow> Inr (a = b))"

text \<open>\<open>IUFind...(v, name)->s\<close>: a lookup that fails returns null, which is then dereferenced.\<close>

definition elem :: "'v option \<Rightarrow> 'v result" where
  "elem r = (case r of None \<Rightarrow> Inl NullDeref | Some v \<Rightarrow> Inr v)"

definition elem_text :: "string option option \<Rightarrow> string result" where
  "elem_text r = rbind (elem r) elem"

text \<open>\<open>v->sp->s\<close> and \<open>v->np->value\<close>: the first element of a vector.\<close>

definition first_elem :: "'v ivector \<Rightarrow> 'v result" where
  "first_elem v = (case vec_elems v of [] \<Rightarrow> Inl OutOfBounds | e # es \<Rightarrow> Inr (snd e))"

definition set_first :: "'v \<Rightarrow> 'v ivector \<Rightarrow> 'v ivector result" where
  "set_first x v = (case vec_elems v of
     [] \<Rightarrow> Inl OutOfBounds
   | e # es \<Rightarrow> Inr (v\<lparr>vec_elems := (fst e, x) # es\<rparr>))"

text \<open>
  A chain \<open>if (IUFindSwitch(v, n1)->s == ISS_ON) ... else if ...\<close>: the first name whose switch
  is on.
\<close>

fun first_on :: "(string \<Rightarrow> bool option) \<Rightarrow> string list \<Rightarrow> string option result" where
  "first_on look [] = Inr None"
| "first_on look (n # ns) =
     rbind (elem (look n)) (\<lambda>on. if on then Inr (Some n) else first_on look ns)"

section \<open>Properties the server announces\<close>

datatype prop_type = INDI_NUMBER | INDI_SWITCH | INDI_TEXT | INDI_LIGHT | INDI_BLOB | INDI_UNKNOWN

record iproperty =
  prop_name :: string
  prop_type :: prop_type
  prop_addr :: addr

section \<open>The client\<close>

text \<open>What a driver asks the library to do, in order.\<close>

datatype request =
    SetServer string int
  | WatchDevice string
  | ConnectServer
  | ConnectDevice string
  | DisconnectServer
  | SendSwitch "bool ivector"
  | SendNumber "double ivector"
  | SetBLOBMode string string
  | EnableDirectBlobAccess string string

record indi_device =
  drv_name :: string
  device_name :: string
  hostname :: string
  port :: int
  is_connected :: bool
  is_ready :: bool
  m_disconnecting :: bool
  requests :: "request list"

definition request :: "request \<Rightarrow> 'x indi_device_scheme \<Rightarrow> 'x indi_device_scheme" where
  "request q d = d\<lparr>requests := requests d @ [q]\<rparr>"

text \<open>
  \<open>OpenAptIndiClient\<close>. The virtual functions \<open>IndiServerConnected\<close> and \<open>IndiServerDisconnected\<close>
  are the arguments \<open>on_connected\<close> and \<open>on_disconnected\<close>; \<open>ok\<close> is the answer of the library.
\<close>

definition serverDisconnected ::
  "(int \<Rightarrow> 'x indi_device_scheme \<Rightarrow> 'x indi_device_scheme) \<Rightarrow> int \<Rightarrow> 'x indi_device_scheme \<Rightarrow> 'x indi_device_scheme"
where
  "serverDisconnected on_disconnected exit_code d =
     (on_disconnected exit_code (d\<lparr>m_disconnecting := True\<rparr>))\<lparr>m_disconnecting := False\<rparr>"

definition connectServer ::
  "bool \<Rightarrow> ('x indi_device_scheme \<Rightarrow> 'x indi_device_scheme) \<Rightarrow> 'x indi_device_scheme \<Rightarrow> 'x indi_device_scheme \<times> bool"
where
  "connectServer ok on_connected d =
     (let d = request ConnectServer d in if ok then (on_connected d, ok) else (d, ok))"

definition DisconnectIndiServer :: "bool \<Rightarrow> 'x indi_device_scheme \<Rightarrow> 'x indi_device_scheme \<times> bool" where
  "DisconnectIndiServer ok d =
     (if m_disconnecting d then (d, True) else (request DisconnectServer d, ok))"

lemma request_simps [simp]:
  "requests (request q d) = requests d @ [q]" "is_connected (request q d) = is_connected d"
  "is_ready (request q d) = is_ready d" "m_disconnecting (request q d) = m_disconnecting d"
  "hostname (request q d) = hostname d" "port (request q d) = port d"
  "device_name (request q d) = device_name d" "drv_name (request q d) = drv_name d"
  by (simp_all add: request_def)

lemma load_simps [simp]:
  "load m Null = Inl NullDeref" "load m Indet = Inl Uninitialised"
  "load m (At a) = (case m a of None \<Rightarrow> Inl Dangling | Some v \<Rightarrow> Inr v)"
  by (simp_all add: load_def)

lemma elem_simps [simp]: "elem None = Inl NullDeref" "elem (Some v) = Inr v"
  by (simp_all add: elem_def)

lemma pointer_tests [simp]:
  "is_null Null = Inr True" "is_null Indet = Inl Uninitialised" "is_null (At a) = Inr False"
  "points_to a Null = Inr False" "points_to a Indet = Inl Uninitialised" "points_to a (At b) = Inr (a = b)"
  by (simp_all add: is_null_def points_to_def)

lemma first_on_None: "first_on look ns = Inr None \<longleftrightarrow> (\<forall>n \<in> set ns. look n = Some False)"
proof (induction ns)
  case (Cons n ns)
  then show ?case by (cases "look n") auto
qed simp

lemma split_first_Cons:
  "(\<exists>ys x zs. m # ns = ys @ x # zs \<and> P x \<and> (\<forall>y \<in> set ys. Q y)) \<longleftrightarrow>
     P m \<or> Q m \<and> (\<exists>ys x zs. ns = ys @ x # zs \<and> P x \<and> (\<forall>y \<in> set ys. Q y))"
proof
  assume "\<exists>ys x zs. m # ns = ys @ x # zs \<and> P x \<and> (\<forall>y \<in> set ys. Q y)"
  then obtain ys x zs where "m # ns = ys @ x # zs" "P x" "\<forall>y \<in> set ys. Q y" by blast
  then show "P m \<or> Q m \<and> (\<exists>ys x zs. ns = ys @ x # zs \<and> P x \<and> (\<forall>y \<in> set ys. Q y))"
    by (cases ys) auto
next
  assume "P m \<or> Q m \<and> (\<exists>ys x zs. ns = ys @ x # zs \<and> P x \<and> (\<forall>y \<in> set ys. Q y))"
  then show "\<exists>ys x zs. m # ns = ys @ x # zs \<and> P x \<and> (\<forall>y \<in> set ys. Q y)"
  proof
    assume "P m"
    then have "m # ns = [] @ m # ns \<and> P m \<and> (\<forall>y \<in> set []. Q y)" by simp
    then show ?thesis by blast
  next
    assume "Q m \<and> (\<exists>ys x zs. ns = ys @ x # zs \<and> P x \<and> (\<forall>y \<in> set ys. Q y))"
    then obtain ys x zs where "Q m" "ns = ys @ x # zs" "P x" "\<forall>y \<in> set ys. Q y" by blast
    then have "m # ns = (m # ys) @ x # zs \<and> P x \<and> (\<forall>y \<in> set (m # ys). Q y)" by simp
    then show ?thesis by blast
  qed
qed

lemma first_on_Some:
  "first_on look ns = Inr (Some n) \<longleftrightarrow>
     (\<exists>ys x zs. ns = ys @ x # zs \<and> (x = n \<and> look x = Some True) \<and> (\<forall>y \<in> set ys. look y = Some False))"
proof (induction ns)
  case (Cons m ns)
  show ?case unfolding split_first_Cons by (cases "look m") (auto simp: Cons.IH)
qed simp

lemma first_on_error:
  "first_on look ns = Inl e \<longleftrightarrow> e = NullDeref \<and>
     (\<exists>ys x zs. ns = ys @ x # zs \<and> look x = None \<and> (\<forall>y \<in> set ys. look y = Some False))"
proof (induction ns)
  case (Cons m ns)
  show ?case unfolding split_first_Cons by (cases "look m") (auto simp: Cons.IH)
qed simp

section \<open>Lookups raise no exception\<close>

lemma fine_lookup:
  "fine (\<lambda>_. True) (load m q)" "fine (\<lambda>_. True) (elem x)" "fine (\<lambda>_. True) (elem_text t)"
  "fine (\<lambda>_. True) (first_elem v)" "fine (\<lambda>_. True) (first_on look ns)" "fine (\<lambda>_. True) (set_first y v)"
  "fine (\<lambda>_. True) (is_null q)"
proof -
  show "fine (\<lambda>_. True) (first_on look ns)" for look ns
  proof (cases "first_on look ns")
    case (Inl e)
    then have "e = NullDeref" using first_on_error [of look ns e] by blast
    with Inl show ?thesis by (simp add: fine_def)
  qed (simp add: fine_def)
qed (auto simp: fine_def load_def elem_def elem_text_def first_elem_def set_first_def is_null_def
    split: pointer.splits option.splits list.splits)

lemma fine_first_text: "fine (\<lambda>_. True) (rbind (first_elem v) elem)"
  by (rule fine_rbind [OF fine_lookup(4)]) (rule fine_lookup(2))

lemmas fine_lookup_rbind [fine_intros] = fine_lookup [THEN fine_rbind] fine_first_text [THEN fine_rbind]

section \<open>Serial devices\<close>

text \<open>
  The members filter wheel, telescope and focuser have under different names: \<open>info_prop\<close> is
  \<open>filterinfo_prop\<close>, \<open>telescopeinfo_prop\<close>, \<open>focuserinfo_prop\<close>; \<open>port_prop\<close> is \<open>filter_port\<close>, ...;
  \<open>device_ptr\<close> is \<open>filter_device\<close>, ...; \<open>indi_port\<close> is \<open>indi_filter_port\<close>, and so on.
\<close>

record serial_driver = indi_device +
  connection_prop :: pointer
  info_prop :: pointer
  port_prop :: pointer
  rate_prop :: pointer
  device_ptr :: pointer
  indi_port :: string
  indi_rate :: string
  indi_cmd :: string
  indi_exec :: string
  indi_version :: string
  indi_interface :: string

text \<open>A new driver: \<open>junk1\<close> and \<open>junk2\<close> are the indeterminate values of the two flags.\<close>

definition serial_init :: "bool \<Rightarrow> bool \<Rightarrow> string \<Rightarrow> serial_driver" where
  "serial_init junk1 junk2 name =
     \<lparr>drv_name = name, device_name = [], hostname = ''127.0.0.1'', port = 7624,
      is_connected = junk1, is_ready = junk2, m_disconnecting = False, requests = [],
      connection_prop = Indet, info_prop = Indet, port_prop = Indet, rate_prop = Indet,
      device_ptr = Indet, indi_port = [], indi_rate = [], indi_cmd = [], indi_exec = [],
      indi_version = [], indi_interface = []\<rparr>"

text \<open>The branch of \<open>newSwitch\<close> for CONNECTION; \<open>clear\<close> is \<open>ClearStatus\<close> of the driver.\<close>

definition connection_switch ::
  "indi_lib \<Rightarrow> bool ivector \<Rightarrow> ('x serial_driver_scheme \<Rightarrow> 'x serial_driver_scheme) \<Rightarrow>
   'x serial_driver_scheme \<Rightarrow> 'x serial_driver_scheme result"
where
  "connection_switch lib v clear d =
     rbind (elem (IUFindSwitch lib v ''CONNECT'')) (\<lambda>on.
       Inr (if on then d\<lparr>is_connected := True\<rparr> else if is_ready d then clear d else d))"

definition baud_rates :: "string list" where
  "baud_rates = [''9600'', ''19200'', ''38400'', ''57600'', ''115200'', ''230400'']"

definition baud_rate_switch ::
  "indi_lib \<Rightarrow> bool ivector \<Rightarrow> 'x serial_driver_scheme \<Rightarrow> 'x serial_driver_scheme result"
where
  "baud_rate_switch lib v d =
     rbind (first_on (IUFindSwitch lib v) baud_rates) (\<lambda>r.
       Inr (case r of None \<Rightarrow> d | Some rate \<Rightarrow> d\<lparr>indi_rate := rate\<rparr>))"

text \<open>
  The branch of \<open>newProperty\<close> for CONNECTION, once the pointer is stored and the state \<open>on\<close> of the
  switch read: if it is off, the first switch of the vector is set and the vector sent back.
\<close>

definition announce_connection ::
  "addr \<Rightarrow> bool \<Rightarrow> indi_mem \<Rightarrow> 'x indi_device_scheme \<Rightarrow> (indi_mem \<times> 'x indi_device_scheme) result"
where
  "announce_connection a on mem d =
     (let d = d\<lparr>is_connected := on\<rparr> in
      if on then Inr (mem, d)
      else rbind (load (switches mem) (At a)) (\<lambda>v.
           rbind (set_first True v) (\<lambda>v'.
           Inr (mem\<lparr>switches := (switches mem)(a := Some v')\<rparr>, request (SendSwitch v') d))))"

text \<open>The branch of \<open>newProperty\<close> for DRIVER_INFO: four assignments in this order.\<close>

definition driver_info ::
  "indi_lib \<Rightarrow> string option ivector \<Rightarrow> 'x serial_driver_scheme \<Rightarrow> 'x serial_driver_scheme result"
where
  "driver_info lib v d =
     rbind (elem_text (IUFindText lib v ''DRIVER_NAME'')) (\<lambda>name.
     rbind (elem_text (IUFindText lib v ''DRIVER_EXEC'')) (\<lambda>exec.
     rbind (elem_text (IUFindText lib v ''DRIVER_VERSION'')) (\<lambda>version.
     rbind (elem_text (IUFindText lib v ''DRIVER_INTERFACE'')) (\<lambda>interface.
       Inr (d\<lparr>device_name := name, indi_exec := exec, indi_version := version,
             indi_interface := interface\<rparr>)))))"

lemma first_on_mem: "first_on look ns = Inr (Some n) \<Longrightarrow> n \<in> set ns"
  by (auto simp: first_on_Some)

lemma baud_rate_switchE:
  assumes "baud_rate_switch lib v d = Inr d'"
  obtains "d' = d" | r where "r \<in> set baud_rates" "d' = d\<lparr>indi_rate := r\<rparr>"
  using assms first_on_mem [of "IUFindSwitch lib v" baud_rates]
  by (auto simp: baud_rate_switch_def rbind_Inr_iff split: option.splits)

lemma baud_rate_switch_ok:
  "baud_rate_switch lib v d = Inr d' \<longleftrightarrow>
     d' = d \<and> (\<forall>r \<in> set baud_rates. IUFindSwitch lib v r = Some False) \<or>
     (\<exists>ys r zs. baud_rates = ys @ r # zs \<and> IUFindSwitch lib v r = Some True \<and>
        (\<forall>y \<in> set ys. IUFindSwitch lib v y = Some False) \<and> d' = d\<lparr>indi_rate := r\<rparr>)"
proof -
  have "baud_rate_switch lib v d = Inr d' \<longleftrightarrow>
      d' = d \<and> first_on (IUFindSwitch lib v) baud_rates = Inr None \<or>
      (\<exists>r. first_on (IUFindSwitch lib v) baud_rates = Inr (Some r) \<and> d' = d\<lparr>indi_rate := r\<rparr>)"
    unfolding baud_rate_switch_def rbind_Inr_iff by (auto split: option.splits)
  then show ?thesis unfolding first_on_None first_on_Some by blast
qed

lemma baud_rate_switch_error:
  "baud_rate_switch lib v d = Inl e \<longleftrightarrow> e = NullDeref \<and>
     (\<exists>ys r zs. baud_rates = ys @ r # zs \<and> IUFindSwitch lib v r = None \<and>
        (\<forall>y \<in> set ys. IUFindSwitch lib v y = Some False))"
  unfolding baud_rate_switch_def rbind_Inl_iff first_on_error by auto

lemma driver_infoE:
  assumes "driver_info lib v d = Inr d'"
  obtains n x y z where
    "d' = d\<lparr>device_name := n, indi_exec := x, indi_version := y, indi_interface := z\<rparr>"
  using assms unfolding driver_info_def rbind_Inr_iff by blast

lemma connection_switchE:
  assumes "connection_switch lib v clear d = Inr d'"
  obtains "d' = d\<lparr>is_connected := True\<rparr>" | "is_ready d" "d' = clear d" | "d' = d"
  using assms unfolding connection_switch_def rbind_Inr_iff by (metis Inr_inject)

lemma announce_connectionE:
  assumes "announce_connection a on mem d = Inr (mem', d')"
  obtains "d' = d\<lparr>is_connected := on\<rparr>" | v where "d' = request (SendSwitch v) (d\<lparr>is_connected := on\<rparr>)"
  using assms unfolding announce_connection_def Let_def
  by (cases on) (auto simp: rbind_Inr_iff split: option.splits)

section \<open>The connection contract\<close>

text \<open>
  What a client does with a driver over time: it asks for a connection, where \<open>ok\<close> is the answer of
  the library if it is asked, or the library reports that the server is lost.
\<close>

datatype client_event = Connect string bool | ServerLost int

fun replay ::
  "(string \<Rightarrow> bool \<Rightarrow> 'd \<Rightarrow> ('d \<times> bool) result) \<Rightarrow> (int \<Rightarrow> 'd \<Rightarrow> 'd) \<Rightarrow> client_event list \<Rightarrow> 'd \<Rightarrow>
   ('d \<times> bool list) result"
where
  "replay conn lost [] d = Inr (d, [])"
| "replay conn lost (Connect n ok # es) d =
     rbind (conn n ok d) (\<lambda>(d', r). rbind (replay conn lost es d') (\<lambda>(d'', rs). Inr (d'', r # rs)))"
| "replay conn lost (ServerLost e # es) d = replay conn lost es (lost e d)"

text \<open>
  The same seen from outside: \<open>u\<close> is the connected flag, \<open>answers\<close> what the calls return, and
  \<open>dialled\<close> the calls that reach the server.
\<close>

fun answers :: "bool \<Rightarrow> client_event list \<Rightarrow> bool list" where
  "answers u [] = []"
| "answers u (Connect n ok # es) = (u \<or> ok) # answers (u \<or> ok) es"
| "answers u (ServerLost e # es) = answers u es"

fun dialled :: "bool \<Rightarrow> client_event list \<Rightarrow> (string \<times> bool) list" where
  "dialled u [] = []"
| "dialled u (Connect n ok # es) = (if u then [] else [(n, ok)]) @ dialled (u \<or> ok) es"
| "dialled u (ServerLost e # es) = dialled u es"

lemma dialled_up [simp]: "dialled True es = []"
  by (induction True es rule: dialled.induct) auto

lemma answers_up: "set (answers True es) \<subseteq> {True}"
  by (induction True es rule: answers.induct) auto

lemma answers_append:
  "answers u (es @ fs) = answers u es @ answers (u \<or> (\<exists>n. Connect n True \<in> set es)) fs"
proof (induction u es rule: answers.induct)
  case (2 u n ok es)
  then show ?case by (cases ok) (auto simp: ex_disj_distrib)
qed auto

lemma dialled_append:
  "dialled u (es @ fs) = dialled u es @ dialled (u \<or> (\<exists>n. Connect n True \<in> set es)) fs"
proof (induction u es rule: dialled.induct)
  case (2 u n ok es)
  then show ?case by (cases ok) (auto simp: ex_disj_distrib)
qed auto

text \<open>The requests of one call of \<open>connect\<close> that reaches the library.\<close>

definition dial :: "string \<Rightarrow> int \<Rightarrow> string \<times> bool \<Rightarrow> request list" where
  "dial host p c =
     [SetServer host p, WatchDevice (fst c), ConnectServer] @ (if snd c then [ConnectDevice (fst c)] else [])"

locale indi_client =
  fixes conn :: "string \<Rightarrow> bool \<Rightarrow> 'd \<Rightarrow> ('d \<times> bool) result"
    and lost :: "int \<Rightarrow> 'd \<Rightarrow> 'd"
    and up :: "'d \<Rightarrow> bool"
    and server :: "'d \<Rightarrow> string \<times> int"
    and usable :: "string \<times> int \<Rightarrow> bool"
    and sent :: "'d \<Rightarrow> request list"
  assumes conn_up: "up d \<Longrightarrow> conn n ok d = Inr (d, True)"
    and conn_down: "\<not> up d \<Longrightarrow> usable (server d) \<Longrightarrow>
      \<exists>d'. conn n ok d = Inr (d', ok) \<and> up d' = ok \<and> server d' = server d \<and>
           sent d' = sent d @ dial (fst (server d)) (snd (server d)) (n, ok)"
    and lost_up: "up (lost e d) = up d"
    and lost_server: "server (lost e d) = server d"
    and lost_sent: "sent (lost e d) = sent d"
begin

lemma replay_spec:
  "usable (server d) \<Longrightarrow>
   \<exists>d'. replay conn lost es d = Inr (d', answers (up d) es) \<and>
        sent d' = sent d @ concat (map (dial (fst (server d)) (snd (server d))) (dialled (up d) es)) \<and>
        server d' = server d \<and> (up d' \<longleftrightarrow> up d \<or> (\<exists>n. Connect n True \<in> set es))"
proof (induction es arbitrary: d)
  case (Cons ev es)
  show ?case
  proof (cases ev)
    case (ServerLost e)
    have "usable (server (lost e d))" using Cons.prems by (simp add: lost_server)
    from Cons.IH [OF this] show ?thesis by (simp add: ServerLost lost_up lost_server lost_sent)
  next
    case (Connect n ok)
    show ?thesis
    proof (cases "up d")
      case True
      with Cons.IH [OF Cons.prems] show ?thesis by (auto simp: Connect conn_up)
    next
      case False
      from conn_down [OF this Cons.prems] obtain d1 where d1:
        "conn n ok d = Inr (d1, ok)" "up d1 = ok" "server d1 = server d"
        "sent d1 = sent d @ dial (fst (server d)) (snd (server d)) (n, ok)" by blast
      with Cons.prems have "usable (server d1)" by simp
      from Cons.IH [OF this] d1 False show ?thesis by (cases ok) (auto simp: Connect)
    qed
  qed
qed simp

lemma never_dials_again:
  assumes "usable (server d)" "up d"
  shows "\<exists>d' rs. replay conn lost es d = Inr (d', rs) \<and> set rs \<subseteq> {True} \<and> sent d' = sent d"
proof -
  from replay_spec [OF assms(1), of es] obtain d' where
    "replay conn lost es d = Inr (d', answers (up d) es)"
    "sent d' = sent d @ concat (map (dial (fst (server d)) (snd (server d))) (dialled (up d) es))" by blast
  then show ?thesis using answers_up [of es] assms(2) by simp
qed

end

section \<open>Runs of a driver\<close>

text \<open>
  The callbacks of the library, in the order it makes them. Between two callbacks the library may
  change its memory in any way. \<open>step\<close> is the dispatch of a driver; a run stops at a callback that
  does not return normally.
\<close>

datatype indi_event =
    NewDevice addr string
  | RemoveDevice addr
  | NewProperty iproperty
  | NewSwitch addr
  | NewNumber addr
  | NewText addr
  | NewBLOB addr
  | ServerDisconnected int

inductive runs ::
  "(indi_event \<Rightarrow> indi_mem \<times> 'd \<Rightarrow> (indi_mem \<times> 'd) result) \<Rightarrow>
   indi_mem \<times> 'd \<Rightarrow> indi_event list \<Rightarrow> indi_mem \<times> 'd \<Rightarrow> bool"
  for step :: "indi_event \<Rightarrow> indi_mem \<times> 'd \<Rightarrow> (indi_mem \<times> 'd) result" and s :: "indi_mem \<times> 'd"
where
  Start: "runs step s [] s"
| Callback: "runs step s es s' \<Longrightarrow> step e s' = Inr s'' \<Longrightarrow> runs step s (es @ [e]) s''"
| Library: "runs step s es (mem, d) \<Longrightarrow> runs step s es (mem', d)"

text \<open>An invariant of runs that mentions the callbacks made so far.\<close>

lemma runs_invariant:
  assumes "runs step s es s'" "I [] (snd s)"
    and "\<And>es e mem d mem' d'. I es d \<Longrightarrow> step e (mem, d) = Inr (mem', d') \<Longrightarrow> I (es @ [e]) d'"
  shows "I es (snd s')"
  using assms(1)
proof induction
  case (Callback es s' e s'')
  then show ?case using assms(3) by (cases s'; cases s'') auto
qed (use assms(2) in simp_all)

definition announced :: "indi_event list \<Rightarrow> string \<Rightarrow> prop_type \<Rightarrow> pointer \<Rightarrow> bool" where
  "announced es n t p \<longleftrightarrow>
     (case p of At a \<Rightarrow> NewProperty \<lparr>prop_name = n, prop_type = t, prop_addr = a\<rparr> \<in> set es | _ \<Rightarrow> True)"

lemma announced_simps [simp]: "announced es n t Null" "announced es n t Indet"
  by (simp_all add: announced_def)

lemma announced_new:
  "prop_name p = n \<Longrightarrow> prop_type p = t \<Longrightarrow> announced (es @ [NewProperty p]) n t (At (prop_addr p))"
  by (auto simp: announced_def)

lemma announced_mono [intro]: "announced es n t p \<Longrightarrow> announced (es @ [e]) n t p"
  by (auto simp: announced_def split: pointer.splits)

end
