(* ===== verification/INDIFilterwheel.thy ===== *)
theory INDIFilterwheel
  imports Indi
begin

text \<open>
  The filter wheel driver of \<open>src/src/components/driver/indi/indifilterwheel.cpp\<close>, one definition
  per handler. Logging is left out, except where it reads memory: \<open>newText\<close> and \<open>newNumber\<close>
  dereference what they log.
\<close>

section \<open>Handlers\<close>

type_synonym filterwheel = serial_driver

definition INDIFilterwheel :: "bool \<Rightarrow> bool \<Rightarrow> string \<Rightarrow> filterwheel" where
  "INDIFilterwheel junk1 junk2 name = serial_init junk1 junk2 name"

definition ClearStatus :: "filterwheel \<Rightarrow> filterwheel" where
  "ClearStatus d =
     d\<lparr>connection_prop := Null, port_prop := Null, device_ptr := Null, rate_prop := Null,
       info_prop := Null\<rparr>"

definition newDevice :: "addr \<Rightarrow> string \<Rightarrow> filterwheel \<Rightarrow> filterwheel" where
  "newDevice dp dp_name d = (if dp_name = device_name d then d\<lparr>device_ptr := At dp\<rparr> else d)"

definition newSwitch :: "indi_lib \<Rightarrow> indi_mem \<Rightarrow> addr \<Rightarrow> filterwheel \<Rightarrow> filterwheel result" where
  "newSwitch lib mem svp d =
     rbind (load (switches mem) (At svp)) (\<lambda>v.
       if vec_name v = ''CONNECTION'' then connection_switch lib v ClearStatus d
       else if vec_name v = ''DEVICE_BAUD_RATE'' then baud_rate_switch lib v d
       else Inr d)"

definition newNumber :: "indi_mem \<Rightarrow> addr \<Rightarrow> filterwheel \<Rightarrow> filterwheel result" where
  "newNumber mem nvp d =
     rbind (load (numbers mem) (At nvp)) (\<lambda>_. rbind (points_to nvp (info_prop d)) (\<lambda>_. Inr d))"

definition newText :: "indi_mem \<Rightarrow> addr \<Rightarrow> filterwheel \<Rightarrow> filterwheel result" where
  "newText mem tvp d =
     rbind (load (texts mem) (At tvp)) (\<lambda>v. rbind (first_elem v) (\<lambda>_. Inr d))"

definition newBLOB :: "addr \<Rightarrow> filterwheel \<Rightarrow> filterwheel" where
  "newBLOB bp d = d"

definition newProperty ::
  "indi_lib \<Rightarrow> indi_mem \<Rightarrow> iproperty \<Rightarrow> filterwheel \<Rightarrow> (indi_mem \<times> filterwheel) result"
where
  "newProperty lib mem p d =
     (let PropName = prop_name p; Proptype = prop_type p; a = prop_addr p in
      if PropName = ''DEVICE_PORT'' \<and> Proptype = INDI_TEXT then
        Inr (mem, d\<lparr>port_prop := At a\<rparr>)
      else if PropName = ''CONNECTION'' \<and> Proptype = INDI_SWITCH then
        (let d = d\<lparr>connection_prop := At a\<rparr> in
         rbind (load (switches mem) (connection_prop d)) (\<lambda>v.
         rbind (elem (IUFindSwitch lib v ''CONNECT'')) (\<lambda>on.
           announce_connection a on mem d)))
      else if PropName = ''DRIVER_INFO'' \<and> Proptype = INDI_TEXT then
        rbind (load (texts mem) (At a)) (\<lambda>v. rbind (driver_info lib v d) (\<lambda>d. Inr (mem, d)))
      else if PropName = indi_cmd d @ ''INFO'' \<and> Proptype = INDI_NUMBER then
        (let d = d\<lparr>info_prop := At a\<rparr> in rbind (newNumber mem a d) (\<lambda>d. Inr (mem, d)))
      else if PropName = indi_cmd d @ ''DEVICE_BAUD_RATE'' \<and> Proptype = INDI_SWITCH then
        (let d = d\<lparr>rate_prop := At a\<rparr> in
         rbind (load (switches mem) (rate_prop d)) (\<lambda>v.
         rbind (baud_rate_switch lib v d) (\<lambda>d. Inr (mem, d))))
      else if PropName = indi_cmd d @ ''DEVICE_PORT'' \<and> Proptype = INDI_TEXT then
        rbind (load (texts mem) (At a)) (\<lambda>v.
        rbind (elem_text (IUFindText lib v ''PORT'')) (\<lambda>s. Inr (mem, d\<lparr>indi_port := s\<rparr>)))
      else Inr (mem, d))"

definition IndiServerConnected :: "filterwheel \<Rightarrow> filterwheel" where
  "IndiServerConnected d = d\<lparr>is_connected := True\<rparr>"

definition IndiServerDisconnected :: "int \<Rightarrow> filterwheel \<Rightarrow> filterwheel" where
  "IndiServerDisconnected exit_code d = ClearStatus d"

definition removeDevice :: "addr \<Rightarrow> filterwheel \<Rightarrow> filterwheel" where
  "removeDevice dp d = ClearStatus d"

definition callback ::
  "indi_lib \<Rightarrow> indi_event \<Rightarrow> indi_mem \<times> filterwheel \<Rightarrow> (indi_mem \<times> filterwheel) result"
where
  "callback lib e s = (case s of (mem, d) \<Rightarrow>
     (case e of
        NewDevice dp n \<Rightarrow> Inr (mem, newDevice dp n d)
      | RemoveDevice dp \<Rightarrow> Inr (mem, removeDevice dp d)
      | NewProperty p \<Rightarrow> newProperty lib mem p d
      | NewSwitch a \<Rightarrow> rbind (newSwitch lib mem a d) (\<lambda>d. Inr (mem, d))
      | NewNumber a \<Rightarrow> rbind (newNumber mem a d) (\<lambda>d. Inr (mem, d))
      | NewText a \<Rightarrow> rbind (newText mem a d) (\<lambda>d. Inr (mem, d))
      | NewBLOB a \<Rightarrow> Inr (mem, newBLOB a d)
      | ServerDisconnected c \<Rightarrow> Inr (mem, serverDisconnected IndiServerDisconnected c d)))"

section \<open>Operations\<close>

definition connect :: "string \<Rightarrow> bool \<Rightarrow> filterwheel \<Rightarrow> filterwheel \<times> bool" where
  "connect name ok d =
     (if is_connected d then (d, True)
      else
        (let d = request (WatchDevice name) (request (SetServer (hostname d) (port d)) d);
             (d, r) = connectServer ok IndiServerConnected d in
         if r then ((request (ConnectDevice name) d)\<lparr>is_connected := True\<rparr>, True)
         else (d\<lparr>is_connected := False\<rparr>, False)))"

definition disconnect :: "filterwheel \<Rightarrow> filterwheel \<times> bool" where
  "disconnect d = (d, True)"

definition reconnect :: "bool \<Rightarrow> filterwheel \<Rightarrow> filterwheel \<times> bool" where
  "reconnect ok d = (let (d, _) = disconnect d in connect (drv_name d) ok d)"

definition scanForAvailableDevices :: "filterwheel \<Rightarrow> filterwheel \<times> bool" where
  "scanForAvailableDevices d = (d, False)"

text \<open>No task has a name the driver knows: the pointer returned is null.\<close>

definition getSimpleTask :: "string \<Rightarrow> json \<Rightarrow> 'f basic_task option" where
  "getSimpleTask name params = None"

definition getCondtionalTask :: "string \<Rightarrow> json \<Rightarrow> 'f basic_task option" where
  "getCondtionalTask name params = None"

definition getLoopTask :: "string \<Rightarrow> json \<Rightarrow> 'f basic_task option" where
  "getLoopTask name params = None"

section \<open>Lemmas\<close>

lemma ClearStatus_simps [simp]:
  "is_connected (ClearStatus d) = is_connected d" "is_ready (ClearStatus d) = is_ready d"
  "requests (ClearStatus d) = requests d" "hostname (ClearStatus d) = hostname d"
  "port (ClearStatus d) = port d" "indi_port (ClearStatus d) = indi_port d"
  "indi_cmd (ClearStatus d) = indi_cmd d" "indi_rate (ClearStatus d) = indi_rate d"
  "drv_name (ClearStatus d) = drv_name d" "m_disconnecting (ClearStatus d) = m_disconnecting d"
  by (simp_all add: ClearStatus_def)

interpretation fw: indi_client
  "\<lambda>n ok d. Inr (INDIFilterwheel.connect n ok d)" "serverDisconnected IndiServerDisconnected"
  is_connected "\<lambda>d. (hostname d, port d)" "\<lambda>_. True" requests
  by unfold_locales
    (auto simp: connect_def connectServer_def dial_def request_def IndiServerConnected_def
      serverDisconnected_def IndiServerDisconnected_def)

text \<open>
  What holds after any callbacks: the flag, the port string and the command prefix are those of
  the constructor, and every pointer leads to a vector the library announced under the right
  name and type.
\<close>

definition fw_inv :: "bool \<Rightarrow> string \<Rightarrow> indi_event list \<Rightarrow> filterwheel \<Rightarrow> bool" where
  "fw_inv ready name es d \<longleftrightarrow>
     is_ready d = ready \<and> drv_name d = name \<and> indi_port d = [] \<and> indi_cmd d = [] \<and>
     indi_rate d \<in> insert [] (set baud_rates) \<and>
     announced es ''CONNECTION'' INDI_SWITCH (connection_prop d) \<and>
     announced es ''INFO'' INDI_NUMBER (info_prop d) \<and>
     announced es ''DEVICE_PORT'' INDI_TEXT (port_prop d) \<and>
     announced es ''DEVICE_BAUD_RATE'' INDI_SWITCH (rate_prop d)"

lemma fw_inv_init: "fw_inv j2 name [] (INDIFilterwheel j1 j2 name)"
  by (simp add: fw_inv_def INDIFilterwheel_def serial_init_def)

lemma fw_inv_mono: "fw_inv r n es d \<Longrightarrow> fw_inv r n (es @ [e]) d"
  by (auto simp: fw_inv_def)

lemma fw_inv_clear: "fw_inv r n es d \<Longrightarrow> fw_inv r n es (ClearStatus d)"
  by (simp add: fw_inv_def ClearStatus_def)

lemma fw_inv_connected: "fw_inv r n es (d\<lparr>is_connected := b\<rparr>) = fw_inv r n es d"
  "fw_inv r n es (request q d) = fw_inv r n es d" "fw_inv r n es (d\<lparr>m_disconnecting := b\<rparr>) = fw_inv r n es d"
  "fw_inv r n es (d\<lparr>device_ptr := p\<rparr>) = fw_inv r n es d"
  by (simp_all add: fw_inv_def request_def)

lemma fw_inv_baud: "fw_inv r n es d \<Longrightarrow> baud_rate_switch lib v d = Inr d' \<Longrightarrow> fw_inv r n es d'"
  by (erule baud_rate_switchE) (simp_all add: fw_inv_def)

lemma fw_inv_connection_switch:
  "fw_inv r n es d \<Longrightarrow> connection_switch lib v ClearStatus d = Inr d' \<Longrightarrow> fw_inv r n es d'"
  by (erule connection_switchE) (simp_all add: fw_inv_connected fw_inv_clear)

lemma fw_inv_driver_info: "fw_inv r n es d \<Longrightarrow> driver_info lib v d = Inr d' \<Longrightarrow> fw_inv r n es d'"
  by (erule driver_infoE) (simp add: fw_inv_def)

lemma fw_inv_announce_connection:
  "fw_inv r n es d \<Longrightarrow> announce_connection a on mem d = Inr (mem', d') \<Longrightarrow> fw_inv r n es d'"
  by (erule announce_connectionE) (simp_all add: fw_inv_connected)

lemma fw_inv_newSwitch: "fw_inv r n es d \<Longrightarrow> newSwitch lib mem a d = Inr d' \<Longrightarrow> fw_inv r n es d'"
  unfolding newSwitch_def
  by (elim rbind_InrE if_eqE) (blast dest: fw_inv_connection_switch fw_inv_baud Inr_inject)+

lemma newNumber_same: "newNumber mem a d = Inr d' \<Longrightarrow> d' = d"
  by (auto simp: newNumber_def rbind_Inr_iff)

lemma newText_same: "newText mem a d = Inr d' \<Longrightarrow> d' = d"
  by (auto simp: newText_def rbind_Inr_iff)

lemma fw_inv_store:
  assumes "fw_inv r n es d"
  shows "prop_name p = ''DEVICE_PORT'' \<and> prop_type p = INDI_TEXT \<Longrightarrow>
      fw_inv r n (es @ [NewProperty p]) (d\<lparr>port_prop := At (prop_addr p)\<rparr>)"
    "prop_name p = ''CONNECTION'' \<and> prop_type p = INDI_SWITCH \<Longrightarrow>
      fw_inv r n (es @ [NewProperty p]) (d\<lparr>connection_prop := At (prop_addr p)\<rparr>)"
    "prop_name p = indi_cmd d @ ''INFO'' \<and> prop_type p = INDI_NUMBER \<Longrightarrow>
      fw_inv r n (es @ [NewProperty p]) (d\<lparr>info_prop := At (prop_addr p)\<rparr>)"
    "prop_name p = indi_cmd d @ ''DEVICE_BAUD_RATE'' \<and> prop_type p = INDI_SWITCH \<Longrightarrow>
      fw_inv r n (es @ [NewProperty p]) (d\<lparr>rate_prop := At (prop_addr p)\<rparr>)"
  using fw_inv_mono [OF assms, of "NewProperty p"]
  by (simp_all add: fw_inv_def announced_new)

lemma fw_inv_newProperty:
  assumes inv: "fw_inv r n es d" and run: "newProperty lib mem p d = Inr (mem', d')"
  shows "fw_inv r n (es @ [NewProperty p]) d'"
  using run unfolding newProperty_def Let_def
proof (elim if_eqE rbind_InrE, goal_cases)
  case 1
  then show ?case using fw_inv_store(1) [OF inv] by blast
next
  case 2
  then show ?case using fw_inv_store(2) [OF inv] fw_inv_announce_connection by blast
next
  case (3 _ d1)
  then show ?case using fw_inv_driver_info [OF fw_inv_mono [OF inv]] by blast
next
  case (4 d1)
  then show ?case using fw_inv_store(3) [OF inv] newNumber_same by blast
next
  case (5 _ d1)
  then show ?case using fw_inv_store(4) [OF inv] fw_inv_baud by blast
next
  case 6
  from inv have "indi_cmd d = []" by (simp add: fw_inv_def)
  with 6 show ?case by (metis append_Nil)
next
  case 7
  then show ?case using fw_inv_mono [OF inv] by blast
qed

lemma fw_inv_callback:
  assumes "fw_inv r n es d" "callback lib e (mem, d) = Inr (mem', d')"
  shows "fw_inv r n (es @ [e]) d'"
proof -
  note inv = fw_inv_mono [OF assms(1), of e] and run = assms(2) [unfolded callback_def prod.case]
  show ?thesis
  proof (cases e)
    case (NewProperty p)
    then show ?thesis using fw_inv_newProperty [OF assms(1)] run by simp
  next
    case (NewSwitch a)
    then show ?thesis using fw_inv_newSwitch [OF inv] run by (auto simp: rbind_Inr_iff)
  qed (use inv run in
      \<open>auto dest!: newNumber_same newText_same simp: newBLOB_def newDevice_def removeDevice_def serverDisconnected_def IndiServerDisconnected_def
        fw_inv_connected fw_inv_clear
        rbind_Inr_iff split: if_splits\<close>)
qed

lemma fw_runs_inv:
  assumes "runs (callback lib) (mem, INDIFilterwheel j1 j2 name) es s"
  shows "fw_inv j2 name es (snd s)"
  using runs_invariant [OF assms, of "fw_inv j2 name"] fw_inv_init fw_inv_callback by fastforce

section \<open>Properties\<close>

text \<open>A switch update. CONNECTION: with CONNECT on the driver is connected; with it off the
  pointers are reset if the driver is ready, and the connected flag stays as it was.
  DEVICE_BAUD_RATE: the rate recorded is the first of the six whose switch is on, in increasing
  order; none on leaves it alone; the handler dereferences null exactly when a rate before the first
  one on is missing. Any other vector changes nothing.\<close>

theorem newSwitch_spec:
  assumes "switches mem a = Some v"
  shows "(vec_name v = ''CONNECTION'' \<longrightarrow>
      newSwitch lib mem a d =
        (case IUFindSwitch lib v ''CONNECT'' of
           None \<Rightarrow> Inl NullDeref
         | Some True \<Rightarrow> Inr (d\<lparr>is_connected := True\<rparr>)
         | Some False \<Rightarrow> Inr (if is_ready d then ClearStatus d else d))) \<and>
    (vec_name v = ''DEVICE_BAUD_RATE'' \<longrightarrow>
      (\<forall>d'. newSwitch lib mem a d = Inr d' \<longleftrightarrow>
         d' = d \<and> (\<forall>r \<in> set baud_rates. IUFindSwitch lib v r = Some False) \<or>
         (\<exists>ys r zs. baud_rates = ys @ r # zs \<and> IUFindSwitch lib v r = Some True \<and>
            (\<forall>y \<in> set ys. IUFindSwitch lib v y = Some False) \<and> d' = d\<lparr>indi_rate := r\<rparr>)) \<and>
      (\<forall>e. newSwitch lib mem a d = Inl e \<longleftrightarrow> e = NullDeref \<and>
         (\<exists>ys r zs. baud_rates = ys @ r # zs \<and> IUFindSwitch lib v r = None \<and>
            (\<forall>y \<in> set ys. IUFindSwitch lib v y = Some False)))) \<and>
    (vec_name v \<notin> {''CONNECTION'', ''DEVICE_BAUD_RATE''} \<longrightarrow> newSwitch lib mem a d = Inr d)"
proof (intro conjI impI, goal_cases)
  case 1
  then show ?case using assms
    by (cases "IUFindSwitch lib v ''CONNECT''") (auto simp: newSwitch_def connection_switch_def split: bool.splits)
next
  case 2
  with assms have "newSwitch lib mem a d = baud_rate_switch lib v d" by (simp add: newSwitch_def)
  then show ?case by (simp only: baud_rate_switch_ok simp_thms)
next
  case 3
  with assms have "newSwitch lib mem a d = baud_rate_switch lib v d" by (simp add: newSwitch_def)
  then show ?case by (simp only: baud_rate_switch_error simp_thms)
next
  case 4
  then show ?case using assms by (simp add: newSwitch_def)
qed

definition rates_vector :: "bool ivector" where
  "rates_vector = \<lparr>vec_name = ''DEVICE_BAUD_RATE'', vec_elems = [(''9600'', False), (''19200'', True)]\<rparr>"

lemma newSwitch_spec_witness:
  "\<forall>d. newSwitch lookup_lib \<lparr>switches = [1 \<mapsto> rates_vector], numbers = Map.empty, texts = Map.empty\<rparr> 1 d
     = Inr (d\<lparr>indi_rate := ''19200''\<rparr>)"
proof
  fix d
  let ?m = "\<lparr>switches = [1 \<mapsto> rates_vector], numbers = Map.empty, texts = Map.empty\<rparr>"
  have "baud_rates = [''9600''] @ ''19200'' # [''38400'', ''57600'', ''115200'', ''230400'']"
    by (simp add: baud_rates_def)
  moreover have "IUFindSwitch lookup_lib rates_vector ''19200'' = Some True"
    "\<forall>y \<in> set [''9600'']. IUFindSwitch lookup_lib rates_vector y = Some False"
    by (simp_all add: lookup_lib_def rates_vector_def)
  moreover have v: "switches ?m 1 = Some rates_vector" "vec_name rates_vector = ''DEVICE_BAUD_RATE''"
    by (simp_all add: rates_vector_def)
  note newSwitch_spec [OF v(1), THEN conjunct2, THEN conjunct1, THEN mp, OF v(2), THEN conjunct1, THEN spec, THEN iffD2]
  ultimately show "newSwitch lookup_lib ?m 1 d = Inr (d\<lparr>indi_rate := ''19200''\<rparr>)"
    by blast
qed

text \<open>After any callbacks, every pointer of the driver is null, uninitialised, or leads to a vector
  announced under the right name and type; the baud rate is empty or one of the six; and the port
  string is still empty, because the branch that would set it asks for the name an earlier
  branch has already taken.\<close>

theorem filterwheel_pointers:
  assumes "runs (callback lib) (mem, INDIFilterwheel j1 j2 name) es (mem', d)"
  shows "announced es ''CONNECTION'' INDI_SWITCH (connection_prop d) \<and>
    announced es ''INFO'' INDI_NUMBER (info_prop d) \<and>
    announced es ''DEVICE_PORT'' INDI_TEXT (port_prop d) \<and>
    announced es ''DEVICE_BAUD_RATE'' INDI_SWITCH (rate_prop d) \<and>
    indi_rate d \<in> insert [] (set baud_rates) \<and> indi_port d = [] \<and> is_ready d = j2"
  using fw_runs_inv [OF assms] by (simp add: fw_inv_def)

lemma filterwheel_pointers_witness:
  "announced [NewProperty \<lparr>prop_name = ''DEVICE_PORT'', prop_type = INDI_TEXT, prop_addr = 2\<rparr>]
     ''DEVICE_PORT'' INDI_TEXT (At 2)"
proof -
  let ?p = "\<lparr>prop_name = ''DEVICE_PORT'', prop_type = INDI_TEXT, prop_addr = 2\<rparr>"
  let ?m = "\<lparr>switches = Map.empty, numbers = Map.empty, texts = Map.empty\<rparr>"
  have "callback lookup_lib (NewProperty ?p) (?m, INDIFilterwheel False False ''EFW'')
      = Inr (?m, (INDIFilterwheel False False ''EFW'')\<lparr>port_prop := At 2\<rparr>)"
    by (simp add: callback_def newProperty_def)
  then have "runs (callback lookup_lib) (?m, INDIFilterwheel False False ''EFW'') ([] @ [NewProperty ?p])
      (?m, (INDIFilterwheel False False ''EFW'')\<lparr>port_prop := At 2\<rparr>)"
    by (rule runs.Callback [OF runs.Start])
  from filterwheel_pointers [OF this] show ?thesis by simp
qed

end
