(* ===== verification/INDITelescope.thy ===== *)
theory INDITelescope
  imports INDIFilterwheel
begin

text \<open>
  The telescope driver of \<open>src/src/components/driver/indi/inditelescope.cpp\<close>. Its callbacks repeat
  those of the filter wheel under other member names, which the lemma \<open>callback_eq\<close> states; its
  operations differ: \<open>connect\<close> checks the address, \<open>disconnect\<close> and \<open>reconnect\<close> do what they say,
  and what is not implemented throws.
\<close>

section \<open>Handlers\<close>

type_synonym telescope = serial_driver

definition INDITelescope :: "bool \<Rightarrow> bool \<Rightarrow> string \<Rightarrow> telescope" where
  "INDITelescope junk1 junk2 name = serial_init junk1 junk2 name"

definition ClearStatus :: "telescope \<Rightarrow> telescope" where
  "ClearStatus d =
     d\<lparr>connection_prop := Null, port_prop := Null, device_ptr := Null, rate_prop := Null,
       info_prop := Null\<rparr>"

definition newDevice :: "addr \<Rightarrow> string \<Rightarrow> telescope \<Rightarrow> telescope" where
  "newDevice dp dp_name d = (if dp_name = device_name d then d\<lparr>device_ptr := At dp\<rparr> else d)"

definition newSwitch :: "indi_lib \<Rightarrow> indi_mem \<Rightarrow> addr \<Rightarrow> telescope \<Rightarrow> telescope result" where
  "newSwitch lib mem svp d =
     rbind (load (switches mem) (At svp)) (\<lambda>v.
       if vec_name v = ''CONNECTION'' then connection_switch lib v ClearStatus d
       else if vec_name v = ''DEVICE_BAUD_RATE'' then baud_rate_switch lib v d
       else Inr d)"

definition newNumber :: "indi_mem \<Rightarrow> addr \<Rightarrow> telescope \<Rightarrow> telescope result" where
  "newNumber mem nvp d =
     rbind (load (numbers mem) (At nvp)) (\<lambda>_. rbind (points_to nvp (info_prop d)) (\<lambda>_. Inr d))"

definition newText :: "indi_mem \<Rightarrow> addr \<Rightarrow> telescope \<Rightarrow> telescope result" where
  "newText mem tvp d =
     rbind (load (texts mem) (At tvp)) (\<lambda>v. rbind (first_elem v) (\<lambda>_. Inr d))"

definition newBLOB :: "addr \<Rightarrow> telescope \<Rightarrow> telescope" where
  "newBLOB bp d = d"

definition newProperty ::
  "indi_lib \<Rightarrow> indi_mem \<Rightarrow> iproperty \<Rightarrow> telescope \<Rightarrow> (indi_mem \<times> telescope) result"
where
  "newProperty lib mem p d =
     (let PropName = prop_name p; Proptype = prop_type p; a = prop_addr p in
      if PropName = ''DEVICE_PORT'' \<and> Proptype = INDI_TEXT then
        Inr (mem, d\<lparr>port_prop := At a\<rparr>)
      else if PropName = ''CONNECTION'' \<and> Proptype = INDI_SWITCH then
        (let d = d\<lparr>connection_prop := At a\<rparr> in
         rbind (load (switches mem) (connection_prop d)) (\<lambda>v.
         rbind (elem (IUFindSwitch lib v ''CONNECT'')) (\<lambda>on.
           announce_connection a on mem d)))
      else if PropName = ''DRIVER_INFO'' \<and> Proptype = INDI_TEXT then
        rbind (load (texts mem) (At a)) (\<lambda>v. rbind (driver_info lib v d) (\<lambda>d. Inr (mem, d)))
      else if PropName = indi_cmd d @ ''INFO'' \<and> Proptype = INDI_NUMBER then
        (let d = d\<lparr>info_prop := At a\<rparr> in rbind (newNumber mem a d) (\<lambda>d. Inr (mem, d)))
      else if PropName = indi_cmd d @ ''DEVICE_BAUD_RATE'' \<and> Proptype = INDI_SWITCH then
        (let d = d\<lparr>rate_prop := At a\<rparr> in
         rbind (load (switches mem) (rate_prop d)) (\<lambda>v.
         rbind (baud_rate_switch lib v d) (\<lambda>d. Inr (mem, d))))
      else if PropName = indi_cmd d @ ''DEVICE_PORT'' \<and> Proptype = INDI_TEXT then
        rbind (load (texts mem) (At a)) (\<lambda>v.
        rbind (elem_text (IUFindText lib v ''PORT'')) (\<lambda>s. Inr (mem, d\<lparr>indi_port := s\<rparr>)))
      else Inr (mem, d))"

definition IndiServerConnected :: "telescope \<Rightarrow> telescope" where
  "IndiServerConnected d = d\<lparr>is_connected := True\<rparr>"

definition IndiServerDisconnected :: "int \<Rightarrow> telescope \<Rightarrow> telescope" where
  "IndiServerDisconnected exit_code d = ClearStatus d"

definition removeDevice :: "addr \<Rightarrow> telescope \<Rightarrow> telescope" where
  "removeDevice dp d = ClearStatus d"

definition callback ::
  "indi_lib \<Rightarrow> indi_event \<Rightarrow> indi_mem \<times> telescope \<Rightarrow> (indi_mem \<times> telescope) result"
where
  "callback lib e s = (case s of (mem, d) \<Rightarrow>
     (case e of
        NewDevice dp n \<Rightarrow> Inr (mem, newDevice dp n d)
      | RemoveDevice dp \<Rightarrow> Inr (mem, removeDevice dp d)
      | NewProperty p \<Rightarrow> newProperty lib mem p d
      | NewSwitch a \<Rightarrow> rbind (newSwitch lib mem a d) (\<lambda>d. Inr (mem, d))
      | NewNumber a \<Rightarrow> rbind (newNumber mem a d) (\<lambda>d. Inr (mem, d))
      | NewText a \<Rightarrow> rbind (newText mem a d) (\<lambda>d. Inr (mem, d))
      | NewBLOB a \<Rightarrow> Inr (mem, newBLOB a d)
      | ServerDisconnected c \<Rightarrow> Inr (mem, serverDisconnected IndiServerDisconnected c d)))"

section \<open>Operations\<close>

definition connect :: "string \<Rightarrow> bool \<Rightarrow> telescope \<Rightarrow> (telescope \<times> bool) result" where
  "connect name ok d =
     (if is_connected d then Inr (d, True)
      else if hostname d = [] \<or> port d = 0 then Inl (Throw ''Host or port not set!'')
      else
        (let d = request (WatchDevice name) (request (SetServer (hostname d) (port d)) d);
             (d, r) = connectServer ok IndiServerConnected d in
         if r then Inr ((request (ConnectDevice name) d)\<lparr>is_connected := True\<rparr>, True)
         else Inr (d\<lparr>is_connected := False\<rparr>, False)))"

definition disconnect :: "telescope \<Rightarrow> telescope \<times> bool" where
  "disconnect d =
     (if \<not> is_connected d then (d, True)
      else ((request DisconnectServer d)\<lparr>is_connected := False\<rparr>, True))"

definition reconnect :: "bool \<Rightarrow> telescope \<Rightarrow> (telescope \<times> bool) result" where
  "reconnect ok d = (let (d, r) = disconnect d in if r then connect (drv_name d) ok d else Inr (d, False))"

definition scanForAvailableDevices :: "telescope \<Rightarrow> bool result" where
  "scanForAvailableDevices d = Inl (Throw ''scanForAvailableDevices function not implemented'')"

definition SlewTo :: "string \<Rightarrow> string \<Rightarrow> bool \<Rightarrow> telescope \<Rightarrow> bool result" where
  "SlewTo ra dec j2000 d = Inl (Throw ''SlewTo function not implemented'')"

definition Abort :: "telescope \<Rightarrow> bool result" where
  "Abort d = Inl (Throw ''Abort function not implemented'')"

definition StartTracking :: "string \<Rightarrow> string \<Rightarrow> telescope \<Rightarrow> bool result" where
  "StartTracking model speed d = Inl (Throw ''StartTracking function not implemented'')"

definition StopTracking :: "telescope \<Rightarrow> bool" where
  "StopTracking d = (if \<not> is_connected d then False else True)"

definition setTrackingMode :: "string \<Rightarrow> telescope \<Rightarrow> bool" where
  "setTrackingMode mode d = (if \<not> is_connected d then False else True)"

definition setTrackingSpeed :: "string \<Rightarrow> telescope \<Rightarrow> bool" where
  "setTrackingSpeed speed d = (if \<not> is_connected d then False else True)"

definition Home :: "telescope \<Rightarrow> bool" where
  "Home d = (if \<not> is_connected d then False else True)"

definition isAtHome :: "telescope \<Rightarrow> bool" where
  "isAtHome d = (if \<not> is_connected d then False else True)"

definition setHomePosition :: "telescope \<Rightarrow> bool" where
  "setHomePosition d = (if \<not> is_connected d then False else True)"

definition Park :: "telescope \<Rightarrow> bool" where
  "Park d = (if \<not> is_connected d then False else True)"

definition Unpark :: "telescope \<Rightarrow> bool" where
  "Unpark d = (if \<not> is_connected d then False else True)"

definition isAtPark :: "telescope \<Rightarrow> bool" where
  "isAtPark d = (if \<not> is_connected d then False else True)"

definition setParkPosition :: "telescope \<Rightarrow> bool" where
  "setParkPosition d = (if \<not> is_connected d then False else True)"

definition getSimpleTask :: "string \<Rightarrow> json \<Rightarrow> 'f basic_task option" where
  "getSimpleTask name params = None"

definition getCondtionalTask :: "string \<Rightarrow> json \<Rightarrow> 'f basic_task option result" where
  "getCondtionalTask name params = Inl (Throw ''getCondtionalTask function not implemented'')"

definition getLoopTask :: "string \<Rightarrow> json \<Rightarrow> 'f basic_task option result" where
  "getLoopTask name params = Inl (Throw ''getLoopTask function not implemented'')"

section \<open>Lemmas\<close>

lemma ClearStatus_eq: "ClearStatus = INDIFilterwheel.ClearStatus"
  by (simp add: fun_eq_iff ClearStatus_def INDIFilterwheel.ClearStatus_def)

lemma newNumber_eq: "newNumber = INDIFilterwheel.newNumber"
  by (simp add: fun_eq_iff newNumber_def INDIFilterwheel.newNumber_def)

lemma callback_eq: "callback = INDIFilterwheel.callback"
proof -
  have "newSwitch = INDIFilterwheel.newSwitch"
    unfolding fun_eq_iff newSwitch_def INDIFilterwheel.newSwitch_def ClearStatus_eq by blast
  moreover have "newProperty = INDIFilterwheel.newProperty"
    unfolding fun_eq_iff newProperty_def INDIFilterwheel.newProperty_def newNumber_eq by blast
  moreover have "newDevice = INDIFilterwheel.newDevice" "removeDevice = INDIFilterwheel.removeDevice"
    "newText = INDIFilterwheel.newText" "newBLOB = INDIFilterwheel.newBLOB"
    "IndiServerDisconnected = INDIFilterwheel.IndiServerDisconnected"
    unfolding fun_eq_iff newDevice_def INDIFilterwheel.newDevice_def removeDevice_def
      INDIFilterwheel.removeDevice_def newText_def INDIFilterwheel.newText_def
      newBLOB_def INDIFilterwheel.newBLOB_def
      IndiServerDisconnected_def INDIFilterwheel.IndiServerDisconnected_def ClearStatus_eq
    by blast+
  ultimately show ?thesis
    by (intro ext) (simp only: callback_def INDIFilterwheel.callback_def newNumber_eq)
qed

interpretation ts: indi_client
  INDITelescope.connect "serverDisconnected IndiServerDisconnected"
  is_connected "\<lambda>d. (hostname d, port d)" "\<lambda>(h, p). h \<noteq> [] \<and> p \<noteq> 0" requests
  by unfold_locales
    (auto simp: connect_def connectServer_def dial_def request_def IndiServerConnected_def
      serverDisconnected_def IndiServerDisconnected_def ClearStatus_eq)

section \<open>Properties\<close>

text \<open>The callbacks of the telescope driver are those of the filter wheel driver, on every event and
  state. Unlike the filter wheel's, its \<open>reconnect\<close> reaches the server: from any state with an address
  it first disconnects if it was connected, then sets the server, watches and connects, and the flag
  and the result are the answer of the library. Without an address \<open>connect\<close> throws unless connected.\<close>

theorem telescope_reconnect:
  "callback lib e s = INDIFilterwheel.callback lib e s \<and>
   (if hostname d \<noteq> [] \<and> port d \<noteq> 0 then
      \<exists>d'. reconnect ok d = Inr (d', ok) \<and> is_connected d' = ok \<and>
        requests d' = requests d @ (if is_connected d then [DisconnectServer] else []) @
          [SetServer (hostname d) (port d), WatchDevice (drv_name d), ConnectServer] @
          (if ok then [ConnectDevice (drv_name d)] else [])
    else reconnect ok d = Inl (Throw ''Host or port not set!'')) \<and>
   (connect name ok d = Inl (Throw ''Host or port not set!'') \<longleftrightarrow>
      \<not> is_connected d \<and> (hostname d = [] \<or> port d = 0))"
  by (simp add: callback_eq) (auto simp: reconnect_def disconnect_def connect_def connectServer_def
      IndiServerConnected_def request_def Let_def)

end
