(* ===== verification/INDIFocuser.thy ===== *)
theory INDIFocuser
  imports Indi
begin

text \<open>
  The focuser driver of \<open>src/src/components/driver/indi/indifocuser.cpp\<close> with the members of
  \<open>src/src/components/device/focuser.hpp\<close>, one definition per handler.
\<close>

section \<open>State\<close>

record focuser = serial_driver +
  mode_prop :: pointer
  motion_prop :: pointer
  speed_prop :: pointer
  absolute_position_prop :: pointer
  relative_position_prop :: pointer
  max_position_prop :: pointer
  temperature_prop :: pointer
  delay_prop :: pointer
  backlash_prop :: pointer
  indi_max_position :: pointer
  indi_focuser_temperature :: pointer
  current_mode :: int
  current_motion :: int
  current_speed :: double
  current_position :: int
  max_position :: int
  current_temperature :: double
  can_absolute_move :: bool
  delay :: int
  has_backlash :: bool
  focuser_info :: json

text \<open>
  The constructor initialises only the members with an initialiser. The other scalars keep the
  values the memory of the object happened to hold, those of \<open>junk\<close>.
\<close>

definition INDIFocuser :: "focuser \<Rightarrow> string \<Rightarrow> focuser" where
  "INDIFocuser junk name =
     junk\<lparr>drv_name := name, device_name := [], hostname := ''127.0.0.1'', port := 7624,
       m_disconnecting := False, requests := [],
       connection_prop := Indet, info_prop := Indet, port_prop := Indet, rate_prop := Indet,
       device_ptr := Indet, indi_port := [], indi_rate := [], indi_cmd := [], indi_exec := [],
       indi_version := [], indi_interface := [],
       mode_prop := Indet, motion_prop := Indet, speed_prop := Indet,
       absolute_position_prop := Indet, relative_position_prop := Indet,
       max_position_prop := Indet, temperature_prop := Indet, delay_prop := Indet,
       backlash_prop := Indet, indi_max_position := Indet, indi_focuser_temperature := Indet,
       focuser_info := JNull\<rparr>"

text \<open>An object built in memory that held zeros.\<close>

definition zeroed :: focuser where
  "zeroed =
     \<lparr>drv_name = [], device_name = [], hostname = [], port = 0, is_connected = False, is_ready = False,
      m_disconnecting = False, requests = [], connection_prop = Null, info_prop = Null,
      port_prop = Null, rate_prop = Null, device_ptr = Null, indi_port = [], indi_rate = [],
      indi_cmd = [], indi_exec = [], indi_version = [], indi_interface = [],
      mode_prop = Null, motion_prop = Null, speed_prop = Null, absolute_position_prop = Null,
      relative_position_prop = Null, max_position_prop = Null, temperature_prop = Null,
      delay_prop = Null, backlash_prop = Null, indi_max_position = Null,
      indi_focuser_temperature = Null, current_mode = 0, current_motion = 0, current_speed = 0,
      current_position = 0, max_position = 0, current_temperature = 0, can_absolute_move = False,
      delay = 0, has_backlash = False, focuser_info = JNull\<rparr>"

definition ClearStatus :: "focuser \<Rightarrow> focuser" where
  "ClearStatus d =
     d\<lparr>connection_prop := Null, port_prop := Null, device_ptr := Null, mode_prop := Null,
       motion_prop := Null, speed_prop := Null, absolute_position_prop := Null,
       relative_position_prop := Null, max_position_prop := Null, temperature_prop := Null,
       rate_prop := Null, delay_prop := Null, backlash_prop := Null, indi_max_position := Null,
       indi_focuser_temperature := Null, info_prop := Null\<rparr>"

text \<open>A \<open>double\<close> assigned to an \<open>int\<close>: cut towards zero, undefined where that does not fit.\<close>

definition double_to_int :: "double \<Rightarrow> int result" where
  "double_to_int x =
     (let i = trunc_int x in if - (2 ^ 31) \<le> i \<and> i < 2 ^ 31 then Inr i else Inl IntOverflow)"

section \<open>Handlers\<close>

definition newDevice :: "addr \<Rightarrow> string \<Rightarrow> focuser \<Rightarrow> focuser" where
  "newDevice dp dp_name d = (if dp_name = device_name d then d\<lparr>device_ptr := At dp\<rparr> else d)"

definition mode_switch :: "indi_lib \<Rightarrow> bool ivector \<Rightarrow> focuser \<Rightarrow> focuser result" where
  "mode_switch lib v d =
     rbind (elem (IUFindSwitch lib v ''All'')) (\<lambda>on.
       if on then Inr (d\<lparr>can_absolute_move := True, current_mode := 0\<rparr>)
       else rbind (elem (IUFindSwitch lib v ''Absolute'')) (\<lambda>on.
         if on then Inr (d\<lparr>can_absolute_move := True, current_mode := 1\<rparr>)
         else Inr (d\<lparr>can_absolute_move := False, current_mode := 2\<rparr>)))"

definition newSwitch :: "indi_lib \<Rightarrow> indi_mem \<Rightarrow> addr \<Rightarrow> focuser \<Rightarrow> focuser result" where
  "newSwitch lib mem svp d =
     rbind (load (switches mem) (At svp)) (\<lambda>v.
       if vec_name v = ''CONNECTION'' then connection_switch lib v ClearStatus d
       else if vec_name v = ''Mode'' then mode_switch lib v d
       else if vec_name v = ''DEVICE_BAUD_RATE'' then baud_rate_switch lib v d
       else Inr d)"

definition newNumber :: "indi_lib \<Rightarrow> indi_mem \<Rightarrow> addr \<Rightarrow> focuser \<Rightarrow> focuser result" where
  "newNumber lib mem nvp d =
     rbind (load (numbers mem) (At nvp)) (\<lambda>_.
     rbind (points_to nvp (info_prop d)) (\<lambda>is_info.
       if is_info then Inr d
       else rbind (points_to nvp (temperature_prop d)) (\<lambda>is_temperature.
         if is_temperature then
           rbind (load (numbers mem) (temperature_prop d)) (\<lambda>v.
           rbind (elem (IUFindNumber lib v ''CCD_TEMPERATURE_VALUE'')) (\<lambda>x.
             Inr (d\<lparr>current_temperature := x\<rparr>)))
         else Inr d)))"

definition newText :: "indi_mem \<Rightarrow> addr \<Rightarrow> focuser \<Rightarrow> focuser result" where
  "newText mem tvp d =
     rbind (load (texts mem) (At tvp)) (\<lambda>v. rbind (first_elem v) (\<lambda>_. Inr d))"

definition newBLOB :: "addr \<Rightarrow> focuser \<Rightarrow> focuser" where
  "newBLOB bp d = d"

text \<open>The three cases of the type switch in \<open>newProperty\<close>.\<close>

definition text_property ::
  "indi_lib \<Rightarrow> indi_mem \<Rightarrow> iproperty \<Rightarrow> focuser \<Rightarrow> (indi_mem \<times> focuser) result"
where
  "text_property lib mem p d =
     (let PropName = prop_name p; a = prop_addr p in
      if PropName = ''DEVICE_PORT'' then Inr (mem, d\<lparr>port_prop := At a\<rparr>)
      else if PropName = ''DRIVER_INFO'' then
        rbind (load (texts mem) (At a)) (\<lambda>v.
        rbind (driver_info lib v d) (\<lambda>d.
        rbind (j_assign [''driver'', ''name''] (JStr (device_name d)) (focuser_info d)) (\<lambda>j1.
        rbind (j_assign [''driver'', ''exec''] (JStr (indi_exec d)) j1) (\<lambda>j2.
        rbind (j_assign [''driver'', ''version''] (JStr (indi_version d)) j2) (\<lambda>j3.
        rbind (j_assign [''driver'', ''interfaces''] (JStr (indi_interface d)) j3) (\<lambda>j4.
          Inr (mem, d\<lparr>focuser_info := j4\<rparr>)))))))
      else if PropName = indi_cmd d @ ''DEVICE_PORT'' then
        rbind (load (texts mem) (At a)) (\<lambda>v.
        rbind (elem_text (IUFindText lib v ''PORT'')) (\<lambda>s. Inr (mem, d\<lparr>indi_port := s\<rparr>)))
      else Inr (mem, d))"

definition switch_property ::
  "indi_lib \<Rightarrow> indi_mem \<Rightarrow> iproperty \<Rightarrow> bool \<Rightarrow> focuser \<Rightarrow> (indi_mem \<times> focuser) result"
where
  "switch_property lib mem p switch_on d =
     (let PropName = prop_name p; a = prop_addr p in
      if PropName = ''CONNECTION'' then
        announce_connection a switch_on mem (d\<lparr>connection_prop := At a\<rparr>)
      else if PropName = indi_cmd d @ ''Mode'' then
        rbind (newSwitch lib mem a (d\<lparr>mode_prop := At a\<rparr>)) (\<lambda>d. Inr (mem, d))
      else if PropName = indi_cmd d @ ''DEVICE_BAUD_RATE'' then
        (let d = d\<lparr>rate_prop := At a\<rparr> in
         rbind (load (switches mem) (rate_prop d)) (\<lambda>v.
         rbind (baud_rate_switch lib v d) (\<lambda>d. Inr (mem, d))))
      else if PropName = indi_cmd d @ ''FOCUS_MOTION'' then
        rbind (load (switches mem) (motion_prop d)) (\<lambda>v.
        rbind (elem (IUFindSwitch lib v ''FOCUS_INWARD'')) (\<lambda>on.
          Inr (mem, d\<lparr>current_motion := (if on then 0 else 1)\<rparr>)))
      else if PropName = indi_cmd d @ ''FOCUS_BACKLASH_TOGGLE'' then
        rbind (load (switches mem) (backlash_prop d)) (\<lambda>v.
        rbind (elem (IUFindSwitch lib v ''INDI_ENABLED'')) (\<lambda>on.
          Inr (mem, d\<lparr>has_backlash := on\<rparr>)))
      else Inr (mem, d))"

definition number_property ::
  "indi_lib \<Rightarrow> indi_mem \<Rightarrow> iproperty \<Rightarrow> double \<Rightarrow> focuser \<Rightarrow> (indi_mem \<times> focuser) result"
where
  "number_property lib mem p prop_value d =
     (let PropName = prop_name p; a = prop_addr p in
      if PropName = indi_cmd d @ ''INFO'' then
        rbind (newNumber lib mem a (d\<lparr>info_prop := At a\<rparr>)) (\<lambda>d. Inr (mem, d))
      else if PropName = indi_cmd d @ ''FOCUS_SPEED'' then
        Inr (mem, d\<lparr>speed_prop := At a, current_speed := prop_value\<rparr>)
      else if PropName = indi_cmd d @ ''ABS_FOCUS_POSITION'' then
        rbind (double_to_int prop_value) (\<lambda>i.
          Inr (mem, d\<lparr>absolute_position_prop := At a, current_position := i\<rparr>))
      else if PropName = indi_cmd d @ ''DELAY'' then
        rbind (double_to_int prop_value) (\<lambda>i. Inr (mem, d\<lparr>delay_prop := At a, delay := i\<rparr>))
      else if PropName = indi_cmd d @ ''FOCUS_TEMPERATURE'' then
        Inr (mem, d\<lparr>temperature_prop := At a, current_temperature := prop_value\<rparr>)
      else if PropName = indi_cmd d @ ''FOCUS_MAX'' then
        rbind (double_to_int prop_value) (\<lambda>i.
          Inr (mem, d\<lparr>max_position_prop := At a, max_position := i\<rparr>))
      else Inr (mem, d))"

definition newProperty ::
  "indi_lib \<Rightarrow> indi_mem \<Rightarrow> iproperty \<Rightarrow> focuser \<Rightarrow> (indi_mem \<times> focuser) result"
where
  "newProperty lib mem p d =
     (if prop_type p \<noteq> INDI_TEXT \<and> prop_type p \<noteq> INDI_SWITCH \<and> prop_type p \<noteq> INDI_NUMBER then Inr (mem, d)
      else if prop_name p = [] then Inr (mem, d)
      else if prop_type p = INDI_SWITCH then
        rbind (load (switches mem) (At (prop_addr p))) (\<lambda>v.
          switch_property lib mem p
            (case IUFindSwitch lib v ''CONNECT'' of None \<Rightarrow> False | Some on \<Rightarrow> on) d)
      else if prop_type p = INDI_NUMBER then
        rbind (load (numbers mem) (At (prop_addr p))) (\<lambda>v.
          case IUFindNumber lib v ''FOCUS_ABSOLUTE_POSITION'' of
            None \<Rightarrow> Inr (mem, d)
          | Some prop_value \<Rightarrow> number_property lib mem p prop_value d)
      else text_property lib mem p d)"

definition IndiServerConnected :: "focuser \<Rightarrow> focuser" where
  "IndiServerConnected d = d\<lparr>is_connected := True\<rparr>"

definition IndiServerDisconnected :: "int \<Rightarrow> focuser \<Rightarrow> focuser" where
  "IndiServerDisconnected exit_code d = ClearStatus d"

definition removeDevice :: "addr \<Rightarrow> focuser \<Rightarrow> focuser" where
  "removeDevice dp d = ClearStatus d"

definition callback ::
  "indi_lib \<Rightarrow> indi_event \<Rightarrow> indi_mem \<times> focuser \<Rightarrow> (indi_mem \<times> focuser) result"
where
  "callback lib e s = (case s of (mem, d) \<Rightarrow>
     (case e of
        NewDevice dp n \<Rightarrow> Inr (mem, newDevice dp n d)
      | RemoveDevice dp \<Rightarrow> Inr (mem, removeDevice dp d)
      | NewProperty p \<Rightarrow> newProperty lib mem p d
      | NewSwitch a \<Rightarrow> rbind (newSwitch lib mem a d) (\<lambda>d. Inr (mem, d))
      | NewNumber a \<Rightarrow> rbind (newNumber lib mem a d) (\<lambda>d. Inr (mem, d))
      | NewText a \<Rightarrow> rbind (newText mem a d) (\<lambda>d. Inr (mem, d))
      | NewBLOB a \<Rightarrow> Inr (mem, newBLOB a d)
      | ServerDisconnected c \<Rightarrow> Inr (mem, serverDisconnected IndiServerDisconnected c d)))"

section \<open>Operations\<close>

definition connect :: "string \<Rightarrow> bool \<Rightarrow> focuser \<Rightarrow> focuser \<times> bool" where
  "connect name ok d =
     (if is_connected d then (d, True)
      else
        (let d = request (WatchDevice name) (request (SetServer (hostname d) (port d)) d);
             (d, r) = connectServer ok IndiServerConnected d in
         if r then ((request (ConnectDevice name) d)\<lparr>is_connected := True\<rparr>, True)
         else (d\<lparr>is_connected := False\<rparr>, False)))"

definition disconnect :: "focuser \<Rightarrow> focuser \<times> bool" where
  "disconnect d = (d, True)"

definition reconnect :: "bool \<Rightarrow> focuser \<Rightarrow> focuser \<times> bool" where
  "reconnect ok d = (let (d, _) = disconnect d in connect (drv_name d) ok d)"

definition scanForAvailableDevices :: "focuser \<Rightarrow> bool" where
  "scanForAvailableDevices d = False"

text \<open>A move: the memory and the driver afterwards, and the value returned.\<close>

definition moveToAbsolute :: "indi_mem \<Rightarrow> int \<Rightarrow> focuser \<Rightarrow> (indi_mem \<times> focuser \<times> bool) result" where
  "moveToAbsolute mem position d =
     (if \<not> is_connected d then Inr (mem, d, False)
      else rbind (is_null (absolute_position_prop d)) (\<lambda>null.
        if null then Inr (mem, d, False)
        else if position > max_position d then Inr (mem, d, False)
        else
          rbind (load (numbers mem) (absolute_position_prop d)) (\<lambda>v.
          rbind (set_first (of_int position) v) (\<lambda>v'.
            Inr (mem\<lparr>numbers := store (absolute_position_prop d) v' (numbers mem)\<rparr>,
                 request (SendNumber v') d, True)))))"

definition moveTo :: "indi_mem \<Rightarrow> int \<Rightarrow> focuser \<Rightarrow> (indi_mem \<times> focuser \<times> bool) result" where
  "moveTo mem position d = moveToAbsolute mem position d"

definition moveStepAbsolute :: "int \<Rightarrow> focuser \<Rightarrow> bool" where
  "moveStepAbsolute step d = False"

definition moveStep :: "int \<Rightarrow> focuser \<Rightarrow> bool" where
  "moveStep step d = moveStepAbsolute step d"

definition AbortMove :: "focuser \<Rightarrow> bool" where
  "AbortMove d = False"

definition setMaxPosition :: "int \<Rightarrow> focuser \<Rightarrow> bool" where
  "setMaxPosition position d = False"

definition getTemperature :: "indi_mem \<Rightarrow> focuser \<Rightarrow> double result" where
  "getTemperature mem d =
     rbind (is_null (temperature_prop d)) (\<lambda>null.
       if null then Inr (- 1)
       else rbind (load (numbers mem) (temperature_prop d)) first_elem)"

definition haveBacklash :: "focuser \<Rightarrow> bool" where
  "haveBacklash d = False"

definition setBacklash :: "int \<Rightarrow> focuser \<Rightarrow> bool" where
  "setBacklash value d = False"

section \<open>Tasks\<close>

text \<open>
  The functions a task may hold. The parameters are passed as \<open>{params}\<close>, which the compilers read
  differently (as the value itself or as an array holding it): \<open>brace\<close> stands for that choice.
\<close>

datatype focuser_fn =
    FMoveToAbsolute | FMoveStepAbsolute | FAbortMove | FGetMaxPosition | FSetMaxPosition
  | FHaveBacklash | FSetBacklash

definition getSimpleTask :: "int \<Rightarrow> (json \<Rightarrow> json) \<Rightarrow> string \<Rightarrow> json \<Rightarrow> focuser_fn basic_task option" where
  "getSimpleTask junk brace name params =
     (let task = (\<lambda>f. Some (make_SimpleTask junk (Some f) (brace params) None False)) in
      if name = ''MoveToAbsolute'' then task FMoveToAbsolute
      else if name = ''MoveStepAbsolute'' then task FMoveStepAbsolute
      else if name = ''AbortMove'' then task FAbortMove
      else if name = ''GetMaxPosition'' then task FGetMaxPosition
      else if name = ''SetMaxPosition'' then task FSetMaxPosition
      else if name = ''HaveBacklash'' then task FHaveBacklash
      else if name = ''SetBacklash'' then task FSetBacklash
      else None)"

text \<open>
  What calling a function does; \<open>getMaxPosition\<close> has no definition in the repository and is an
  argument.
\<close>

definition call_focuser_fn ::
  "(focuser \<Rightarrow> focuser) \<Rightarrow> focuser_fn \<Rightarrow> json \<Rightarrow> indi_mem \<times> focuser \<Rightarrow> (indi_mem \<times> focuser) result"
where
  "call_focuser_fn getMaxPosition f p s = (case s of (mem, d) \<Rightarrow>
     (case f of
        FMoveToAbsolute \<Rightarrow>
          rbind (rbind (j_at ''position'' p) j_get_int) (\<lambda>i.
          rbind (moveToAbsolute mem i d) (\<lambda>(mem, d, _). Inr (mem, d)))
      | FMoveStepAbsolute \<Rightarrow>
          rbind (rbind (j_at ''step'' p) j_get_int) (\<lambda>i. let _ = moveStepAbsolute i d in Inr (mem, d))
      | FAbortMove \<Rightarrow> (let _ = AbortMove d in Inr (mem, d))
      | FGetMaxPosition \<Rightarrow> Inr (mem, getMaxPosition d)
      | FSetMaxPosition \<Rightarrow>
          rbind (rbind (j_at ''max_position'' p) j_get_int) (\<lambda>i. let _ = setMaxPosition i d in Inr (mem, d))
      | FHaveBacklash \<Rightarrow> (let _ = haveBacklash d in Inr (mem, d))
      | FSetBacklash \<Rightarrow>
          rbind (rbind (j_at ''backlash'' p) j_get_int) (\<lambda>i. let _ = setBacklash i d in Inr (mem, d))))"

definition getCondtionalTask :: "string \<Rightarrow> json \<Rightarrow> 'f basic_task option" where
  "getCondtionalTask name params = None"

definition getLoopTask :: "string \<Rightarrow> json \<Rightarrow> 'f basic_task option" where
  "getLoopTask name params = None"

section \<open>Lemmas\<close>

interpretation fo: indi_client
  "\<lambda>n ok d. Inr (INDIFocuser.connect n ok d)" "serverDisconnected IndiServerDisconnected"
  is_connected "\<lambda>d. (hostname d, port d)" "\<lambda>_. True" requests
  by unfold_locales
    (auto simp: connect_def connectServer_def dial_def request_def IndiServerConnected_def
      serverDisconnected_def IndiServerDisconnected_def ClearStatus_def)

text \<open>
  What holds after any callbacks. \<open>motion_prop\<close> and \<open>backlash_prop\<close> never lead anywhere: no handler
  stores an address in them.
\<close>

definition focuser_inv :: "bool \<Rightarrow> indi_event list \<Rightarrow> focuser \<Rightarrow> bool" where
  "focuser_inv ready es d \<longleftrightarrow>
     is_ready d = ready \<and> indi_port d = [] \<and> indi_cmd d = [] \<and>
     motion_prop d \<in> {Null, Indet} \<and> backlash_prop d \<in> {Null, Indet} \<and>
     relative_position_prop d \<in> {Null, Indet} \<and>
     announced es ''CONNECTION'' INDI_SWITCH (connection_prop d) \<and>
     announced es ''Mode'' INDI_SWITCH (mode_prop d) \<and>
     announced es ''DEVICE_BAUD_RATE'' INDI_SWITCH (rate_prop d) \<and>
     announced es ''DEVICE_PORT'' INDI_TEXT (port_prop d) \<and>
     announced es ''INFO'' INDI_NUMBER (info_prop d) \<and>
     announced es ''FOCUS_SPEED'' INDI_NUMBER (speed_prop d) \<and>
     announced es ''ABS_FOCUS_POSITION'' INDI_NUMBER (absolute_position_prop d) \<and>
     announced es ''DELAY'' INDI_NUMBER (delay_prop d) \<and>
     announced es ''FOCUS_TEMPERATURE'' INDI_NUMBER (temperature_prop d) \<and>
     announced es ''FOCUS_MAX'' INDI_NUMBER (max_position_prop d)"

lemma focuser_inv_init: "focuser_inv (is_ready junk) [] (INDIFocuser junk name)"
  by (simp add: focuser_inv_def INDIFocuser_def)

lemma focuser_inv_mono: "focuser_inv r es d \<Longrightarrow> focuser_inv r (es @ [e]) d"
  by (auto simp: focuser_inv_def)

lemma focuser_inv_clear: "focuser_inv r es d \<Longrightarrow> focuser_inv r es (ClearStatus d)"
  by (simp add: focuser_inv_def ClearStatus_def)

lemma focuser_inv_data [simp]:
  "focuser_inv r es (d\<lparr>is_connected := b\<rparr>) = focuser_inv r es d"
  "focuser_inv r es (request q d) = focuser_inv r es d"
  "focuser_inv r es (d\<lparr>m_disconnecting := b\<rparr>) = focuser_inv r es d"
  "focuser_inv r es (d\<lparr>device_ptr := p\<rparr>) = focuser_inv r es d"
  "focuser_inv r es (d\<lparr>indi_rate := x\<rparr>) = focuser_inv r es d"
  "focuser_inv r es (d\<lparr>can_absolute_move := b\<rparr>) = focuser_inv r es d"
  "focuser_inv r es (d\<lparr>current_mode := i\<rparr>) = focuser_inv r es d"
  "focuser_inv r es (d\<lparr>current_motion := i\<rparr>) = focuser_inv r es d"
  "focuser_inv r es (d\<lparr>has_backlash := b\<rparr>) = focuser_inv r es d"
  "focuser_inv r es (d\<lparr>current_temperature := y\<rparr>) = focuser_inv r es d"
  "focuser_inv r es (d\<lparr>current_speed := y\<rparr>) = focuser_inv r es d"
  "focuser_inv r es (d\<lparr>current_position := i\<rparr>) = focuser_inv r es d"
  "focuser_inv r es (d\<lparr>max_position := i\<rparr>) = focuser_inv r es d"
  "focuser_inv r es (d\<lparr>delay := i\<rparr>) = focuser_inv r es d"
  "focuser_inv r es (d\<lparr>focuser_info := j\<rparr>) = focuser_inv r es d"
  by (simp_all add: focuser_inv_def request_def)

lemma focuser_inv_driver_info:
  "focuser_inv r es d \<Longrightarrow> driver_info lib v d = Inr d' \<Longrightarrow> focuser_inv r es d'"
  by (erule driver_infoE) (simp add: focuser_inv_def)

lemma focuser_inv_announce_connection:
  "focuser_inv r es d \<Longrightarrow> announce_connection a on mem d = Inr (mem', d') \<Longrightarrow> focuser_inv r es d'"
  by (erule announce_connectionE) simp_all

lemma focuser_inv_baud: "focuser_inv r es d \<Longrightarrow> baud_rate_switch lib v d = Inr d' \<Longrightarrow> focuser_inv r es d'"
  by (erule baud_rate_switchE) simp_all

lemma focuser_inv_connection_switch:
  "focuser_inv r es d \<Longrightarrow> connection_switch lib v ClearStatus d = Inr d' \<Longrightarrow> focuser_inv r es d'"
  by (erule connection_switchE) (simp_all add: focuser_inv_clear)

lemma focuser_inv_mode: "focuser_inv r es d \<Longrightarrow> mode_switch lib v d = Inr d' \<Longrightarrow> focuser_inv r es d'"
  unfolding mode_switch_def by (elim rbind_InrE if_eqE) auto

lemma focuser_inv_newSwitch: "focuser_inv r es d \<Longrightarrow> newSwitch lib mem a d = Inr d' \<Longrightarrow> focuser_inv r es d'"
  unfolding newSwitch_def
  by (elim rbind_InrE if_eqE)
    (blast dest: focuser_inv_connection_switch focuser_inv_mode focuser_inv_baud Inr_inject)+

lemma focuser_inv_newNumber:
  "focuser_inv r es d \<Longrightarrow> newNumber lib mem a d = Inr d' \<Longrightarrow> focuser_inv r es d'"
  unfolding newNumber_def by (elim rbind_InrE if_eqE) auto

lemma focuser_newText_same: "newText mem a d = Inr d' \<Longrightarrow> d' = d"
  by (auto simp: newText_def rbind_Inr_iff)

lemma focuser_inv_store:
  assumes "focuser_inv r es d"
  shows
    "prop_name p = ''DEVICE_PORT'' \<Longrightarrow> prop_type p = INDI_TEXT \<Longrightarrow>
      focuser_inv r (es @ [NewProperty p]) (d\<lparr>port_prop := At (prop_addr p)\<rparr>)"
    "prop_name p = ''CONNECTION'' \<Longrightarrow> prop_type p = INDI_SWITCH \<Longrightarrow>
      focuser_inv r (es @ [NewProperty p]) (d\<lparr>connection_prop := At (prop_addr p)\<rparr>)"
    "prop_name p = indi_cmd d @ ''Mode'' \<Longrightarrow> prop_type p = INDI_SWITCH \<Longrightarrow>
      focuser_inv r (es @ [NewProperty p]) (d\<lparr>mode_prop := At (prop_addr p)\<rparr>)"
    "prop_name p = indi_cmd d @ ''DEVICE_BAUD_RATE'' \<Longrightarrow> prop_type p = INDI_SWITCH \<Longrightarrow>
      focuser_inv r (es @ [NewProperty p]) (d\<lparr>rate_prop := At (prop_addr p)\<rparr>)"
    "prop_name p = indi_cmd d @ ''INFO'' \<Longrightarrow> prop_type p = INDI_NUMBER \<Longrightarrow>
      focuser_inv r (es @ [NewProperty p]) (d\<lparr>info_prop := At (prop_addr p)\<rparr>)"
    "prop_name p = indi_cmd d @ ''FOCUS_SPEED'' \<Longrightarrow> prop_type p = INDI_NUMBER \<Longrightarrow>
      focuser_inv r (es @ [NewProperty p]) (d\<lparr>speed_prop := At (prop_addr p)\<rparr>)"
    "prop_name p = indi_cmd d @ ''ABS_FOCUS_POSITION'' \<Longrightarrow> prop_type p = INDI_NUMBER \<Longrightarrow>
      focuser_inv r (es @ [NewProperty p]) (d\<lparr>absolute_position_prop := At (prop_addr p)\<rparr>)"
    "prop_name p = indi_cmd d @ ''DELAY'' \<Longrightarrow> prop_type p = INDI_NUMBER \<Longrightarrow>
      focuser_inv r (es @ [NewProperty p]) (d\<lparr>delay_prop := At (prop_addr p)\<rparr>)"
    "prop_name p = indi_cmd d @ ''FOCUS_TEMPERATURE'' \<Longrightarrow> prop_type p = INDI_NUMBER \<Longrightarrow>
      focuser_inv r (es @ [NewProperty p]) (d\<lparr>temperature_prop := At (prop_addr p)\<rparr>)"
    "prop_name p = indi_cmd d @ ''FOCUS_MAX'' \<Longrightarrow> prop_type p = INDI_NUMBER \<Longrightarrow>
      focuser_inv r (es @ [NewProperty p]) (d\<lparr>max_position_prop := At (prop_addr p)\<rparr>)"
  using focuser_inv_mono [OF assms, of "NewProperty p"]
  by (simp_all add: focuser_inv_def announced_new)

lemma focuser_inv_text:
  assumes inv: "focuser_inv r es d" and t: "prop_type p = INDI_TEXT"
    and run: "text_property lib mem p d = Inr (mem', d')"
  shows "focuser_inv r (es @ [NewProperty p]) d'"
  using run unfolding text_property_def Let_def
proof (elim if_eqE rbind_InrE, goal_cases)
  case 1
  then show ?case using focuser_inv_store(1) [OF inv _ t] by blast
next
  case (2 _ d1)
  have "focuser_inv r (es @ [NewProperty p]) d1"
    using 2 focuser_inv_driver_info [OF focuser_inv_mono [OF inv]] by blast
  with 2 show ?case using focuser_inv_data(15) by blast
next
  case 3
  from inv have "indi_cmd d = []" by (simp add: focuser_inv_def)
  with 3 show ?case by (metis append_Nil)
next
  case 4
  then show ?case using focuser_inv_mono [OF inv] by blast
qed

lemma focuser_no_motion:
  "focuser_inv r es d \<Longrightarrow> \<exists>e. load m (motion_prop d) = Inl e"
  "focuser_inv r es d \<Longrightarrow> \<exists>e. load m (backlash_prop d) = Inl e"
  by (auto simp: focuser_inv_def)

lemma focuser_inv_switch:
  assumes inv: "focuser_inv r es d" and t: "prop_type p = INDI_SWITCH"
    and run: "switch_property lib mem p on d = Inr (mem', d')"
  shows "focuser_inv r (es @ [NewProperty p]) d'"
  using run unfolding switch_property_def Let_def
proof (elim if_eqE rbind_InrE, goal_cases)
  case 1
  then show ?case using focuser_inv_store(2) [OF inv _ t] focuser_inv_announce_connection by blast
next
  case (2 d1)
  then show ?case using focuser_inv_store(3) [OF inv _ t] focuser_inv_newSwitch by blast
next
  case (3 _ d1)
  then show ?case using focuser_inv_store(4) [OF inv _ t] focuser_inv_baud by blast
next
  case 4
  then show ?case using focuser_no_motion(1) [OF inv] by (metis sum.distinct(1))
next
  case 5
  then show ?case using focuser_no_motion(2) [OF inv] by (metis sum.distinct(1))
next
  case 6
  then show ?case using focuser_inv_mono [OF inv] by blast
qed

lemma focuser_inv_number:
  assumes inv: "focuser_inv r es d" and t: "prop_type p = INDI_NUMBER"
    and run: "number_property lib mem p x d = Inr (mem', d')"
  shows "focuser_inv r (es @ [NewProperty p]) d'"
  using run unfolding number_property_def Let_def
proof (elim if_eqE rbind_InrE, goal_cases)
  case (1 d1)
  then show ?case using focuser_inv_store(5) [OF inv _ t] focuser_inv_newNumber by blast
next
  case 2
  then show ?case using focuser_inv_store(6) [OF inv _ t] focuser_inv_data(11) by blast
next
  case 3
  then show ?case using focuser_inv_store(7) [OF inv _ t] focuser_inv_data(12) by blast
next
  case 4
  then show ?case using focuser_inv_store(8) [OF inv _ t] focuser_inv_data(14) by blast
next
  case 5
  then show ?case using focuser_inv_store(9) [OF inv _ t] focuser_inv_data(10) by blast
next
  case 6
  then show ?case using focuser_inv_store(10) [OF inv _ t] focuser_inv_data(13) by blast
next
  case 7
  then show ?case using focuser_inv_mono [OF inv] by blast
qed

lemma focuser_inv_newProperty:
  assumes inv: "focuser_inv r es d" and run: "newProperty lib mem p d = Inr (mem', d')"
  shows "focuser_inv r (es @ [NewProperty p]) d'"
  using run unfolding newProperty_def
proof (elim if_eqE rbind_InrE, goal_cases)
  case (3 v)
  then show ?case using focuser_inv_switch [OF inv] by blast
next
  case (4 v)
  then show ?case using focuser_inv_number [OF inv] focuser_inv_mono [OF inv]
    by (cases "IUFindNumber lib v ''FOCUS_ABSOLUTE_POSITION''") auto
next
  case 5
  then show ?case using focuser_inv_text [OF inv] by blast
qed (use focuser_inv_mono [OF inv] in \<open>blast+\<close>)

lemma focuser_inv_callback:
  assumes "focuser_inv r es d" "callback lib e (mem, d) = Inr (mem', d')"
  shows "focuser_inv r (es @ [e]) d'"
proof -
  note inv = focuser_inv_mono [OF assms(1), of e] and run = assms(2) [unfolded callback_def prod.case]
  show ?thesis
  proof (cases e)
    case (NewProperty p)
    then show ?thesis using focuser_inv_newProperty [OF assms(1)] run by simp
  next
    case (NewSwitch a)
    then show ?thesis using focuser_inv_newSwitch [OF inv] run by (auto simp: rbind_Inr_iff)
  next
    case (NewNumber a)
    then show ?thesis using focuser_inv_newNumber [OF inv] run by (auto simp: rbind_Inr_iff)
  qed (use inv run in
      \<open>auto dest!: focuser_newText_same simp: newBLOB_def newDevice_def removeDevice_def serverDisconnected_def
        IndiServerDisconnected_def focuser_inv_clear rbind_Inr_iff split: if_splits\<close>)
qed

lemma focuser_runs_inv:
  assumes "runs (callback lib) (mem, INDIFocuser junk name) es s"
  shows "focuser_inv (is_ready junk) es (snd s)"
  using runs_invariant [OF assms, of "focuser_inv (is_ready junk)"] focuser_inv_init focuser_inv_callback
  by fastforce

lemma moveToAbsolute_True:
  "moveToAbsolute mem pos d = Inr (mem', d', True) \<longleftrightarrow>
     is_connected d \<and> pos \<le> max_position d \<and>
     (\<exists>a v n x es. absolute_position_prop d = At a \<and> numbers mem a = Some v \<and> vec_elems v = (n, x) # es \<and>
        mem' = mem\<lparr>numbers := (numbers mem)(a := Some (v\<lparr>vec_elems := (n, of_int pos) # es\<rparr>))\<rparr> \<and>
        d' = request (SendNumber (v\<lparr>vec_elems := (n, of_int pos) # es\<rparr>)) d)"
proof (cases "absolute_position_prop d")
  case (At a)
  show ?thesis
  proof (cases "numbers mem a")
    case (Some v)
    then show ?thesis by (cases "vec_elems v") (auto simp: moveToAbsolute_def At set_first_def store_def)
  qed (auto simp: moveToAbsolute_def At)
qed (auto simp: moveToAbsolute_def)

lemma moveToAbsolute_False:
  "moveToAbsolute mem pos d = Inr (mem', d', False) \<longleftrightarrow>
     mem' = mem \<and> d' = d \<and>
     (is_connected d \<longrightarrow> absolute_position_prop d = Null \<or>
        (\<exists>a. absolute_position_prop d = At a \<and> max_position d < pos))"
proof (cases "absolute_position_prop d")
  case (At a)
  then show ?thesis by (auto simp: moveToAbsolute_def rbind_Inr_iff)
qed (auto simp: moveToAbsolute_def)

lemma call_move:
  "call_focuser_fn g FMoveToAbsolute (JObj [(''position'', JInt i)]) (mem, d) =
     rbind (moveToAbsolute mem (wrap32 i) d) (\<lambda>(mem, d, _). Inr (mem, d))"
  by (simp add: call_focuser_fn_def)

lemma call_others_keep_state:
  assumes "f \<noteq> FMoveToAbsolute" "f \<noteq> FGetMaxPosition" "call_focuser_fn g f p s = Inr s'"
  shows "s' = s"
  using assms by (cases f) (auto simp: call_focuser_fn_def rbind_Inr_iff split: prod.splits)

section \<open>Properties\<close>

text \<open>C4. A move to an absolute position succeeds exactly when the driver is connected, knows the
  position property, and the position is not above the maximum: then the first element of that
  property holds the position and the vector is sent, once. It is refused exactly when the driver is
  not connected, has no such property or the position is too large, and then nothing changes. No
  lower bound is checked.\<close>

theorem moveToAbsolute_spec:
  "(moveToAbsolute mem pos d = Inr (mem', d', True) \<longleftrightarrow>
     is_connected d \<and> pos \<le> max_position d \<and>
     (\<exists>a v n x es. absolute_position_prop d = At a \<and> numbers mem a = Some v \<and> vec_elems v = (n, x) # es \<and>
        mem' = mem\<lparr>numbers := (numbers mem)(a := Some (v\<lparr>vec_elems := (n, of_int pos) # es\<rparr>))\<rparr> \<and>
        d' = d\<lparr>requests := requests d @ [SendNumber (v\<lparr>vec_elems := (n, of_int pos) # es\<rparr>)]\<rparr>)) \<and>
   (moveToAbsolute mem pos d = Inr (mem', d', False) \<longleftrightarrow>
     mem' = mem \<and> d' = d \<and>
     (is_connected d \<longrightarrow> absolute_position_prop d = Null \<or>
        (\<exists>a. absolute_position_prop d = At a \<and> max_position d < pos)))"
  unfolding moveToAbsolute_True moveToAbsolute_False request_def by blast

definition position_vector :: "double \<Rightarrow> double ivector" where
  "position_vector x = \<lparr>vec_name = ''ABS_FOCUS_POSITION'', vec_elems = [(''FOCUS_ABSOLUTE_POSITION'', x)]\<rparr>"

definition position_mem :: "double \<Rightarrow> indi_mem" where
  "position_mem x = \<lparr>switches = Map.empty, numbers = [3 \<mapsto> position_vector x], texts = Map.empty\<rparr>"

lemma moveToAbsolute_spec_witness:
  "moveToAbsolute (position_mem 7) (- 5)
       (zeroed\<lparr>is_connected := True, absolute_position_prop := At 3, max_position := 100\<rparr>)
     = Inr (position_mem (- 5),
         zeroed\<lparr>is_connected := True, absolute_position_prop := At 3, max_position := 100,
           requests := [SendNumber (position_vector (- 5))]\<rparr>, True)"
  by (rule moveToAbsolute_spec [THEN conjunct1, THEN iffD2])
    (simp add: position_mem_def position_vector_def zeroed_def)


definition position_property :: iproperty where
  "position_property = \<lparr>prop_name = ''ABS_FOCUS_POSITION'', prop_type = INDI_NUMBER, prop_addr = 3\<rparr>"


text \<open>The driver has a task for exactly seven names. Calling the function of MoveToAbsolute with
  an integer position moves to that position reduced to 32 bits; called with an array holding the
  parameters, which is what some compilers make of \<open>{params}\<close>, it throws. No other task touches the
  driver, apart from the undefined \<open>getMaxPosition\<close>.\<close>

theorem focuser_tasks:
  "(getSimpleTask junk brace name params = None \<longleftrightarrow>
      name \<notin> {''MoveToAbsolute'', ''MoveStepAbsolute'', ''AbortMove'', ''GetMaxPosition'',
               ''SetMaxPosition'', ''HaveBacklash'', ''SetBacklash''}) \<and>
   getSimpleTask junk brace ''MoveToAbsolute'' params =
     Some (make_SimpleTask junk (Some FMoveToAbsolute) (brace params) None False) \<and>
   call_focuser_fn g FMoveToAbsolute (JObj [(''position'', JInt i)]) (mem, d) =
     rbind (moveToAbsolute mem (wrap32 i) d) (\<lambda>(mem, d, _). Inr (mem, d)) \<and>
   call_focuser_fn g FMoveToAbsolute (JArr [params]) (mem, d) = Inl (Throw ''type_error.305'') \<and>
   (\<forall>f p s s'. f \<noteq> FMoveToAbsolute \<longrightarrow> f \<noteq> FGetMaxPosition \<longrightarrow> call_focuser_fn g f p s = Inr s' \<longrightarrow> s' = s)"
proof -
  have "getSimpleTask junk brace name params = None \<longleftrightarrow>
      name \<notin> {''MoveToAbsolute'', ''MoveStepAbsolute'', ''AbortMove'', ''GetMaxPosition'',
               ''SetMaxPosition'', ''HaveBacklash'', ''SetBacklash''}"
    unfolding getSimpleTask_def Let_def by simp
  moreover have "getSimpleTask junk brace ''MoveToAbsolute'' params =
     Some (make_SimpleTask junk (Some FMoveToAbsolute) (brace params) None False)"
    by (simp add: getSimpleTask_def)
  moreover have "call_focuser_fn g FMoveToAbsolute (JArr [params]) (mem, d) = Inl (Throw ''type_error.305'')"
    by (simp add: call_focuser_fn_def)
  ultimately show ?thesis using call_move call_others_keep_state by blast
qed

lemma focuser_tasks_witness:
  "call_focuser_fn id FSetBacklash (JObj [(''backlash'', JInt 4)]) (position_mem 7, zeroed)
     = Inr (position_mem 7, zeroed)"
proof -
  obtain s where s: "call_focuser_fn id FSetBacklash (JObj [(''backlash'', JInt 4)]) (position_mem 7, zeroed) = Inr s"
    by (simp add: call_focuser_fn_def)
  then show ?thesis
    using focuser_tasks [of 0 id "[]" JNull id 0 "position_mem 7" zeroed, THEN conjunct2, THEN conjunct2,
        THEN conjunct2, THEN conjunct2, rule_format, of FSetBacklash _ _ s] by simp
qed

end
