(* ===== verification/INDICamera.thy ===== *)
theory INDICamera
  imports Indi
begin

text \<open>
  The camera driver of \<open>src/src/components/driver/indi/indicamera.cpp\<close>, one definition per handler.
  The driver still uses members of \<open>Camera\<close> that \<open>camera.hpp\<close> no longer declares; the numeric ones
  are kept here as the JSON value they give, which an argument \<open>keep\<close> computes from the number
  assigned.
\<close>

section \<open>State\<close>

type_synonym element = "(addr \<times> string) option"

record camera = indi_device +
  connection_prop :: pointer
  expose_prop :: pointer
  frame_prop :: pointer
  temperature_prop :: pointer
  gain_prop :: pointer
  offset_prop :: pointer
  frame_type_prop :: pointer
  image_type_prop :: pointer
  ccdinfo_prop :: pointer
  binning_prop :: pointer
  video_prop :: pointer
  video_delay_prop :: pointer
  video_exposure_prop :: pointer
  video_fps_prop :: pointer
  camera_port :: pointer
  camera_device :: pointer
  debug_prop :: pointer
  polling_prop :: pointer
  active_device_prop :: pointer
  compression_prop :: pointer
  image_upload_mode_prop :: pointer
  fast_read_out_prop :: pointer
  camera_limit_prop :: pointer
  toupcam_fan_control_prop :: pointer
  toupcam_heat_control_prop :: pointer
  toupcam_hcg_control_prop :: pointer
  toupcam_low_noise_control_prop :: pointer
  toupcam_simulation_prop :: pointer
  toupcam_binning_mode_prop :: pointer
  asi_image_flip_prop :: pointer
  asi_image_flip_hor_prop :: pointer
  asi_image_flip_ver_prop :: pointer
  asi_controls_prop :: pointer
  asi_controls_mode_prop :: pointer
  indi_frame_x :: element
  indi_frame_y :: element
  indi_frame_width :: element
  indi_frame_height :: element
  indi_binning_x :: element
  indi_binning_y :: element
  has_blob :: bool
  is_debug :: bool
  is_color :: bool
  is_video :: bool
  is_exposuring :: bool
  can_cooling :: bool
  can_binning :: bool
  pixel :: json
  pixel_x :: json
  pixel_y :: json
  max_frame_x :: json
  max_frame_y :: json
  pixel_depth :: json
  current_temperature :: json
  gain :: json
  offset :: json
  indi_camera_cmd :: string
  indi_blob_name :: string
  indi_camera_exec :: string
  indi_camera_version :: string
  indi_camera_interface :: string
  camera_info :: json

text \<open>
  The constructor initialises the strings and the JSON value; the other scalars are those of the
  memory the object is built in.
\<close>

definition INDICamera :: "camera \<Rightarrow> string \<Rightarrow> camera" where
  "INDICamera junk name =
     junk\<lparr>drv_name := name, device_name := [], hostname := ''127.0.0.1'', port := 7624,
       m_disconnecting := False, requests := [],
       indi_camera_cmd := ''CCD_'', indi_blob_name := [], indi_camera_exec := [],
       indi_camera_version := [], indi_camera_interface := [], camera_info := JNull,
       connection_prop := Indet, expose_prop := Indet, frame_prop := Indet,
       temperature_prop := Indet, gain_prop := Indet, offset_prop := Indet,
       frame_type_prop := Indet, image_type_prop := Indet, ccdinfo_prop := Indet,
       binning_prop := Indet, video_prop := Indet, video_delay_prop := Indet,
       video_exposure_prop := Indet, video_fps_prop := Indet, camera_port := Indet,
       camera_device := Indet, debug_prop := Indet, polling_prop := Indet,
       active_device_prop := Indet, compression_prop := Indet, image_upload_mode_prop := Indet,
       fast_read_out_prop := Indet, camera_limit_prop := Indet, toupcam_fan_control_prop := Indet,
       toupcam_heat_control_prop := Indet, toupcam_hcg_control_prop := Indet,
       toupcam_low_noise_control_prop := Indet, toupcam_simulation_prop := Indet,
       toupcam_binning_mode_prop := Indet, asi_image_flip_prop := Indet,
       asi_image_flip_hor_prop := Indet, asi_image_flip_ver_prop := Indet,
       asi_controls_prop := Indet, asi_controls_mode_prop := Indet\<rparr>"

text \<open>An object built in memory that held zeros.\<close>

definition zeroed_camera :: camera where
  "zeroed_camera =
     \<lparr>drv_name = [], device_name = [], hostname = [], port = 0, is_connected = False,
      is_ready = False, m_disconnecting = False, requests = [], connection_prop = Null,
      expose_prop = Null, frame_prop = Null, temperature_prop = Null, gain_prop = Null,
      offset_prop = Null, frame_type_prop = Null, image_type_prop = Null, ccdinfo_prop = Null,
      binning_prop = Null, video_prop = Null, video_delay_prop = Null, video_exposure_prop = Null,
      video_fps_prop = Null, camera_port = Null, camera_device = Null, debug_prop = Null,
      polling_prop = Null, active_device_prop = Null, compression_prop = Null,
      image_upload_mode_prop = Null, fast_read_out_prop = Null, camera_limit_prop = Null,
      toupcam_fan_control_prop = Null, toupcam_heat_control_prop = Null,
      toupcam_hcg_control_prop = Null, toupcam_low_noise_control_prop = Null,
      toupcam_simulation_prop = Null, toupcam_binning_mode_prop = Null,
      asi_image_flip_prop = Null, asi_image_flip_hor_prop = Null, asi_image_flip_ver_prop = Null,
      asi_controls_prop = Null, asi_controls_mode_prop = Null, indi_frame_x = None,
      indi_frame_y = None, indi_frame_width = None, indi_frame_height = None,
      indi_binning_x = None, indi_binning_y = None, has_blob = False, is_debug = False,
      is_color = False, is_video = False, is_exposuring = False, can_cooling = False,
      can_binning = False, pixel = JNull, pixel_x = JNull, pixel_y = JNull, max_frame_x = JNull,
      max_frame_y = JNull, pixel_depth = JNull, current_temperature = JNull, gain = JNull,
      offset = JNull, indi_camera_cmd = [], indi_blob_name = [], indi_camera_exec = [],
      indi_camera_version = [], indi_camera_interface = [], camera_info = JNull\<rparr>"

definition ClearStatus :: "camera \<Rightarrow> camera" where
  "ClearStatus d =
     d\<lparr>connection_prop := Null, expose_prop := Null, frame_prop := Null, frame_type_prop := Null,
       ccdinfo_prop := Null, binning_prop := Null, video_prop := Null, camera_port := Null,
       camera_device := Null, debug_prop := Null, polling_prop := Null, active_device_prop := Null,
       compression_prop := Null, image_upload_mode_prop := Null, fast_read_out_prop := Null,
       camera_limit_prop := Null, toupcam_fan_control_prop := Null,
       toupcam_heat_control_prop := Null, toupcam_hcg_control_prop := Null,
       toupcam_low_noise_control_prop := Null, toupcam_simulation_prop := Null,
       toupcam_binning_mode_prop := Null, asi_image_flip_prop := Null,
       asi_image_flip_hor_prop := Null, asi_image_flip_ver_prop := Null, asi_controls_prop := Null,
       asi_controls_mode_prop := Null\<rparr>"

text \<open>\<open>camera_info[k1][k2] = v\<close>\<close>

definition info :: "string list \<Rightarrow> json \<Rightarrow> camera \<Rightarrow> camera result" where
  "info ks v d = rbind (j_assign ks v (camera_info d)) (\<lambda>j. Inr (d\<lparr>camera_info := j\<rparr>))"

section \<open>Updates\<close>

definition newDevice :: "addr \<Rightarrow> string \<Rightarrow> camera \<Rightarrow> camera" where
  "newDevice dp dp_name d = (if dp_name = device_name d then d\<lparr>camera_device := At dp\<rparr> else d)"

text \<open>The label of the first switch that is on; an empty view where none is.\<close>

definition first_label :: "indi_lib \<Rightarrow> bool ivector \<Rightarrow> (string \<times> string) list \<Rightarrow> string result" where
  "first_label lib v ns =
     rbind (first_on (IUFindSwitch lib v) (map fst ns)) (\<lambda>r.
       Inr (case r of None \<Rightarrow> [] | Some n \<Rightarrow> (case map_of ns n of None \<Rightarrow> [] | Some l \<Rightarrow> l)))"

definition connection_update :: "indi_lib \<Rightarrow> bool ivector \<Rightarrow> camera \<Rightarrow> camera result" where
  "connection_update lib v d =
     rbind (elem (IUFindSwitch lib v ''CONNECT'')) (\<lambda>on.
       if on then info [''connected''] (JBool True) (d\<lparr>is_connected := True\<rparr>)
       else if is_ready d then info [''connected''] (JBool False) (ClearStatus d)
       else Inr d)"

definition debug_update :: "indi_lib \<Rightarrow> bool ivector \<Rightarrow> camera \<Rightarrow> camera result" where
  "debug_update lib v d =
     rbind (elem (IUFindSwitch lib v ''ENABLE'')) (\<lambda>on.
       if on then info [''debug''] (JBool True) (d\<lparr>is_debug := True\<rparr>)
       else info [''debug''] (JBool False) (d\<lparr>is_debug := False\<rparr>))"

definition frame_types :: "(string \<times> string) list" where
  "frame_types = [(''FRAME_LIGHT'', ''Light''), (''FRAME_DARK'', ''Dark''), (''FRAME_FLAT'', ''Flat''),
     (''FRAME_BIAS'', ''Bias'')]"

definition frame_formats :: "(string \<times> string) list" where
  "frame_formats = [(''FORMAT_FITS'', ''Fits''), (''FORMAT_NATIVE'', ''Raw''), (''FORMAT_XISF'', ''Xisf'')]"

definition upload_modes :: "(string \<times> string) list" where
  "upload_modes = [(''UPLOAD_CLIENT'', ''Client''), (''UPLOAD_LOCAL'', ''Local''), (''UPLOAD_BOTH'', ''Both'')]"

definition abort_update :: "indi_lib \<Rightarrow> bool ivector \<Rightarrow> camera \<Rightarrow> camera result" where
  "abort_update lib v d =
     rbind (elem (IUFindSwitch lib v ''ABORT_EXPOSURE'')) (\<lambda>on.
       if on then
         rbind (info [''exposure'', ''abort''] (JBool True) d) (\<lambda>d. Inr (d\<lparr>is_exposuring := False\<rparr>))
       else Inr d)"

text \<open>With neither switch on, \<open>mode\<close> is read uninitialised.\<close>

definition fast_toggle_update :: "indi_lib \<Rightarrow> bool ivector \<Rightarrow> camera \<Rightarrow> camera result" where
  "fast_toggle_update lib v d =
     rbind (elem (IUFindSwitch lib v ''INDI_ENABLED'')) (\<lambda>enabled.
     rbind (if enabled then Inr True
            else rbind (elem (IUFindSwitch lib v ''INDI_DISABLED'')) (\<lambda>disabled.
              if disabled then Inr False else Inl Uninitialised)) (\<lambda>mode.
       info [''frame'', ''fast_read''] (JBool mode) d))"

definition video_update :: "indi_lib \<Rightarrow> bool ivector \<Rightarrow> camera \<Rightarrow> camera result" where
  "video_update lib v d =
     rbind (elem (IUFindSwitch lib v ''STREAM_ON'')) (\<lambda>on.
       if on then rbind (info [''video'', ''is_video''] (JBool True) d) (\<lambda>d. Inr (d\<lparr>is_video := True\<rparr>))
       else rbind (elem (IUFindSwitch lib v ''STREAM_OFF'')) (\<lambda>off.
         if off then rbind (info [''video'', ''is_video''] (JBool False) d) (\<lambda>d. Inr (d\<lparr>is_video := False\<rparr>))
         else Inr d))"

definition newSwitch :: "indi_lib \<Rightarrow> indi_mem \<Rightarrow> addr \<Rightarrow> camera \<Rightarrow> camera result" where
  "newSwitch lib mem svp d =
     rbind (load (switches mem) (At svp)) (\<lambda>v.
       let name = vec_name v in
       if name = ''CONNECTION'' then connection_update lib v d
       else if name = ''DEBUG'' then debug_update lib v d
       else if name = ''CCD_FRAME_TYPE'' then
         rbind (first_label lib v frame_types) (\<lambda>l. info [''frame'', ''type''] (JStr l) d)
       else if name = ''CCD_TRANSFER_FORMAT'' then
         rbind (first_label lib v frame_formats) (\<lambda>l. info [''frame'', ''format''] (JStr l) d)
       else if name = ''CCD_ABORT_EXPOSURE'' then abort_update lib v d
       else if name = ''UPLOAD_MODE'' then
         rbind (first_label lib v upload_modes) (\<lambda>l. info [''network'', ''mode''] (JStr l) d)
       else if name = ''CCD_FAST_TOGGLE'' then fast_toggle_update lib v d
       else if name = ''CCD_VIDEO_STREAM'' then video_update lib v d
       else Inr d)"

text \<open>\<open>camera_info[k1][k2] = IUFindNumber(v, n)->value\<close>\<close>

definition record_number ::
  "indi_lib \<Rightarrow> double ivector \<Rightarrow> string \<Rightarrow> string list \<Rightarrow> camera \<Rightarrow> camera result"
where
  "record_number lib v n ks d =
     rbind (elem (IUFindNumber lib v n)) (\<lambda>x. info ks (JFloat x) d)"

text \<open>An object written as an initialiser list.\<close>

definition jobject :: "(string \<times> json) list \<Rightarrow> json" where
  "jobject kvs = JObj (foldr (\<lambda>(k, v). obj_put k v) kvs [])"

definition ccd_info_update ::
  "(string \<Rightarrow> double \<Rightarrow> json) \<Rightarrow> indi_lib \<Rightarrow> indi_mem \<Rightarrow> camera \<Rightarrow> camera result"
where
  "ccd_info_update keep lib mem d =
     rbind (load (numbers mem) (ccdinfo_prop d)) (\<lambda>v.
     rbind (elem (IUFindNumber lib v ''CCD_PIXEL_SIZE'')) (\<lambda>x0.
     rbind (elem (IUFindNumber lib v ''CCD_PIXEL_SIZE_X'')) (\<lambda>x1.
     rbind (elem (IUFindNumber lib v ''CCD_PIXEL_SIZE_Y'')) (\<lambda>x2.
     rbind (elem (IUFindNumber lib v ''CCD_MAX_X'')) (\<lambda>x3.
     rbind (elem (IUFindNumber lib v ''CCD_MAX_Y'')) (\<lambda>x4.
     rbind (elem (IUFindNumber lib v ''CCD_BITSPERPIXEL'')) (\<lambda>x5.
       let d = d\<lparr>pixel := keep ''pixel'' x0, pixel_x := keep ''pixel_x'' x1, pixel_y := keep ''pixel_y'' x2,
                 max_frame_x := keep ''max_frame_x'' x3, max_frame_y := keep ''max_frame_y'' x4,
                 pixel_depth := keep ''pixel_depth'' x5\<rparr> in
       info [''frame'']
         (jobject [(''pixel_x'', pixel_x d), (''pixel_y'', pixel_y d), (''pixel_depth'', pixel_depth d),
                   (''max_frame_x'', max_frame_x d), (''max_frame_y'', max_frame_y d)]) d)))))))"

definition binning_update ::
  "indi_lib \<Rightarrow> addr \<Rightarrow> double ivector \<Rightarrow> camera \<Rightarrow> camera result"
where
  "binning_update lib nvp v d =
     (let found = (\<lambda>n. map_option (\<lambda>_. (nvp, n)) (IUFindNumber lib v n));
          d = d\<lparr>indi_binning_x := found ''HOR_BIN'', indi_binning_y := found ''VER_BIN''\<rparr> in
      rbind (elem (IUFindNumber lib v ''HOR_BIN'')) (\<lambda>x.
      rbind (elem (IUFindNumber lib v ''VER_BIN'')) (\<lambda>y.
        info [''exposure''] (jobject [(''binning_x'', JFloat x), (''binning_y'', JFloat y)]) d)))"

definition frame_update ::
  "indi_lib \<Rightarrow> addr \<Rightarrow> double ivector \<Rightarrow> camera \<Rightarrow> camera result"
where
  "frame_update lib nvp v d =
     (let found = (\<lambda>n. map_option (\<lambda>_. (nvp, n)) (IUFindNumber lib v n));
          d = d\<lparr>indi_frame_x := found ''X'', indi_frame_y := found ''Y'',
                indi_frame_width := found ''WIDTH'', indi_frame_height := found ''HEIGHT''\<rparr> in
      rbind (elem (IUFindNumber lib v ''X'')) (\<lambda>x.
      rbind (elem (IUFindNumber lib v ''Y'')) (\<lambda>y.
      rbind (elem (IUFindNumber lib v ''WIDTH'')) (\<lambda>w.
      rbind (elem (IUFindNumber lib v ''HEIGHT'')) (\<lambda>h.
        info [''frame'']
          (jobject [(''x'', JFloat x), (''y'', JFloat y), (''width'', JFloat w), (''height'', JFloat h)]) d)))))"

text \<open>CCD_INFO is read from the pointer kept, not from the vector that was passed.\<close>

definition newNumber ::
  "(string \<Rightarrow> double \<Rightarrow> json) \<Rightarrow> indi_lib \<Rightarrow> indi_mem \<Rightarrow> addr \<Rightarrow> camera \<Rightarrow> camera result"
where
  "newNumber keep lib mem nvp d =
     rbind (load (numbers mem) (At nvp)) (\<lambda>v.
       let name = vec_name v in
       if name = ''CCD_EXPOSURE'' then
         rbind (first_elem v) (\<lambda>x. info [''exposure'', ''current''] (JFloat x) d)
       else if name = ''CCD_INFO'' then ccd_info_update keep lib mem d
       else if name = ''BINNING'' then binning_update lib nvp v d
       else if name = ''FRAME'' then frame_update lib nvp v d
       else if name = ''CCD_TEMPERATURE'' then
         rbind (elem (IUFindNumber lib v ''CCD_TEMPERATURE_VALUE'')) (\<lambda>x.
           let d = d\<lparr>current_temperature := keep ''current_temperature'' x\<rparr> in
           info [''temperature'', ''current''] (current_temperature d) d)
       else if name = ''CCD_GAIN'' then
         rbind (elem (IUFindNumber lib v ''GAIN'')) (\<lambda>x.
           let d = d\<lparr>gain := keep ''gain'' x\<rparr> in info [''exposure'', ''gain''] (gain d) d)
       else if name = ''CCD_OFFSET'' then
         rbind (elem (IUFindNumber lib v ''OFFSET'')) (\<lambda>x.
           let d = d\<lparr>offset := keep ''offset'' x\<rparr> in info [''exposure'', ''offset''] (offset d) d)
       else if name = ''POLLING_PERIOD'' then
         record_number lib v ''PERIOD_MS'' [''network'', ''period''] d
       else if name = ''LIMITS'' then
         rbind (record_number lib v ''LIMITS_BUFFER_MAX'' [''limits'', ''maxbuffer''] d)
           (record_number lib v ''LIMITS_PREVIEW_FPS'' [''limits'', ''maxfps''])
       else if name = ''STREAM_DELAY'' then
         record_number lib v ''STREAM_DELAY_TIME'' [''video'', ''delay''] d
       else if name = ''STREAMING_EXPOSURE'' then
         rbind (record_number lib v ''STREAMING_EXPOSURE_VALUE'' [''video'', ''exposure''] d)
           (record_number lib v ''STREAMING_DIVISOR_VALUE'' [''video'', ''division''])
       else if name = ''FPS'' then
         rbind (record_number lib v ''EST_FPS'' [''video'', ''fps''] d)
           (record_number lib v ''AVG_FPS'' [''video'', ''avgfps''])
       else Inr d)"

definition newText :: "indi_mem \<Rightarrow> addr \<Rightarrow> camera \<Rightarrow> camera result" where
  "newText mem tvp d =
     rbind (load (texts mem) (At tvp)) (\<lambda>v. rbind (first_elem v) (\<lambda>_. Inr d))"

text \<open>Both branches of \<open>newBLOB\<close> are empty; only its conditions are evaluated.\<close>

definition newBLOB :: "addr \<Rightarrow> camera \<Rightarrow> camera result" where
  "newBLOB bp d =
     rbind (is_null (expose_prop d)) (\<lambda>null.
       if \<not> null then Inr d else rbind (is_null (video_prop d)) (\<lambda>_. Inr d))"

section \<open>New properties\<close>

text \<open>
  Names the code tests only to do nothing are left to the last branch, like every other name.
\<close>

definition blob_property :: "indi_lib \<Rightarrow> iproperty \<Rightarrow> camera \<Rightarrow> camera" where
  "blob_property lib p d =
     (if prop_name p = indi_blob_name d then
        (let d = request (SetBLOBMode (device_name d) (indi_blob_name d)) (d\<lparr>has_blob := True\<rparr>) in
         if INDI_SHARED_BLOB_SUPPORT lib then
           request (EnableDirectBlobAccess (device_name d) (indi_blob_name d)) d
         else d)
      else d)"

definition camera_driver_info ::
  "indi_lib \<Rightarrow> string option ivector \<Rightarrow> camera \<Rightarrow> camera result"
where
  "camera_driver_info lib v d =
     rbind (elem_text (IUFindText lib v ''DRIVER_NAME'')) (\<lambda>name.
     rbind (elem_text (IUFindText lib v ''DRIVER_EXEC'')) (\<lambda>exec.
     rbind (elem_text (IUFindText lib v ''DRIVER_VERSION'')) (\<lambda>version.
     rbind (elem_text (IUFindText lib v ''DRIVER_INTERFACE'')) (\<lambda>interface.
       let d = d\<lparr>device_name := name, indi_camera_exec := exec, indi_camera_version := version,
                 indi_camera_interface := interface\<rparr> in
       rbind (info [''driver'', ''name''] (JStr name) d) (\<lambda>d.
       rbind (info [''driver'', ''exec''] (JStr exec) d) (\<lambda>d.
       rbind (info [''driver'', ''version''] (JStr version) d)
         (info [''driver'', ''interfaces''] (JStr interface))))))))"

definition cfa_property :: "indi_lib \<Rightarrow> string option ivector \<Rightarrow> camera \<Rightarrow> camera" where
  "cfa_property lib v d =
     (case IUFindText lib v ''CFA_TYPE'' of
        Some (Some t) \<Rightarrow> if t \<noteq> [] then d\<lparr>is_color := True\<rparr> else d
      | _ \<Rightarrow> d)"

definition newProperty ::
  "(string \<Rightarrow> double \<Rightarrow> json) \<Rightarrow> indi_lib \<Rightarrow> indi_mem \<Rightarrow> iproperty \<Rightarrow> camera \<Rightarrow> (indi_mem \<times> camera) result"
where
  "newProperty keep lib mem p d =
     (let PropName = prop_name p; Proptype = prop_type p; a = prop_addr p in
      if Proptype = INDI_BLOB then Inr (mem, blob_property lib p d)
      else if PropName = indi_camera_cmd d @ ''EXPOSURE'' \<and> Proptype = INDI_NUMBER then
        rbind (newNumber keep lib mem a (d\<lparr>expose_prop := At a\<rparr>)) (\<lambda>d. Inr (mem, d))
      else if PropName = indi_camera_cmd d @ ''FRAME'' \<and> Proptype = INDI_NUMBER then
        rbind (newNumber keep lib mem a (d\<lparr>frame_prop := At a\<rparr>)) (\<lambda>d. Inr (mem, d))
      else if PropName = indi_camera_cmd d @ ''FRAME_TYPE'' \<and> Proptype = INDI_SWITCH then
        rbind (newSwitch lib mem a (d\<lparr>frame_type_prop := At a\<rparr>)) (\<lambda>d. Inr (mem, d))
      else if PropName = indi_camera_cmd d @ ''BINNING'' \<and> Proptype = INDI_NUMBER then
        rbind (newNumber keep lib mem a (d\<lparr>binning_prop := At a\<rparr>)) (\<lambda>d. Inr (mem, d))
      else if PropName = indi_camera_cmd d @ ''CFA'' \<and> Proptype = INDI_TEXT then
        rbind (load (texts mem) (At a)) (\<lambda>v. Inr (mem, cfa_property lib v d))
      else if PropName = indi_camera_cmd d @ ''VIDEO_STREAM'' \<and> Proptype = INDI_SWITCH then
        rbind (newSwitch lib mem a (d\<lparr>video_prop := At a\<rparr>)) (\<lambda>d. Inr (mem, d))
      else if PropName = ''STREAM_DELAY'' \<and> Proptype = INDI_NUMBER then
        rbind (newNumber keep lib mem a (d\<lparr>video_delay_prop := At a\<rparr>)) (\<lambda>d. Inr (mem, d))
      else if PropName = ''STREAMING_EXPOSURE'' \<and> Proptype = INDI_NUMBER then
        rbind (newNumber keep lib mem a (d\<lparr>video_exposure_prop := At a\<rparr>)) (\<lambda>d. Inr (mem, d))
      else if PropName = ''FPS'' \<and> Proptype = INDI_NUMBER then
        rbind (newNumber keep lib mem a (d\<lparr>video_fps_prop := At a\<rparr>)) (\<lambda>d. Inr (mem, d))
      else if PropName = ''DEVICE_PORT'' \<and> Proptype = INDI_TEXT then
        rbind (load (texts mem) (At a)) (\<lambda>v.
        rbind (rbind (first_elem v) elem) (\<lambda>t.
        rbind (info [''network'', ''port''] (JStr t) (d\<lparr>camera_port := At a\<rparr>)) (\<lambda>d. Inr (mem, d))))
      else if PropName = ''CONNECTION'' \<and> Proptype = INDI_SWITCH then
        (let d = d\<lparr>connection_prop := At a\<rparr> in
         rbind (load (switches mem) (connection_prop d)) (\<lambda>v.
         rbind (elem (IUFindSwitch lib v ''CONNECT'')) (\<lambda>on.
           announce_connection a on mem d)))
      else if PropName = ''DRIVER_INFO'' \<and> Proptype = INDI_TEXT then
        rbind (load (texts mem) (At a)) (\<lambda>v. rbind (camera_driver_info lib v d) (\<lambda>d. Inr (mem, d)))
      else if PropName = indi_camera_cmd d @ ''INFO'' \<and> Proptype = INDI_NUMBER then
        rbind (newNumber keep lib mem a (d\<lparr>ccdinfo_prop := At a\<rparr>)) (\<lambda>d. Inr (mem, d))
      else if PropName = ''DEBUG'' \<and> Proptype = INDI_SWITCH then
        rbind (newSwitch lib mem a (d\<lparr>debug_prop := At a\<rparr>)) (\<lambda>d. Inr (mem, d))
      else if PropName = ''POLLING_PERIOD'' \<and> Proptype = INDI_NUMBER then
        rbind (newNumber keep lib mem a (d\<lparr>polling_prop := At a\<rparr>)) (\<lambda>d. Inr (mem, d))
      else if PropName = ''ACTIVE_DEVICES'' \<and> Proptype = INDI_TEXT then
        rbind (newText mem a (d\<lparr>active_device_prop := At a\<rparr>)) (\<lambda>d. Inr (mem, d))
      else if PropName = ''CCD_COMPRESSION'' \<and> Proptype = INDI_SWITCH then
        rbind (newSwitch lib mem a (d\<lparr>compression_prop := At a\<rparr>)) (\<lambda>d. Inr (mem, d))
      else if PropName = ''UPLOAD_MODE'' \<and> Proptype = INDI_SWITCH then
        rbind (newSwitch lib mem a (d\<lparr>image_upload_mode_prop := At a\<rparr>)) (\<lambda>d. Inr (mem, d))
      else if PropName = ''CCD_FAST_TOGGLE'' \<and> Proptype = INDI_SWITCH then
        rbind (newSwitch lib mem a (d\<lparr>fast_read_out_prop := At a\<rparr>)) (\<lambda>d. Inr (mem, d))
      else if PropName = ''LIMITS'' \<and> Proptype = INDI_NUMBER then
        rbind (newNumber keep lib mem a (d\<lparr>camera_limit_prop := At a\<rparr>)) (\<lambda>d. Inr (mem, d))
      else if PropName = ''FLIP'' \<and> Proptype = INDI_SWITCH then
        rbind (newSwitch lib mem a (d\<lparr>asi_image_flip_prop := At a\<rparr>)) (\<lambda>d. Inr (mem, d))
      else if PropName = ''SIMULATION'' \<and> Proptype = INDI_SWITCH then
        rbind (newSwitch lib mem a (d\<lparr>toupcam_simulation_prop := At a\<rparr>)) (\<lambda>d. Inr (mem, d))
      else Inr (mem, d))"

definition IndiServerConnected :: "camera \<Rightarrow> camera" where
  "IndiServerConnected d = d\<lparr>is_connected := True\<rparr>"

definition IndiServerDisconnected :: "int \<Rightarrow> camera \<Rightarrow> camera" where
  "IndiServerDisconnected exit_code d = ClearStatus d"

definition removeDevice :: "addr \<Rightarrow> camera \<Rightarrow> camera" where
  "removeDevice dp d = ClearStatus d"

definition callback ::
  "(string \<Rightarrow> double \<Rightarrow> json) \<Rightarrow> indi_lib \<Rightarrow> indi_event \<Rightarrow> indi_mem \<times> camera \<Rightarrow> (indi_mem \<times> camera) result"
where
  "callback keep lib e s = (case s of (mem, d) \<Rightarrow>
     (case e of
        NewDevice dp n \<Rightarrow> Inr (mem, newDevice dp n d)
      | RemoveDevice dp \<Rightarrow> Inr (mem, removeDevice dp d)
      | NewProperty p \<Rightarrow> newProperty keep lib mem p d
      | NewSwitch a \<Rightarrow> rbind (newSwitch lib mem a d) (\<lambda>d. Inr (mem, d))
      | NewNumber a \<Rightarrow> rbind (newNumber keep lib mem a d) (\<lambda>d. Inr (mem, d))
      | NewText a \<Rightarrow> rbind (newText mem a d) (\<lambda>d. Inr (mem, d))
      | NewBLOB a \<Rightarrow> rbind (newBLOB a d) (\<lambda>d. Inr (mem, d))
      | ServerDisconnected c \<Rightarrow> Inr (mem, serverDisconnected IndiServerDisconnected c d)))"

section \<open>Operations\<close>

text \<open>A connection always goes to the server; what is returned depends on the flag \<open>is_ready\<close>.\<close>

definition connect :: "string \<Rightarrow> bool \<Rightarrow> camera \<Rightarrow> camera \<times> bool" where
  "connect name ok d =
     (let d = request (WatchDevice name) (request (SetServer (hostname d) (port d)) d);
          (d, r) = connectServer ok IndiServerConnected d in
      if r then (request (ConnectDevice name) d, \<not> is_ready d) else (d, False))"

definition disconnect :: "camera \<Rightarrow> camera \<times> bool" where
  "disconnect d = (d, True)"

definition reconnect :: "camera \<Rightarrow> camera \<times> bool" where
  "reconnect d = (d, True)"

definition scanForAvailableDevices :: "camera \<Rightarrow> bool" where
  "scanForAvailableDevices d = True"

definition getParameter :: "string \<Rightarrow> camera \<Rightarrow> bool" where
  "getParameter name d = (if name = [] then False else False)"

definition setParameter :: "string \<Rightarrow> string \<Rightarrow> camera \<Rightarrow> bool" where
  "setParameter name value d = (if name = [] \<or> value = [] then False else False)"

definition startExposure :: "int \<Rightarrow> camera \<Rightarrow> bool" where
  "startExposure duration_ms d = True"

definition stopExposure :: "camera \<Rightarrow> bool" where
  "stopExposure d = True"

definition waitForExposureComplete :: "camera \<Rightarrow> bool" where
  "waitForExposureComplete d = True"

definition setTemperature :: "double \<Rightarrow> camera \<Rightarrow> bool" where
  "setTemperature temperature d = True"

definition setShutterOpen :: "bool \<Rightarrow> camera \<Rightarrow> bool" where
  "setShutterOpen open_it d = True"

definition setGain :: "int \<Rightarrow> camera \<Rightarrow> bool" where
  "setGain g d = True"

definition setOffset :: "int \<Rightarrow> camera \<Rightarrow> bool" where
  "setOffset off d = True"

definition startLiveView :: "camera \<Rightarrow> bool" where
  "startLiveView d = True"

definition stopLiveView :: "camera \<Rightarrow> bool" where
  "stopLiveView d = True"

definition setCoolingOn :: "bool \<Rightarrow> camera \<Rightarrow> bool" where
  "setCoolingOn on d = True"

text \<open>The code returns \<open>true\<close>, which becomes the number 1.\<close>

definition getTemperature :: "camera \<Rightarrow> double" where
  "getTemperature d = 1"

definition setBinning :: "int \<Rightarrow> camera \<Rightarrow> bool" where
  "setBinning binning d = True"

definition setROIFrame :: "int \<Rightarrow> int \<Rightarrow> int \<Rightarrow> int \<Rightarrow> camera \<Rightarrow> bool" where
  "setROIFrame start_x start_y frame_x frame_y d = True"

section \<open>Tasks\<close>

datatype camera_fn =
    CConnect | CDisconnect | CReconnect | CScanning | CGetParameter | CSetParameter | CSingleShot
  | CAbortShot | CStartLiveView | CStopLiveView | CCooling | CGetTemperature | CSetTemperature
  | CSetGain | CSetOffset | CSetBinning | CSetROIFrame

definition task_map :: "(string \<times> camera_fn) list" where
  "task_map =
     [(''Connect'', CConnect), (''Disconnect'', CDisconnect), (''Reconnect'', CReconnect),
      (''Scanning'', CScanning), (''GetParameter'', CGetParameter), (''SetParameter'', CSetParameter),
      (''SingleShot'', CSingleShot), (''AbortShot'', CAbortShot), (''StartLiveView'', CStartLiveView),
      (''StopLiveView'', CStopLiveView), (''Cooling'', CCooling), (''GetTemperature'', CGetTemperature),
      (''SetTemperature'', CSetTemperature), (''SetGain'', CSetGain), (''SetOffset'', CSetOffset),
      (''SetBinning'', CSetBinning), (''SetROIFrame'', CSetROIFrame)]"

definition getSimpleTask :: "int \<Rightarrow> (json \<Rightarrow> json) \<Rightarrow> string \<Rightarrow> json \<Rightarrow> camera_fn basic_task option" where
  "getSimpleTask junk brace name params =
     map_option (\<lambda>f. make_SimpleTask junk (Some f) (brace params) None False) (map_of task_map name)"

definition getCondtionalTask :: "string \<Rightarrow> json \<Rightarrow> 'f basic_task option" where
  "getCondtionalTask name params = None"

definition getLoopTask :: "string \<Rightarrow> json \<Rightarrow> 'f basic_task option" where
  "getLoopTask name params = None"

text \<open>
  \<open>!is_connected && !camera_info["connected"].empty()\<close>: the second operand creates the member where
  it is missing.
\<close>

definition not_connected_guard :: "camera \<Rightarrow> (camera \<times> bool) result" where
  "not_connected_guard d =
     (if is_connected d then Inr (d, False)
      else rbind (j_slot ''connected'' (camera_info d)) (\<lambda>c.
           rbind (info [''connected''] c d) (\<lambda>d. Inr (d, \<not> j_empty c))))"

text \<open>
  What the functions do when called with the parameters \<open>p\<close>; \<open>ok\<close> is the answer of the library to
  a connection.
\<close>

definition call_camera_fn :: "bool \<Rightarrow> camera_fn \<Rightarrow> json \<Rightarrow> camera \<Rightarrow> camera result" where
  "call_camera_fn ok f p d = (case f of
       CConnect \<Rightarrow>
         rbind (j_at ''name'' p) (\<lambda>n.
           if j_empty n then Inr d
           else rbind (j_get_string n) (\<lambda>s. Inr (fst (connect s ok d))))
     | CDisconnect \<Rightarrow>
         rbind (not_connected_guard d) (\<lambda>(d, refused). Inr (if refused then d else fst (disconnect d)))
     | CReconnect \<Rightarrow>
         rbind (not_connected_guard d) (\<lambda>(d, refused). Inr (if refused then d else fst (reconnect d)))
     | CScanning \<Rightarrow> (let _ = scanForAvailableDevices d in Inr d)
     | CGetParameter \<Rightarrow>
         rbind (rbind (j_at ''name'' p) j_get_string) (\<lambda>n. let _ = getParameter n d in Inr d)
     | CSetParameter \<Rightarrow>
         rbind (rbind (j_at ''name'' p) j_get_string) (\<lambda>n.
         rbind (rbind (j_at ''value'' p) j_get_string) (\<lambda>v. let _ = setParameter n v d in Inr d))
     | CSingleShot \<Rightarrow> Inr d
     | CAbortShot \<Rightarrow> Inr d
     | CStartLiveView \<Rightarrow> (let _ = startLiveView d in Inr d)
     | CStopLiveView \<Rightarrow> (let _ = stopLiveView d in Inr d)
     | CCooling \<Rightarrow>
         if \<not> can_cooling d then Inr d
         else rbind (rbind (j_at ''enable'' p) j_get_bool) (\<lambda>b. let _ = setCoolingOn b d in Inr d)
     | CGetTemperature \<Rightarrow> (let _ = getTemperature d in Inr d)
     | CSetTemperature \<Rightarrow> Inr d
     | CSetGain \<Rightarrow> Inr d
     | CSetOffset \<Rightarrow> Inr d
     | CSetBinning \<Rightarrow>
         if \<not> can_binning d then Inr d
         else rbind (rbind (j_at ''binning'' p) j_get_int) (\<lambda>i. let _ = setBinning i d in Inr d)
     | CSetROIFrame \<Rightarrow>
         rbind (rbind (j_at ''start_x'' p) j_get_int) (\<lambda>x.
         rbind (rbind (j_at ''start_y'' p) j_get_int) (\<lambda>y.
         rbind (rbind (j_at ''frame_x'' p) j_get_int) (\<lambda>w.
         rbind (rbind (j_at ''frame_y'' p) j_get_int) (\<lambda>h. let _ = setROIFrame x y w h d in Inr d)))))"

section \<open>The JSON description of the camera\<close>

lemma fine_first_label [THEN fine_rbind, fine_intros]: "fine (\<lambda>_. True) (first_label lib v ls)"
  unfolding first_label_def by (rule fine_rbind [OF fine_lookup(5)]) (simp add: fine_def)

definition sections :: "string set" where
  "sections = {''frame'', ''exposure'', ''network'', ''video'', ''limits'', ''temperature'', ''driver''}"

text \<open>The description is null or an object whose sections are null or objects.\<close>

definition info_ok :: "json \<Rightarrow> bool" where
  "info_ok j \<longleftrightarrow> (j = JNull \<or> is_object j) \<and>
     (\<forall>k \<in> sections. \<forall>c. j_find k j = Some c \<longrightarrow> c = JNull \<or> is_object c)"

definition cam_ok :: "camera \<Rightarrow> bool" where
  "cam_ok d \<longleftrightarrow> info_ok (camera_info d) \<and> indi_camera_cmd d = ''CCD_'' \<and> indi_blob_name d = []"

lemma info_ok_leaf:
  assumes "info_ok j" "k \<in> sections"
  shows "\<exists>j'. j_assign [k, l] v j = Inr j' \<and> info_ok j'"
proof -
  obtain c where c: "j_slot k j = Inr c" "c = JNull \<or> is_object c"
    using assms by (cases j) (auto simp: info_ok_def split: option.splits)
  then obtain c' where c': "j_put l v c = Inr c'" "is_object c'" "j_assign [l] v c = Inr c'"
    by (cases c) auto
  obtain j' where j': "j_put k c' j = Inr j'" "is_object j'"
    using assms(1) by (cases j) (auto simp: info_ok_def)
  have "info_ok j'"
    using assms(1) c'(2) j' by (auto simp: info_ok_def j_find_put [OF j'(1)] split: if_splits)
  then show ?thesis using c c' j' by auto
qed

lemma info_ok_top:
  assumes "info_ok j" "k \<in> sections \<longrightarrow> is_object v"
  shows "\<exists>j'. j_assign [k] v j = Inr j' \<and> info_ok j'"
proof -
  obtain c where c: "j_slot k j = Inr c"
    using assms(1) by (cases j) (auto simp: info_ok_def split: option.splits)
  obtain j' where j': "j_put k v j = Inr j'" "is_object j'"
    using assms(1) by (cases j) (auto simp: info_ok_def)
  have "info_ok j'"
    using assms j' by (auto simp: info_ok_def j_find_put [OF j'(1)] split: if_splits)
  then show ?thesis using c j' by auto
qed

lemma fine_info_leaf: "cam_ok d \<Longrightarrow> k \<in> sections \<Longrightarrow> fine cam_ok (info [k, l] v d)"
  using info_ok_leaf [of "camera_info d" k l v] by (auto simp: info_def fine_def cam_ok_def)

lemma fine_info_top: "cam_ok d \<Longrightarrow> k \<in> sections \<longrightarrow> is_object v \<Longrightarrow> fine cam_ok (info [k] v d)"
  using info_ok_top [of "camera_info d" k v] by (auto simp: info_def fine_def cam_ok_def)

lemma in_sections [fine_intros]:
  "''frame'' \<in> sections" "''exposure'' \<in> sections" "''network'' \<in> sections" "''video'' \<in> sections"
  "''limits'' \<in> sections" "''temperature'' \<in> sections" "''driver'' \<in> sections"
  by (simp_all add: sections_def)

lemma jobject_section [fine_intros]: "k \<in> sections \<longrightarrow> is_object (jobject kvs)"
  by (simp add: jobject_def)

lemma not_sections [fine_intros]:
  "''connected'' \<in> sections \<longrightarrow> is_object v" "''debug'' \<in> sections \<longrightarrow> is_object v"
  by (simp_all add: sections_def)

lemmas fine_info [fine_intros] = fine_info_leaf fine_info_top

lemmas fine_info_rbind [fine_intros] = fine_info [THEN fine_rbind]

lemma cam_ok_data [simp]:
  "cam_ok (request q d) = cam_ok d" "cam_ok (ClearStatus d) = cam_ok d"
  by (simp_all add: cam_ok_def request_def ClearStatus_def)

lemmas cam_ok_simps = cam_ok_def ClearStatus_def request_def

lemma fine_connection: "cam_ok d \<Longrightarrow> fine cam_ok (connection_update lib v d)"
  unfolding connection_update_def by (intro fine_intros) (simp_all add: cam_ok_simps)

lemma fine_debug: "cam_ok d \<Longrightarrow> fine cam_ok (debug_update lib v d)"
  unfolding debug_update_def by (intro fine_intros) (simp_all add: cam_ok_simps)

lemma fine_abort: "cam_ok d \<Longrightarrow> fine cam_ok (abort_update lib v d)"
  unfolding abort_update_def by (intro fine_intros) (simp_all add: cam_ok_simps)

lemma fine_video: "cam_ok d \<Longrightarrow> fine cam_ok (video_update lib v d)"
  unfolding video_update_def by (intro fine_intros) (simp_all add: cam_ok_simps)

lemma fine_fast_toggle: "cam_ok d \<Longrightarrow> fine cam_ok (fast_toggle_update lib v d)"
  unfolding fast_toggle_update_def
  by (intro fine_intros, rule fine_rbind [of "\<lambda>_. True"]; (intro fine_intros)?) simp_all

lemma fine_newSwitch: "cam_ok d \<Longrightarrow> fine cam_ok (newSwitch lib mem a d)"
  unfolding newSwitch_def
  by (intro fine_intros fine_connection fine_debug fine_abort fine_video fine_fast_toggle)

lemma fine_record: "cam_ok d \<Longrightarrow> k \<in> sections \<Longrightarrow> fine cam_ok (record_number lib v n [k, l] d)"
  unfolding record_number_def by (intro fine_intros)

lemma fine_ccd_info: "cam_ok d \<Longrightarrow> fine cam_ok (ccd_info_update keep lib mem d)"
  unfolding ccd_info_update_def by (intro fine_intros) (simp_all add: cam_ok_simps)

lemma fine_binning: "cam_ok d \<Longrightarrow> fine cam_ok (binning_update lib a v d)"
  unfolding binning_update_def by (intro fine_intros) (simp_all add: cam_ok_simps)

lemma fine_frame: "cam_ok d \<Longrightarrow> fine cam_ok (frame_update lib a v d)"
  unfolding frame_update_def by (intro fine_intros) (simp_all add: cam_ok_simps)

lemma fine_newNumber: "cam_ok d \<Longrightarrow> fine cam_ok (newNumber keep lib mem a d)"
  unfolding newNumber_def
  by (intro fine_intros fine_record fine_record [THEN fine_rbind] fine_ccd_info fine_binning fine_frame)
    (simp_all add: cam_ok_simps)

lemma fine_newText: "cam_ok d \<Longrightarrow> fine cam_ok (newText mem a d)"
  unfolding newText_def by (intro fine_intros)

lemma fine_newBLOB: "cam_ok d \<Longrightarrow> fine cam_ok (newBLOB a d)"
  unfolding newBLOB_def by (intro fine_intros)

lemma fine_driver_info: "cam_ok d \<Longrightarrow> fine cam_ok (camera_driver_info lib v d)"
  unfolding camera_driver_info_def by (intro fine_intros) (simp_all add: cam_ok_simps)

lemma fine_announce:
  "cam_ok d \<Longrightarrow> fine (\<lambda>(m, d). cam_ok d) (announce_connection a on mem d)"
  unfolding announce_connection_def by (intro fine_intros) (simp_all add: cam_ok_simps)

lemma cam_ok_property [simp]: "cam_ok d \<Longrightarrow> cam_ok (blob_property lib p d)" "cam_ok d \<Longrightarrow> cam_ok (cfa_property lib v d)"
  by (auto simp: blob_property_def cfa_property_def cam_ok_simps Let_def split: option.splits)

lemma cam_ok_pointers:
  "cam_ok d \<Longrightarrow> cam_ok (d\<lparr>expose_prop := q\<rparr>)"
  "cam_ok d \<Longrightarrow> cam_ok (d\<lparr>frame_prop := q\<rparr>)"
  "cam_ok d \<Longrightarrow> cam_ok (d\<lparr>frame_type_prop := q\<rparr>)"
  "cam_ok d \<Longrightarrow> cam_ok (d\<lparr>binning_prop := q\<rparr>)"
  "cam_ok d \<Longrightarrow> cam_ok (d\<lparr>video_prop := q\<rparr>)"
  "cam_ok d \<Longrightarrow> cam_ok (d\<lparr>video_delay_prop := q\<rparr>)"
  "cam_ok d \<Longrightarrow> cam_ok (d\<lparr>video_exposure_prop := q\<rparr>)"
  "cam_ok d \<Longrightarrow> cam_ok (d\<lparr>video_fps_prop := q\<rparr>)"
  "cam_ok d \<Longrightarrow> cam_ok (d\<lparr>camera_port := q\<rparr>)"
  "cam_ok d \<Longrightarrow> cam_ok (d\<lparr>connection_prop := q\<rparr>)"
  "cam_ok d \<Longrightarrow> cam_ok (d\<lparr>ccdinfo_prop := q\<rparr>)"
  "cam_ok d \<Longrightarrow> cam_ok (d\<lparr>debug_prop := q\<rparr>)"
  "cam_ok d \<Longrightarrow> cam_ok (d\<lparr>polling_prop := q\<rparr>)"
  "cam_ok d \<Longrightarrow> cam_ok (d\<lparr>active_device_prop := q\<rparr>)"
  "cam_ok d \<Longrightarrow> cam_ok (d\<lparr>compression_prop := q\<rparr>)"
  "cam_ok d \<Longrightarrow> cam_ok (d\<lparr>image_upload_mode_prop := q\<rparr>)"
  "cam_ok d \<Longrightarrow> cam_ok (d\<lparr>fast_read_out_prop := q\<rparr>)"
  "cam_ok d \<Longrightarrow> cam_ok (d\<lparr>camera_limit_prop := q\<rparr>)"
  "cam_ok d \<Longrightarrow> cam_ok (d\<lparr>asi_image_flip_prop := q\<rparr>)"
  "cam_ok d \<Longrightarrow> cam_ok (d\<lparr>toupcam_simulation_prop := q\<rparr>)"
  by (simp_all add: cam_ok_def)

lemma cam_ok_pair: "cam_ok d \<Longrightarrow> case (m, d) of (m, d) \<Rightarrow> cam_ok d"
  by simp

lemma fine_newProperty: "cam_ok d \<Longrightarrow> fine (\<lambda>(m, d). cam_ok d) (newProperty keep lib mem p d)"
  unfolding newProperty_def
  by (intro fine_intros fine_newSwitch [THEN fine_rbind] fine_newNumber [THEN fine_rbind]
      fine_newText [THEN fine_rbind] fine_driver_info [THEN fine_rbind] fine_announce
      cam_ok_pointers cam_ok_pair cam_ok_property)

lemma fine_callback: "cam_ok d \<Longrightarrow> fine (\<lambda>(m, d). cam_ok d) (callback keep lib e (mem, d))"
proof (cases e)
  case (NewProperty q)
  then show "cam_ok d \<Longrightarrow> ?thesis" using fine_newProperty by (simp add: callback_def)
qed (auto simp: callback_def newDevice_def removeDevice_def serverDisconnected_def IndiServerDisconnected_def
    cam_ok_simps
    intro!: fine_Inr fine_rbind [OF fine_newSwitch] fine_rbind [OF fine_newNumber] fine_rbind [OF fine_newText]
      fine_rbind [OF fine_newBLOB])

lemma camera_runs_ok:
  assumes "runs (callback keep lib) (mem, INDICamera junk name) es s"
  shows "cam_ok (snd s)"
proof (rule runs_invariant [OF assms, of "\<lambda>_. cam_ok"])
  show "cam_ok (snd (mem, INDICamera junk name))"
    by (simp add: cam_ok_def INDICamera_def info_ok_def)
next
  fix es :: "indi_event list" and e m d m' d'
  assume "cam_ok d" and run: "callback keep lib e (m, d) = Inr (m', d')"
  then show "cam_ok d'" using fine_callback [of d keep lib e m] by (simp add: fine_def)
qed

lemma info_path:
  assumes "info ks v d = Inr d'"
  shows "j_path ks (camera_info d') = Some v \<and> d' = d\<lparr>camera_info := camera_info d'\<rparr> \<and>
    (\<forall>ls. diverge ks ls \<longrightarrow> j_path ls (camera_info d') = j_path ls (camera_info d))"
proof -
  from assms obtain j where j: "j_assign ks v (camera_info d) = Inr j" "d' = d\<lparr>camera_info := j\<rparr>"
    unfolding info_def by (elim rbind_InrE) simp
  with j_path_assign [OF j(1)] j_path_assign_diverge [OF j(1)] show ?thesis by simp
qed

lemma first_label_cases:
  assumes "first_label lib v ls = Inr l" "distinct (map fst ls)"
  shows "(l = [] \<and> (\<forall>n \<in> fst ` set ls. IUFindSwitch lib v n = Some False)) \<or>
    (\<exists>ys n zs. ls = ys @ (n, l) # zs \<and> IUFindSwitch lib v n = Some True \<and>
       (\<forall>y \<in> fst ` set ys. IUFindSwitch lib v y = Some False))"
proof -
  from assms(1) obtain r where r: "first_on (IUFindSwitch lib v) (map fst ls) = Inr r"
    "l = (case r of None \<Rightarrow> [] | Some n \<Rightarrow> (case map_of ls n of None \<Rightarrow> [] | Some l \<Rightarrow> l))"
    unfolding first_label_def by (elim rbind_InrE) simp
  show ?thesis
  proof (cases r)
    case None
    with r show ?thesis by (auto simp: first_on_None)
  next
    case (Some n)
    with r(1) obtain as bs where s: "map fst ls = as @ n # bs" "IUFindSwitch lib v n = Some True"
      "\<forall>y \<in> set as. IUFindSwitch lib v y = Some False"
      by (auto simp: first_on_Some)
    from s(1) obtain ys m zs where m: "ls = ys @ (n, m) # zs" "map fst ys = as"
      by (auto simp: map_eq_append_conv)
    have "map_of ls n = Some m" using map_of_is_SomeI [OF assms(2)] m(1) by simp
    with r(2) Some have "l = m" by simp
    with m s have "ls = ys @ (n, l) # zs \<and> IUFindSwitch lib v n = Some True \<and>
        (\<forall>y \<in> fst ` set ys. IUFindSwitch lib v y = Some False)" by (metis list.set_map)
    then show ?thesis by blast
  qed
qed

section \<open>Properties\<close>

text \<open>C2. Whatever the server announces and updates, the JSON description of the camera stays an object
  whose sections are objects (or null), so that none of the assignments into it ever throws: a
  callback can only fail on a pointer, never with an exception.\<close>

theorem camera_never_throws:
  assumes "runs (callback keep lib) (mem, INDICamera junk name) es (mem', d)"
  shows "(camera_info d = JNull \<or> is_object (camera_info d)) \<and>
    (\<forall>k c. k \<in> {''frame'', ''exposure'', ''network'', ''video'', ''limits'', ''temperature'', ''driver''} \<longrightarrow>
       j_find k (camera_info d) = Some c \<longrightarrow> c = JNull \<or> is_object c) \<and>
    (\<forall>e m w. callback keep lib e (m, d) \<noteq> Inl (Throw w))"
proof (intro conjI allI impI)
  have ok: "cam_ok d" using camera_runs_ok [OF assms] by simp
  then have info: "camera_info d = JNull \<or> is_object (camera_info d)"
    "\<forall>k \<in> sections. \<forall>c. j_find k (camera_info d) = Some c \<longrightarrow> c = JNull \<or> is_object c"
    by (auto simp: cam_ok_def info_ok_def)
  show "camera_info d = JNull \<or> is_object (camera_info d)" by (rule info(1))
  show "c = JNull \<or> is_object c"
    if "k \<in> {''frame'', ''exposure'', ''network'', ''video'', ''limits'', ''temperature'', ''driver''}"
      "j_find k (camera_info d) = Some c" for k c
    using info(2) [unfolded sections_def, THEN bspec, OF that(1), THEN spec, THEN mp, OF that(2)] .
  show "callback keep lib e (m, d) \<noteq> Inl (Throw w)" for e m w
    using fine_callback [OF ok, of keep lib e m] by (auto simp: fine_def)
qed


lemma camera_never_throws_witness:
  "\<forall>e m w. callback (\<lambda>_. JFloat) lookup_lib e (m, INDICamera zeroed_camera ''ASI'') \<noteq> Inl (Throw w)"
  using camera_never_throws [OF runs.Start, THEN conjunct2, THEN conjunct2] .

text \<open>A vector that announces a choice (frame type, transfer format, upload mode) is recorded at
  its place in the description as the label of the first switch of the list that is on, as the
  empty string where none is; nothing else changes.\<close>

theorem camera_records_choice:
  assumes "switches mem a = Some v" and "newSwitch lib mem a d = Inr d'"
    and "(vec_name v, path, ls) \<in> {(''CCD_FRAME_TYPE'', [''frame'', ''type''], frame_types),
      (''CCD_TRANSFER_FORMAT'', [''frame'', ''format''], frame_formats),
      (''UPLOAD_MODE'', [''network'', ''mode''], upload_modes)}"
  shows "\<exists>l. j_path path (camera_info d') = Some (JStr l) \<and>
    (l = [] \<and> (\<forall>n \<in> fst ` set ls. IUFindSwitch lib v n = Some False) \<or>
     (\<exists>ys n zs. ls = ys @ (n, l) # zs \<and> IUFindSwitch lib v n = Some True \<and>
        (\<forall>y \<in> fst ` set ys. IUFindSwitch lib v y = Some False))) \<and>
    d' = d\<lparr>camera_info := camera_info d'\<rparr> \<and>
    (\<forall>ks. diverge path ks \<longrightarrow> j_path ks (camera_info d') = j_path ks (camera_info d))"
proof -
  have "rbind (first_label lib v ls) (\<lambda>l. info path (JStr l) d) = Inr d' \<and> distinct (map fst ls)"
    using assms by (auto simp: newSwitch_def frame_types_def frame_formats_def upload_modes_def)
  then obtain l where l: "first_label lib v ls = Inr l" "info path (JStr l) d = Inr d'" "distinct (map fst ls)"
    by (auto simp: rbind_Inr_iff)
  show ?thesis using info_path [OF l(2)] first_label_cases [OF l(1,3)] by blast
qed

definition frame_type_vector :: "bool ivector" where
  "frame_type_vector = \<lparr>vec_name = ''CCD_FRAME_TYPE'',
     vec_elems = [(''FRAME_LIGHT'', False), (''FRAME_DARK'', True), (''FRAME_FLAT'', False)]\<rparr>"

lemma camera_records_choice_witness:
  "j_path [''frame'', ''type''] (JObj [(''frame'', JObj [(''type'', JStr ''Dark'')])]) \<noteq> Some (JStr ''Flat'') \<and>
   newSwitch lookup_lib \<lparr>switches = [1 \<mapsto> frame_type_vector], numbers = Map.empty, texts = Map.empty\<rparr> 1 zeroed_camera
     = Inr (zeroed_camera\<lparr>camera_info := JObj [(''frame'', JObj [(''type'', JStr ''Dark'')])]\<rparr>)"
proof -
  let ?m = "\<lparr>switches = [1 \<mapsto> frame_type_vector], numbers = Map.empty, texts = Map.empty\<rparr>"
  let ?d = "zeroed_camera\<lparr>camera_info := JObj [(''frame'', JObj [(''type'', JStr ''Dark'')])]\<rparr>"
  have run: "newSwitch lookup_lib ?m 1 zeroed_camera = Inr ?d"
    by (simp add: newSwitch_def frame_type_vector_def first_label_def frame_types_def lookup_lib_def
        info_def zeroed_camera_def)
  have "\<exists>l. j_path [''frame'', ''type''] (camera_info ?d) = Some (JStr l) \<and>
      (l = [] \<and> (\<forall>n \<in> fst ` set frame_types. IUFindSwitch lookup_lib frame_type_vector n = Some False) \<or>
       (\<exists>ys n zs. frame_types = ys @ (n, l) # zs \<and> IUFindSwitch lookup_lib frame_type_vector n = Some True \<and>
          (\<forall>y \<in> fst ` set ys. IUFindSwitch lookup_lib frame_type_vector y = Some False))) \<and>
      ?d = zeroed_camera\<lparr>camera_info := camera_info ?d\<rparr> \<and>
      (\<forall>ks. diverge [''frame'', ''type''] ks \<longrightarrow>
         j_path ks (camera_info ?d) = j_path ks (camera_info zeroed_camera))"
    by (rule camera_records_choice [OF _ run]) (simp_all add: frame_type_vector_def)
  with run show ?thesis by simp
qed

text \<open>What the driver says of the frame does not last and is partly never said. Information about the
  chip replaces the whole section, so the frame type, transfer format and readout mode recorded
  before are gone. The binning and the frame, announced as CCD_BINNING and CCD_FRAME, are compared
  with BINNING and FRAME and never recorded.\<close>

theorem camera_frame_section:
  assumes "numbers mem a = Some v" and "newNumber keep lib mem a d = Inr d'"
  shows "(vec_name v = ''CCD_INFO'' \<longrightarrow>
      (\<forall>k. j_path [''frame'', k] (camera_info d') \<noteq> None \<longleftrightarrow>
         k \<in> {''pixel_x'', ''pixel_y'', ''pixel_depth'', ''max_frame_x'', ''max_frame_y''})) \<and>
    (vec_name v \<in> {''CCD_BINNING'', ''CCD_FRAME''} \<longrightarrow> d' = d)"
proof (intro conjI impI)
  assume "vec_name v = ''CCD_INFO''"
  with assms have "ccd_info_update keep lib mem d = Inr d'" by (simp add: newNumber_def)
  then obtain v1 v2 v3 v4 v5 d1 where i: "info [''frame'']
      (jobject [(''pixel_x'', v1), (''pixel_y'', v2), (''pixel_depth'', v3), (''max_frame_x'', v4),
        (''max_frame_y'', v5)]) d1 = Inr d'"
    unfolding ccd_info_update_def Let_def by (elim rbind_InrE) blast
  from info_path [OF this] have p: "j_path [''frame''] (camera_info d') = Some
      (jobject [(''pixel_x'', v1), (''pixel_y'', v2), (''pixel_depth'', v3), (''max_frame_x'', v4),
        (''max_frame_y'', v5)])" by blast
  show "\<forall>k. j_path [''frame'', k] (camera_info d') \<noteq> None \<longleftrightarrow>
      k \<in> {''pixel_x'', ''pixel_y'', ''pixel_depth'', ''max_frame_x'', ''max_frame_y''}"
    using p by (auto simp: jobject_def split: option.splits if_splits)
next
  assume "vec_name v \<in> {''CCD_BINNING'', ''CCD_FRAME''}"
  with assms show "d' = d" by (auto simp: newNumber_def)
qed

definition chip_vector :: "double ivector" where
  "chip_vector = \<lparr>vec_name = ''CCD_BINNING'', vec_elems = [(''HOR_BIN'', 2), (''VER_BIN'', 2)]\<rparr>"

lemma camera_frame_section_witness:
  "newNumber (\<lambda>_. JFloat) lookup_lib
     \<lparr>switches = Map.empty, numbers = [1 \<mapsto> chip_vector], texts = Map.empty\<rparr> 1 zeroed_camera = Inr zeroed_camera"
proof -
  let ?m = "\<lparr>switches = Map.empty, numbers = [1 \<mapsto> chip_vector], texts = Map.empty\<rparr>"
  have m: "numbers ?m 1 = Some chip_vector" by simp
  obtain d' where d': "newNumber (\<lambda>_. JFloat) lookup_lib ?m 1 zeroed_camera = Inr d'"
    by (simp add: newNumber_def chip_vector_def)
  from camera_frame_section [OF m d'] have "d' = zeroed_camera" by (simp add: chip_vector_def)
  with d' show ?thesis by simp
qed

lemma guard_keeps:
  assumes "not_connected_guard d = Inr (d', b)"
  shows "d' = d\<lparr>camera_info := camera_info d'\<rparr> \<and>
    (\<forall>k. j_find k (camera_info d') = j_find k (camera_info d) \<or>
       k = ''connected'' \<and> j_find k (camera_info d) = None \<and> j_find k (camera_info d') = Some JNull)"
proof (cases "is_connected d")
  case False
  with assms obtain c where c: "j_slot ''connected'' (camera_info d) = Inr c" "info [''connected''] c d = Inr d'"
    unfolding not_connected_guard_def by (auto simp: rbind_Inr_iff)
  from c(2) obtain j where j: "j_put ''connected'' c (camera_info d) = Inr j" "d' = d\<lparr>camera_info := j\<rparr>"
    unfolding info_def by (auto simp: rbind_Inr_iff)
  from j_slot_find [OF c(1)] show ?thesis using j_find_put [OF j(1)] j(2) by (auto split: option.splits)
qed (use assms in \<open>simp add: not_connected_guard_def\<close>)

lemma call_camera_fn_keeps:
  assumes "f \<noteq> CConnect" "call_camera_fn ok f p d = Inr d'"
  shows "d' = d\<lparr>camera_info := camera_info d'\<rparr> \<and>
    (\<forall>k. j_find k (camera_info d') = j_find k (camera_info d) \<or>
       k = ''connected'' \<and> j_find k (camera_info d) = None \<and> j_find k (camera_info d') = Some JNull)"
proof (cases "f \<in> {CDisconnect, CReconnect}")
  case True
  with assms(2) obtain b where "not_connected_guard d = Inr (d', b)"
    by (auto simp: call_camera_fn_def disconnect_def reconnect_def rbind_Inr_iff)
  then show ?thesis by (rule guard_keeps)
next
  case False
  with assms have "d' = d"
    by (cases f) (auto simp: call_camera_fn_def rbind_Inr_iff split: if_splits)
  then show ?thesis by simp
qed

text \<open>Connecting always goes to the server, even when connected; the answer is true only while the
  ready flag, which nothing ever sets, happens to be clear. The driver has seventeen tasks, and apart
  from Connect none of them changes the driver: the most they do is to create a null member
  \<open>connected\<close> in the description.\<close>

theorem camera_tasks:
  "(getSimpleTask junk brace name params = None \<longleftrightarrow>
      name \<notin> {''Connect'', ''Disconnect'', ''Reconnect'', ''Scanning'', ''GetParameter'', ''SetParameter'',
        ''SingleShot'', ''AbortShot'', ''StartLiveView'', ''StopLiveView'', ''Cooling'', ''GetTemperature'',
        ''SetTemperature'', ''SetGain'', ''SetOffset'', ''SetBinning'', ''SetROIFrame''}) \<and>
   (case connect cam ok d of (d', r) \<Rightarrow>
      r = (ok \<and> \<not> is_ready d) \<and> is_connected d' = (ok \<or> is_connected d) \<and>
      requests d' = requests d @ [SetServer (hostname d) (port d), WatchDevice cam, ConnectServer] @
        (if ok then [ConnectDevice cam] else [])) \<and>
   (\<forall>f p d'. f \<noteq> CConnect \<longrightarrow> call_camera_fn ok f p d = Inr d' \<longrightarrow>
      d' = d\<lparr>camera_info := camera_info d'\<rparr> \<and>
      (\<forall>k. j_find k (camera_info d') = j_find k (camera_info d) \<or>
         k = ''connected'' \<and> j_find k (camera_info d) = None \<and> j_find k (camera_info d') = Some JNull))"
proof (intro conjI allI impI)
  have names: "fst ` set task_map = {''Connect'', ''Disconnect'', ''Reconnect'', ''Scanning'', ''GetParameter'',
        ''SetParameter'', ''SingleShot'', ''AbortShot'', ''StartLiveView'', ''StopLiveView'', ''Cooling'',
        ''GetTemperature'', ''SetTemperature'', ''SetGain'', ''SetOffset'', ''SetBinning'', ''SetROIFrame''}"
    unfolding task_map_def by (simp only: list.set image_insert image_empty fst_conv)
  have "getSimpleTask junk brace name params = None \<longleftrightarrow> name \<notin> fst ` set task_map"
    unfolding getSimpleTask_def map_option_is_None map_of_eq_None_iff ..
  then show "getSimpleTask junk brace name params = None \<longleftrightarrow>
      name \<notin> {''Connect'', ''Disconnect'', ''Reconnect'', ''Scanning'', ''GetParameter'', ''SetParameter'',
        ''SingleShot'', ''AbortShot'', ''StartLiveView'', ''StopLiveView'', ''Cooling'', ''GetTemperature'',
        ''SetTemperature'', ''SetGain'', ''SetOffset'', ''SetBinning'', ''SetROIFrame''}"
    unfolding names .
  show "case connect cam ok d of (d', r) \<Rightarrow>
      r = (ok \<and> \<not> is_ready d) \<and> is_connected d' = (ok \<or> is_connected d) \<and>
      requests d' = requests d @ [SetServer (hostname d) (port d), WatchDevice cam, ConnectServer] @
        (if ok then [ConnectDevice cam] else [])"
    by (simp add: connect_def connectServer_def IndiServerConnected_def Let_def)
qed (use call_camera_fn_keeps in \<open>blast+\<close>)

lemma camera_tasks_witness:
  "call_camera_fn True CDisconnect JNull zeroed_camera =
     Inr (zeroed_camera\<lparr>camera_info := JObj [(''connected'', JNull)]\<rparr>)"
proof -
  have run: "call_camera_fn True CDisconnect JNull zeroed_camera =
     Inr (zeroed_camera\<lparr>camera_info := JObj [(''connected'', JNull)]\<rparr>)"
    by (simp add: call_camera_fn_def not_connected_guard_def info_def disconnect_def
        zeroed_camera_def)
  from camera_tasks [where ok = True and d = zeroed_camera, THEN conjunct2, THEN conjunct2,
      rule_format, OF _ run] run show ?thesis by blast
qed

end
