(* ===== verification/ThreadPool.thy ===== *)
theory ThreadPool
  imports Prelude "HOL-Library.Multiset"
begin

text \<open>
  The thread pool of \<open>src/src/components/thread/threadpool.cpp\<close> and \<open>threadpool.hpp\<close> as a labelled
  step relation. A step is one critical section under \<open>mutex_\<close> or one notification; between two steps
  any other thread may run. Workers and the callers of \<open>wait()\<close> sleep on the same condition variable,
  so a notification may wake any of them. \<open>signals\<close> counts the calls of \<open>notify_one\<close> that are still
  to be made, each after the lock of its \<open>enqueue\<close> is released; \<open>broadcast\<close> says that the destructor
  is about to call \<open>notify_all\<close>. The tasks are those of \<open>std::packaged_task\<close>, which keep exceptions to
  themselves. The last three fields record what happened.
\<close>

section \<open>State and steps\<close>

datatype 'a worker = WLock | WSleep | WRun 'a | WExit

datatype waiter = Outside | WaitLock | WaitSleep

record 'a pool =
  tasks :: "'a list"
  stop :: bool
  workers :: "'a worker list"
  waiters :: "nat \<Rightarrow> waiter"
  signals :: nat
  broadcast :: bool
  enqueued :: "'a list"
  started :: "'a list"
  finished :: "'a list"

definition ThreadPool :: "nat \<Rightarrow> 'a pool" where
  "ThreadPool num_threads =
     \<lparr>tasks = [], stop = False, workers = replicate num_threads WLock, waiters = (\<lambda>_. Outside),
      signals = 0, broadcast = False, enqueued = [], started = [], finished = []\<rparr>"

datatype 'a pool_label =
    LEnqueue 'a | LNotify | LTake nat | LSleep nat | LExit nat | LFinish nat
  | LWait nat | LWaitReturn nat | LWaitSleep nat | LStop | LNotifyAll | LSpurious

text \<open>
  Using the pool once its destructor runs is an error of the caller, so \<open>enqueue\<close> and \<open>wait\<close> are
  only called before.
\<close>

inductive pool_step :: "'a pool \<Rightarrow> 'a pool_label \<Rightarrow> 'a pool \<Rightarrow> bool" where
  enqueue: "\<not> stop s \<Longrightarrow>
    pool_step s (LEnqueue t)
      (s\<lparr>tasks := tasks s @ [t], enqueued := enqueued s @ [t], signals := Suc (signals s)\<rparr>)"
| notify_worker: "signals s = Suc k \<Longrightarrow> i < length (workers s) \<Longrightarrow> workers s ! i = WSleep \<Longrightarrow>
    pool_step s LNotify (s\<lparr>signals := k, workers := (workers s)[i := WLock]\<rparr>)"
| notify_waiter: "signals s = Suc k \<Longrightarrow> waiters s j = WaitSleep \<Longrightarrow>
    pool_step s LNotify (s\<lparr>signals := k, waiters := (waiters s)(j := WaitLock)\<rparr>)"
| notify_nobody: "signals s = Suc k \<Longrightarrow> WSleep \<notin> set (workers s) \<Longrightarrow> WaitSleep \<notin> range (waiters s) \<Longrightarrow>
    pool_step s LNotify (s\<lparr>signals := k\<rparr>)"
| take_task: "i < length (workers s) \<Longrightarrow> workers s ! i = WLock \<Longrightarrow> tasks s = t # ts \<Longrightarrow>
    pool_step s (LTake i) (s\<lparr>tasks := ts, workers := (workers s)[i := WRun t], started := started s @ [t]\<rparr>)"
| sleep: "i < length (workers s) \<Longrightarrow> workers s ! i = WLock \<Longrightarrow> tasks s = [] \<Longrightarrow> \<not> stop s \<Longrightarrow>
    pool_step s (LSleep i) (s\<lparr>workers := (workers s)[i := WSleep]\<rparr>)"
| exit: "i < length (workers s) \<Longrightarrow> workers s ! i = WLock \<Longrightarrow> tasks s = [] \<Longrightarrow> stop s \<Longrightarrow>
    pool_step s (LExit i) (s\<lparr>workers := (workers s)[i := WExit]\<rparr>)"
| finish: "i < length (workers s) \<Longrightarrow> workers s ! i = WRun t \<Longrightarrow>
    pool_step s (LFinish i) (s\<lparr>workers := (workers s)[i := WLock], finished := finished s @ [t]\<rparr>)"
| wait_call: "\<not> stop s \<Longrightarrow> waiters s j = Outside \<Longrightarrow>
    pool_step s (LWait j) (s\<lparr>waiters := (waiters s)(j := WaitLock)\<rparr>)"
| wait_return: "waiters s j = WaitLock \<Longrightarrow> tasks s = [] \<Longrightarrow>
    pool_step s (LWaitReturn j) (s\<lparr>waiters := (waiters s)(j := Outside)\<rparr>)"
| wait_sleep: "waiters s j = WaitLock \<Longrightarrow> tasks s \<noteq> [] \<Longrightarrow>
    pool_step s (LWaitSleep j) (s\<lparr>waiters := (waiters s)(j := WaitSleep)\<rparr>)"
| stop_pool: "\<not> stop s \<Longrightarrow> pool_step s LStop (s\<lparr>stop := True, broadcast := True\<rparr>)"
| notify_all: "broadcast s \<Longrightarrow>
    pool_step s LNotifyAll
      (s\<lparr>broadcast := False, workers := map (\<lambda>w. if w = WSleep then WLock else w) (workers s),
        waiters := (\<lambda>j. if waiters s j = WaitSleep then WaitLock else waiters s j)\<rparr>)"
| spurious_worker: "i < length (workers s) \<Longrightarrow> workers s ! i = WSleep \<Longrightarrow>
    pool_step s LSpurious (s\<lparr>workers := (workers s)[i := WLock]\<rparr>)"
| spurious_waiter: "waiters s j = WaitSleep \<Longrightarrow>
    pool_step s LSpurious (s\<lparr>waiters := (waiters s)(j := WaitLock)\<rparr>)"

inductive_cases pool_stepE: "pool_step s l s'"

inductive_simps take_simps: "pool_step s (LTake i) s'"
inductive_simps exit_simps: "pool_step s (LExit i) s'"
inductive_simps finish_simps: "pool_step s (LFinish i) s'"
inductive_simps notify_all_simps: "pool_step s LNotifyAll s'"
inductive_simps notify_simps: "pool_step s LNotify s'"

inductive pool_run :: "'a pool \<Rightarrow> 'a pool_label list \<Rightarrow> 'a pool \<Rightarrow> bool" for s where
  pool_start: "pool_run s [] s"
| pool_more: "pool_run s ls s' \<Longrightarrow> pool_step s' l s'' \<Longrightarrow> pool_run s (ls @ [l]) s''"

text \<open>The destructor has joined every worker.\<close>

definition joined :: "'a pool \<Rightarrow> bool" where
  "joined s \<longleftrightarrow> set (workers s) \<subseteq> {WExit}"

section \<open>Invariants\<close>

fun running :: "'a worker \<Rightarrow> 'a multiset" where
  "running (WRun t) = {#t#}"
| "running _ = {#}"

definition in_flight :: "'a worker list \<Rightarrow> 'a multiset" where
  "in_flight ws = (\<Sum>w \<leftarrow> ws. running w)"

lemma sum_list_update_mset:
  fixes f :: "'b \<Rightarrow> 'a multiset"
  shows "i < length ws \<Longrightarrow> (\<Sum>w \<leftarrow> ws[i := w']. f w) + f (ws ! i) = (\<Sum>w \<leftarrow> ws. f w) + f w'"
proof (induction ws arbitrary: i)
  case (Cons w ws)
  then show ?case by (cases i) (auto simp: ac_simps)
qed simp

lemma in_flight_update:
  "i < length ws \<Longrightarrow> in_flight (ws[i := w']) + running (ws ! i) = in_flight ws + running w'"
  unfolding in_flight_def by (rule sum_list_update_mset)

lemma in_flight_wake: "in_flight (map (\<lambda>w. if w = WSleep then WLock else w) ws) = in_flight ws"
  by (induction ws) (auto simp: in_flight_def)

definition pool_inv :: "nat \<Rightarrow> 'a pool \<Rightarrow> bool" where
  "pool_inv n s \<longleftrightarrow>
     length (workers s) = n \<and> enqueued s = started s @ tasks s \<and>
     mset (started s) = mset (finished s) + in_flight (workers s) \<and>
     (WExit \<in> set (workers s) \<longrightarrow> stop s \<and> tasks s = []) \<and>
     (stop s \<and> \<not> broadcast s \<longrightarrow> WSleep \<notin> set (workers s)) \<and>
     (broadcast s \<longrightarrow> stop s)"

lemma pool_inv_init: "pool_inv n (ThreadPool n)"
  by (induction n) (simp_all add: pool_inv_def ThreadPool_def in_flight_def)

lemma set_update_other: "x \<in> set (ws[i := w]) \<Longrightarrow> x = w \<or> x \<in> set ws"
  using set_update_subset_insert [of ws i w] by blast

lemma pool_inv_step: "pool_step s l s' \<Longrightarrow> pool_inv n s \<Longrightarrow> pool_inv n s'"
proof (induction rule: pool_step.induct)
  case (notify_worker s k i)
  with in_flight_update [of i "workers s" WLock] show ?case
    by (auto simp: pool_inv_def dest: set_update_other)
next
  case (take_task i s t ts)
  with in_flight_update [of i "workers s" "WRun t"] show ?case
    by (auto simp: pool_inv_def dest: set_update_other)
next
  case (sleep i s)
  with in_flight_update [of i "workers s" WSleep] show ?case
    by (auto simp: pool_inv_def dest: set_update_other)
next
  case (exit i s)
  with in_flight_update [of i "workers s" WExit] show ?case
    by (auto simp: pool_inv_def dest: set_update_other)
next
  case (finish i s t)
  with in_flight_update [of i "workers s" WLock] show ?case
    by (auto simp: pool_inv_def dest: set_update_other)
next
  case (spurious_worker i s)
  with in_flight_update [of i "workers s" WLock] show ?case
    by (auto simp: pool_inv_def dest: set_update_other)
next
  case (notify_all s)
  then show ?case by (auto simp: pool_inv_def in_flight_wake split: if_splits)
qed (auto simp: pool_inv_def)

lemma pool_inv_run: "pool_run s ls s' \<Longrightarrow> pool_inv n s \<Longrightarrow> pool_inv n s'"
  by (induction rule: pool_run.induct) (auto intro: pool_inv_step)

lemma in_flight_exited: "set ws \<subseteq> {WExit} \<Longrightarrow> in_flight ws = {#}"
  by (induction ws) (auto simp: in_flight_def)

section \<open>Shutting down\<close>

text \<open>
  The steps the pool makes of itself once the destructor has started: its own notifications, the
  workers, and spurious wake-ups. Each lowers the measure.
\<close>

fun internal :: "'a pool_label \<Rightarrow> bool" where
  "internal LNotifyAll = True"
| "internal (LTake i) = True"
| "internal (LSleep i) = True"
| "internal (LExit i) = True"
| "internal (LFinish i) = True"
| "internal _ = False"

fun work_left :: "'a worker \<Rightarrow> nat" where
  "work_left WLock = 1"
| "work_left WSleep = 2"
| "work_left (WRun t) = 2"
| "work_left WExit = 0"

definition shutdown_measure :: "'a pool \<Rightarrow> nat" where
  "shutdown_measure s =
     2 * length (tasks s) + (\<Sum>w \<leftarrow> workers s. work_left w) + (if broadcast s then 1 else 0)"

lemma sum_list_update_nat:
  fixes f :: "'b \<Rightarrow> nat"
  shows "i < length ws \<Longrightarrow> (\<Sum>w \<leftarrow> ws[i := w']. f w) + f (ws ! i) = (\<Sum>w \<leftarrow> ws. f w) + f w'"
proof (induction ws arbitrary: i)
  case (Cons w ws)
  then show ?case by (cases i) auto
qed simp

lemma work_left_le: "work_left w \<le> 2"
  by (cases w) auto

lemma sum_work_left_le: "(\<Sum>w \<leftarrow> ws. work_left w) \<le> 2 * length ws"
proof (induction ws)
  case (Cons w ws)
  then show ?case using work_left_le [of w] by simp
qed simp

lemma wake_measure:
  "(\<Sum>w \<leftarrow> map (\<lambda>w. if w = WSleep then WLock else w) ws. work_left w) \<le> (\<Sum>w \<leftarrow> ws. work_left w)"
  by (induction ws) auto

lemma internal_decreases:
  assumes "pool_step s l s'" "internal l" "stop s"
  shows "shutdown_measure s' < shutdown_measure s \<and> stop s'"
  using assms
proof (induction rule: pool_step.induct)
  case (take_task i s t ts)
  with sum_list_update_nat [of i "workers s" work_left "WRun t"] show ?case
    by (auto simp: shutdown_measure_def)
next
  case (exit i s)
  with sum_list_update_nat [of i "workers s" work_left WExit] show ?case
    by (auto simp: shutdown_measure_def)
next
  case (finish i s t)
  with sum_list_update_nat [of i "workers s" work_left WLock] show ?case
    by (auto simp: shutdown_measure_def)
next
  case (notify_all s)
  with wake_measure [of "workers s"] show ?case by (simp add: shutdown_measure_def)
qed auto

lemma internal_run_bounded:
  assumes "pool_run s ls s'" "list_all internal ls" "stop s"
  shows "length ls + shutdown_measure s' \<le> shutdown_measure s \<and> stop s'"
  using assms
proof (induction rule: pool_run.induct)
  case (pool_more ls s' l s'')
  then show ?case using internal_decreases [of s' l s''] by auto
qed simp

lemma internal_progress:
  assumes "stop s" "\<not> joined s" "broadcast s \<or> WSleep \<notin> set (workers s)"
  shows "\<exists>l s'. internal l \<and> pool_step s l s'"
proof (cases "broadcast s")
  case True
  then show ?thesis using notify_all internal.simps(1) by blast
next
  case False
  from assms(2) obtain i where i: "i < length (workers s)" "workers s ! i \<noteq> WExit"
    unfolding joined_def by (metis in_set_conv_nth singletonI subsetI)
  have "workers s ! i \<noteq> WSleep" using False assms(3) i(1) nth_mem by metis
  then consider "workers s ! i = WLock" | t where "workers s ! i = WRun t"
    using i(2) by (cases "workers s ! i") auto
  then show ?thesis
  proof cases
    case 1
    show ?thesis
    proof (cases "tasks s")
      case Nil
      then show ?thesis using exit [OF i(1) 1 _ assms(1)] internal.simps(4) by blast
    next
      case (Cons t ts)
      then show ?thesis using take_task [OF i(1) 1] internal.simps(2) by blast
    qed
  next
    case 2
    then show ?thesis using finish [OF i(1)] internal.simps(5) by blast
  qed
qed

section \<open>A lost wake-up\<close>

lemma workers_fall_asleep:
  "k \<le> n \<Longrightarrow> \<exists>ls. pool_run (ThreadPool n :: 'a pool) ls
     ((ThreadPool n)\<lparr>workers := replicate k WSleep @ replicate (n - k) WLock\<rparr>)"
proof (induction k)
  case 0
  show ?case using pool_start [of "ThreadPool n :: 'a pool"] by (auto simp: ThreadPool_def)
next
  case (Suc k)
  let ?s = "(ThreadPool n :: 'a pool)\<lparr>workers := replicate k WSleep @ replicate (n - k) WLock\<rparr>"
  from Suc obtain ls where ls: "pool_run (ThreadPool n) ls ?s" by auto
  have "pool_step ?s (LSleep k) (?s\<lparr>workers := (workers ?s)[k := WSleep]\<rparr>)"
    by (rule sleep) (use Suc.prems in \<open>simp_all add: nth_append ThreadPool_def\<close>)
  moreover have "(workers ?s)[k := WSleep] = replicate (Suc k) WSleep @ replicate (n - Suc k) WLock"
    using Suc.prems by (auto simp: list_update_append replicate_append_same Suc_diff_Suc [symmetric])
  ultimately have "pool_step ?s (LSleep k)
      ((ThreadPool n)\<lparr>workers := replicate (Suc k) WSleep @ replicate (n - Suc k) WLock\<rparr>)"
    by simp
  from pool_more [OF ls this] show ?case by blast
qed

text \<open>Every worker asleep, a task in the queue, a caller of \<open>wait\<close> asleep, and no notification due.\<close>

definition stuck :: "nat \<Rightarrow> 'a \<Rightarrow> 'a pool" where
  "stuck n t =
     (ThreadPool n)\<lparr>workers := replicate n WSleep, tasks := [t], enqueued := [t],
       waiters := (\<lambda>_. Outside)(0 := WaitSleep)\<rparr>"

lemma stuck_reachable: "\<exists>ls. pool_run (ThreadPool n) ls (stuck n (t :: 'a))"
proof -
  obtain ls where 0: "pool_run (ThreadPool n :: 'a pool) ls ((ThreadPool n)\<lparr>workers := replicate n WSleep\<rparr>)"
    using workers_fall_asleep [of n n] by auto
  let ?s1 = "(stuck n t)\<lparr>signals := 1, waiters := (\<lambda>_. Outside)\<rparr>"
  let ?s2 = "(stuck n t)\<lparr>signals := 1, waiters := (\<lambda>_. Outside)(0 := WaitLock)\<rparr>"
  let ?s3 = "(stuck n t)\<lparr>signals := 1\<rparr>"
  let ?s4 = "(stuck n t)\<lparr>waiters := (\<lambda>_. Outside)(0 := WaitLock)\<rparr>"
  have 1: "pool_step ((ThreadPool n :: 'a pool)\<lparr>workers := replicate n WSleep\<rparr>) (LEnqueue t) ?s1"
    using enqueue [of "(ThreadPool n)\<lparr>workers := replicate n WSleep\<rparr>" t]
    by (simp add: stuck_def ThreadPool_def)
  have 2: "pool_step ?s1 (LWait 0) ?s2" using wait_call [of ?s1 0] by (simp add: stuck_def ThreadPool_def)
  have 3: "pool_step ?s2 (LWaitSleep 0) ?s3" using wait_sleep [of ?s2 0] by (simp add: stuck_def ThreadPool_def)
  have 4: "pool_step ?s3 LNotify ?s4" using notify_waiter [of ?s3 0 0] by (simp add: stuck_def ThreadPool_def)
  have 5: "pool_step ?s4 (LWaitSleep 0) (stuck n t)"
    using wait_sleep [of ?s4 0] by (simp add: stuck_def ThreadPool_def)
  from pool_more [OF pool_more [OF pool_more [OF pool_more [OF pool_more [OF 0 1] 2] 3] 4] 5]
  show ?thesis by blast
qed

lemma stuck_steps:
  assumes "pool_step (stuck n t) l s'"
  shows "l = LSpurious \<or> l = LStop \<or> (\<exists>u. l = LEnqueue u) \<or> (\<exists>j. l = LWait j)"
  using assms by (cases rule: pool_stepE) (auto simp: stuck_def ThreadPool_def split: if_splits)

lemma waiter_sleeps_on:
  assumes "pool_step s l s'" "waiters s j = WaitSleep" "l \<notin> {LNotify, LNotifyAll, LSpurious}"
  shows "waiters s' j = WaitSleep"
  using assms by (cases rule: pool_stepE) auto

section \<open>Properties\<close>

text \<open>C7. Whatever the interleaving, tasks are started in the order they were enqueued, each at most once,
  and every started task is finished or in the hands of one worker. When the destructor has joined
  the workers of a pool that has any, every task ever enqueued has been run to its end, once.\<close>

theorem pool_runs_everything_once:
  assumes "pool_run (ThreadPool n) ls s"
  shows "enqueued s = started s @ tasks s \<and>
    mset (started s) = mset (finished s) + in_flight (workers s) \<and>
    (joined s \<and> 0 < n \<longrightarrow> tasks s = [] \<and> started s = enqueued s \<and> mset (finished s) = mset (enqueued s))"
proof -
  have inv: "pool_inv n s" using pool_inv_run [OF assms pool_inv_init] .
  have "tasks s = [] \<and> in_flight (workers s) = {#}" if "joined s" "0 < n"
  proof
    from inv that(2) have "workers s \<noteq> []" by (auto simp: pool_inv_def)
    then have "hd (workers s) \<in> set (workers s)" by simp
    with that(1) have "WExit \<in> set (workers s)" unfolding joined_def by auto
    with inv show "tasks s = []" by (simp add: pool_inv_def)
    show "in_flight (workers s) = {#}" using that(1) unfolding joined_def by (rule in_flight_exited)
  qed
  with inv show ?thesis by (auto simp: pool_inv_def)
qed

definition stopping :: "nat pool" where
  "stopping = (ThreadPool 1)\<lparr>stop := True, broadcast := True\<rparr>"

lemma stopping_run: "pool_run (ThreadPool 1) ([] @ [LStop]) stopping"
  unfolding stopping_def by (rule pool_more [OF pool_start]) (rule stop_pool, simp add: ThreadPool_def)

lemma empty_shutdown: "\<exists>s. pool_run stopping (([] @ [LNotifyAll]) @ [LExit 0]) s \<and> joined s"
proof -
  obtain s where 1: "pool_run stopping ([] @ [LNotifyAll]) s" "workers s = [WLock]" "tasks s = []" "stop s"
    using pool_more [OF pool_start notify_all, of stopping] by (simp add: ThreadPool_def stopping_def)
  show ?thesis using pool_more [OF 1(1) exit [of 0]] 1(2-4) by (force simp: joined_def)
qed

lemma pool_runs_everything_once_witness:
  "enqueued stopping = started stopping @ tasks stopping"
  using pool_runs_everything_once [OF stopping_run] by blast

text \<open>C8. The destructor returns. Once it has set the stop flag, the pool can make at most as many steps of
  its own as the measure of the state says (two per waiting task, at most two per worker, and the
  notification), and it is never stuck: a state that allows no such step has joined every worker.\<close>

theorem shutdown_terminates:
  assumes "pool_run (ThreadPool n) ls s" and "stop s"
    and "pool_run s ms s'" and "list_all internal ms"
  shows "length ms \<le> 2 * length (tasks s) + 2 * n + 1 \<and>
    ((\<nexists>l s''. internal l \<and> pool_step s' l s'') \<longrightarrow> joined s')"
proof
  have inv: "pool_inv n s" using pool_inv_run [OF assms(1) pool_inv_init] .
  from sum_work_left_le [of "workers s"] inv have "shutdown_measure s \<le> 2 * length (tasks s) + 2 * n + 1"
    by (auto simp: shutdown_measure_def pool_inv_def)
  with internal_run_bounded [OF assms(3,4,2)] show "length ms \<le> 2 * length (tasks s) + 2 * n + 1" by simp
  have "pool_inv n s'" "stop s'"
    using pool_inv_run [OF assms(3) inv] internal_run_bounded [OF assms(3,4,2)] by simp_all
  then show "(\<nexists>l s''. internal l \<and> pool_step s' l s'') \<longrightarrow> joined s'"
    using internal_progress [of s'] by (auto simp: pool_inv_def)
qed

lemma shutdown_terminates_witness:
  "length [LNotifyAll, LExit 0 :: nat pool_label] \<le> 2 * length (tasks stopping) + 2 * 1 + 1"
proof -
  obtain s where s: "pool_run stopping (([] @ [LNotifyAll]) @ [LExit 0]) s" using empty_shutdown by blast
  have "stop stopping" by (simp add: stopping_def)
  from shutdown_terminates [OF stopping_run this s] show ?thesis by simp
qed

text \<open>C9. A wake-up can be lost. The workers and the callers of \<open>wait\<close> sleep on one condition variable, and
  \<open>enqueue\<close> notifies one sleeper: if that is a caller of \<open>wait\<close>, it goes back to sleep. For every number
  of workers the pool reaches a state with a task in the queue and everyone asleep, in which only a
  spurious wake-up, another call or the destructor changes anything. Nor does a worker that
  empties the queue wake anyone: a sleeping caller of \<open>wait\<close> sleeps on through every step that is no
  notification.\<close>

theorem lost_wakeup:
  "(\<exists>ls s. pool_run (ThreadPool n) ls s \<and> tasks s = [t] \<and> \<not> stop s \<and>
      set (workers s) \<subseteq> {WSleep} \<and> waiters s 0 = WaitSleep \<and>
      (\<forall>l s'. pool_step s l s' \<longrightarrow> l = LSpurious \<or> l = LStop \<or> (\<exists>u. l = LEnqueue u) \<or> (\<exists>j. l = LWait j))) \<and>
   (pool_step s l s' \<and> waiters s j = WaitSleep \<and> l \<notin> {LNotify, LNotifyAll, LSpurious} \<longrightarrow>
      waiters s' j = WaitSleep)"
proof
  obtain ls where ls: "pool_run (ThreadPool n) ls (stuck n t)" using stuck_reachable [of n t] by blast
  moreover have "tasks (stuck n t) = [t]" "\<not> stop (stuck n t)" "set (workers (stuck n t)) \<subseteq> {WSleep}"
    "waiters (stuck n t) 0 = WaitSleep"
    by (auto simp: stuck_def ThreadPool_def)
  ultimately show "\<exists>ls s. pool_run (ThreadPool n) ls s \<and> tasks s = [t] \<and> \<not> stop s \<and>
      set (workers s) \<subseteq> {WSleep} \<and> waiters s 0 = WaitSleep \<and>
      (\<forall>l s'. pool_step s l s' \<longrightarrow> l = LSpurious \<or> l = LStop \<or> (\<exists>u. l = LEnqueue u) \<or> (\<exists>j. l = LWait j))"
    using stuck_steps [of n t] by (intro exI [of _ ls] exI [of _ "stuck n t"]) auto
qed (use waiter_sleeps_on in blast)

lemma lost_wakeup_witness:
  "\<exists>ls s. pool_run (ThreadPool 4) ls s \<and> tasks s = [7 :: nat] \<and> waiters s 0 = WaitSleep"
  using lost_wakeup [where n = 4 and t = 7, THEN conjunct1] by auto

end
