(* ===== verification/ThreadManager.thy ===== *)
theory ThreadManager
  imports Registry
begin

text \<open>
  The thread manager of \<open>src/src/components/thread/thread.cpp\<close> and \<open>thread.hpp\<close>. A call is modelled as
  made while no other call changes the list; \<open>ended t\<close> says whether thread \<open>t\<close> has left the function
  it was started with. Before it leaves, a thread locks \<open>m_mtx\<close> once more, so it cannot end
  while another thread holds that mutex.
\<close>

section \<open>State\<close>

record managed_thread =
  tm_thread :: "nat option"
  tm_name :: string
  tm_sleeping :: bool

record thread_manager =
  m_threads :: "managed_thread list"
  m_stopFlag :: bool
  m_maxThreads :: int

definition ThreadManager :: "int \<Rightarrow> thread_manager" where
  "ThreadManager maxThreads = \<lparr>m_threads = [], m_stopFlag = False, m_maxThreads = maxThreads\<rparr>"

section \<open>Operations\<close>

text \<open>
  \<open>m_threads.size() < m_maxThreads\<close> compares after conversion to \<open>size_t\<close>: a negative limit is a
  huge one. An exception of \<open>addThread\<close> is caught and logged.
\<close>

definition has_room :: "thread_manager \<Rightarrow> bool" where
  "has_room m \<longleftrightarrow> (of_nat (length (m_threads m)) :: size_t) < of_int (m_maxThreads m)"

definition addThread :: "nat \<Rightarrow> string \<Rightarrow> thread_manager \<Rightarrow> thread_manager outcome" where
  "addThread t name m =
     (if \<not> (has_room m \<or> m_stopFlag m) then Waits
      else if m_stopFlag m then Returns m
      else Returns (m\<lparr>m_threads := m_threads m @ [\<lparr>tm_thread = Some t, tm_name = name, tm_sleeping = False\<rparr>]\<rparr>))"

text \<open>Locking a \<open>std::mutex\<close> the calling thread holds already never succeeds.\<close>

definition joinAllThreads :: "bool \<Rightarrow> thread_manager \<Rightarrow> thread_manager outcome" where
  "joinAllThreads held m =
     (if held then Deadlocks
      else if m_threads m \<noteq> [] then Waits
      else Returns (m\<lparr>m_threads := []\<rparr>))"

definition destroy :: "thread_manager \<Rightarrow> thread_manager outcome" where
  "destroy m = joinAllThreads True (if \<not> m_stopFlag m then m\<lparr>m_stopFlag := True\<rparr> else m)"

text \<open>The thread of an entry is joined with the mutex held, then its pointer is reset.\<close>

definition joinThread :: "(nat \<Rightarrow> bool) \<Rightarrow> managed_thread \<Rightarrow> managed_thread outcome" where
  "joinThread ended e = (case tm_thread e of
     None \<Rightarrow> Returns (e\<lparr>tm_sleeping := False\<rparr>)
   | Some t \<Rightarrow> if ended t then Returns (e\<lparr>tm_thread := None, tm_sleeping := False\<rparr>) else Deadlocks)"

definition find_thread :: "string \<Rightarrow> thread_manager \<Rightarrow> nat" where
  "find_thread name m = find_if (\<lambda>e. tm_name e = name) (m_threads m)"

definition joinThreadByName :: "(nat \<Rightarrow> bool) \<Rightarrow> string \<Rightarrow> thread_manager \<Rightarrow> thread_manager outcome" where
  "joinThreadByName ended name m =
     (if m_threads m = [] then Returns m
      else (let i = find_thread name m in
        if i = length (m_threads m) then Returns m
        else (case joinThread ended (m_threads m ! i) of
            Returns e \<Rightarrow>
              Returns (m\<lparr>m_threads := filter (\<lambda>x. tm_thread x \<noteq> None) ((m_threads m)[i := e])\<rparr>)
          | Waits \<Rightarrow> Waits
          | Deadlocks \<Rightarrow> Deadlocks)))"

text \<open>The flag is set while the caller sleeps and reset afterwards.\<close>

definition sleepThreadByName :: "string \<Rightarrow> thread_manager \<Rightarrow> thread_manager \<times> bool" where
  "sleepThreadByName name m =
     (if m_threads m = [] then (m, False)
      else (let i = find_thread name m in
        if i = length (m_threads m) then (m, False)
        else if tm_sleeping (m_threads m ! i) then (m, True)
        else (m\<lparr>m_threads := (m_threads m)[i := (m_threads m ! i)\<lparr>tm_sleeping := False\<rparr>]\<rparr>, True)))"

definition isThreadRunning :: "string \<Rightarrow> thread_manager \<Rightarrow> bool" where
  "isThreadRunning name m =
     (if m_threads m = [] then False
      else (let i = find_thread name m in
        if i = length (m_threads m) then False else \<not> tm_sleeping (m_threads m ! i)))"

section \<open>Calls in sequence\<close>

datatype tm_call = AddThread nat string | JoinByName string | SleepByName string | JoinAll

definition tm_do :: "(nat \<Rightarrow> bool) \<Rightarrow> tm_call \<Rightarrow> thread_manager \<Rightarrow> thread_manager outcome" where
  "tm_do ended c m = (case c of
     AddThread t name \<Rightarrow> addThread t name m
   | JoinByName name \<Rightarrow> joinThreadByName ended name m
   | SleepByName name \<Rightarrow> Returns (fst (sleepThreadByName name m))
   | JoinAll \<Rightarrow> joinAllThreads False m)"

text \<open>Calls that return, each with the threads that have ended by then.\<close>

inductive tm_reach :: "int \<Rightarrow> thread_manager \<Rightarrow> bool" for maxThreads where
  tm_new: "tm_reach maxThreads (ThreadManager maxThreads)"
| tm_call: "tm_reach maxThreads m \<Longrightarrow> tm_do ended c m = Returns m' \<Longrightarrow> tm_reach maxThreads m'"

section \<open>Lemmas\<close>

text \<open>Between calls every entry holds its thread and none is marked asleep.\<close>

definition tm_inv :: "int \<Rightarrow> thread_manager \<Rightarrow> bool" where
  "tm_inv n m \<longleftrightarrow> m_maxThreads m = n \<and> \<not> m_stopFlag m \<and>
     (\<forall>e \<in> set (m_threads m). tm_thread e \<noteq> None \<and> \<not> tm_sleeping e) \<and>
     (0 \<le> n \<and> n < 2 ^ 31 \<longrightarrow> length (m_threads m) \<le> nat n)"

lemma joinThreadByName_eq:
  assumes "\<forall>e \<in> set (m_threads m). tm_thread e \<noteq> None"
  shows "joinThreadByName ended name m =
    (let i = find_thread name m in
     if i = length (m_threads m) then Returns m
     else if ended (the (tm_thread (m_threads m ! i))) then
       Returns (m\<lparr>m_threads := erase_at i (m_threads m)\<rparr>)
     else Deadlocks)"
proof (cases "find_thread name m < length (m_threads m)")
  case True
  then obtain ys e zs where s: "m_threads m = ys @ e # zs" "find_thread name m = length ys"
    unfolding find_thread_def by (rule find_if_split) blast
  with assms obtain t where t: "tm_thread e = Some t" by auto
  have "filter (\<lambda>x. tm_thread x \<noteq> None) ys = ys" "filter (\<lambda>x. tm_thread x \<noteq> None) zs = zs"
    using assms s(1) by (auto simp: filter_id_conv)
  then show ?thesis using s t by (simp add: joinThreadByName_def joinThread_def Let_def)
next
  case False
  then have "find_thread name m = length (m_threads m)"
    unfolding find_thread_def using find_if_le le_neq_implies_less by blast
  then show ?thesis by (simp add: joinThreadByName_def Let_def)
qed

lemma has_room_bound:
  assumes "has_room m" "0 \<le> m_maxThreads m" "m_maxThreads m < 2 ^ 31" "length (m_threads m) < 2 ^ 64"
  shows "length (m_threads m) < nat (m_maxThreads m)"
proof -
  have "unat (of_nat (length (m_threads m)) :: size_t) = length (m_threads m)"
    using assms(4) by (simp add: unsigned_of_nat take_bit_nat_eq_self)
  moreover have "unat (of_int (m_maxThreads m) :: size_t) = nat (m_maxThreads m)"
    using assms(2,3) by (simp add: unsigned_of_int take_bit_int_eq_self)
  ultimately show ?thesis using assms(1) by (simp add: has_room_def word_less_nat_alt)
qed

lemma awake:
  "\<not> tm_sleeping (ms ! i) \<Longrightarrow> ms[i := (ms ! i)\<lparr>tm_sleeping := False\<rparr>] = ms"
  by (cases "ms ! i") (metis list_update_id managed_thread.select_convs(3) managed_thread.update_convs(3))

lemma tm_inv_do:
  assumes "tm_inv n m" "tm_do ended c m = Returns m'"
  shows "tm_inv n m'"
proof (cases c)
  case (AddThread t name)
  have "length (m_threads m) < nat n" if "0 \<le> n" "n < 2 ^ 31" "has_room m"
  proof -
    have "length (m_threads m) \<le> nat n" "m_maxThreads m = n" using assms(1) that by (auto simp: tm_inv_def)
    moreover have "nat n < 2 ^ 64" using that(2) by simp
    ultimately have "length (m_threads m) < 2 ^ 64" "m_maxThreads m = n" by simp_all
    with has_room_bound [of m] that \<open>m_maxThreads m = n\<close> show ?thesis by simp
  qed
  then show ?thesis using assms AddThread
    by (auto simp: tm_do_def addThread_def tm_inv_def split: if_splits)
next
  case (JoinByName name)
  with assms have "joinThreadByName ended name m = Returns m'" by (simp add: tm_do_def)
  with assms(1) have "m' = m \<or> (\<exists>i < length (m_threads m). m' = m\<lparr>m_threads := erase_at i (m_threads m)\<rparr>)"
    using joinThreadByName_eq [of m ended name] find_if_le [of "\<lambda>e. tm_name e = name" "m_threads m"]
    by (auto simp: tm_inv_def Let_def find_thread_def le_less split: if_splits)
  moreover have "tm_inv n (m\<lparr>m_threads := erase_at i (m_threads m)\<rparr>)" if "i < length (m_threads m)" for i
    using assms(1) set_erase_at_subset [of i "m_threads m"] length_erase_at [OF that]
    by (auto simp: tm_inv_def)
  ultimately show ?thesis using assms(1) by blast
next
  case (SleepByName name)
  have "fst (sleepThreadByName name m) = m" by (auto simp: sleepThreadByName_def Let_def awake)
  then show ?thesis using assms SleepByName by (simp add: tm_do_def)
next
  case JoinAll
  then show ?thesis using assms by (auto simp: tm_do_def joinAllThreads_def tm_inv_def split: if_splits)
qed

lemma tm_reach_inv: "tm_reach n m \<Longrightarrow> tm_inv n m"
proof (induction rule: tm_reach.induct)
  case tm_new
  show ?case by (simp add: tm_inv_def ThreadManager_def)
qed (rule tm_inv_do)

definition thread_names :: "thread_manager \<Rightarrow> string list" where
  "thread_names m = map tm_name (m_threads m)"

text \<open>Joining by name where it returns, as a function of the list of names.\<close>

definition joined_by_name :: "string \<Rightarrow> thread_manager \<Rightarrow> thread_manager" where
  "joined_by_name name m =
     (let i = find_thread name m in
      if i = length (m_threads m) then m else m\<lparr>m_threads := erase_at i (m_threads m)\<rparr>)"

interpretation tm: named_list thread_names joined_by_name
proof unfold_locales
  fix n m
  show "thread_names (joined_by_name n m) = remove1 n (thread_names m)"
    using map_erase_find_if [of tm_name n "m_threads m"]
    by (auto simp: thread_names_def joined_by_name_def find_thread_def Let_def)
qed

lemma joinThreadByName_joined:
  "tm_reach n m \<Longrightarrow> joinThreadByName ended name m = Returns m' \<Longrightarrow> m' = joined_by_name name m"
  using joinThreadByName_eq [of m ended name] tm_reach_inv [of n m]
  by (auto simp: tm_inv_def joined_by_name_def Let_def split: if_splits)

section \<open>Properties\<close>

text \<open>C17. After any calls that returned: there are at most as many threads as the limit says, if it is not
  negative; joining a name returns exactly when the manager has no such thread or the first one has
  ended, and then drops that one name; otherwise the caller holds the mutex the thread needs to end,
  and both wait for ever.\<close>

theorem join_by_name_spec:
  assumes "tm_reach n m"
  shows "(0 \<le> n \<and> n < 2 ^ 31 \<longrightarrow> length (m_threads m) \<le> nat n) \<and>
    (case joinThreadByName ended name m of
       Returns m' \<Rightarrow> thread_names m' = remove1 name (thread_names m) \<and>
         (name \<in> set (thread_names m) \<longrightarrow>
            (\<exists>e t. List.find (\<lambda>e. tm_name e = name) (m_threads m) = Some e \<and> tm_thread e = Some t \<and> ended t))
     | Deadlocks \<Rightarrow>
         (\<exists>e t. List.find (\<lambda>e. tm_name e = name) (m_threads m) = Some e \<and> tm_thread e = Some t \<and> \<not> ended t)
     | Waits \<Rightarrow> False)"
proof -
  have inv: "tm_inv n m" by (rule tm_reach_inv [OF assms])
  then have some: "\<forall>e \<in> set (m_threads m). tm_thread e \<noteq> None" by (simp add: tm_inv_def)
  show ?thesis
  proof (cases "find_thread name m < length (m_threads m)")
    case True
    then obtain ys e zs where s: "m_threads m = ys @ e # zs" "tm_name e = name"
      "\<forall>y \<in> set ys. tm_name y \<noteq> name" "find_thread name m = length ys"
      unfolding find_thread_def by (rule find_if_split)
    then have f: "List.find (\<lambda>e. tm_name e = name) (m_threads m) = Some e"
      by (auto simp: find_Some_iff nth_append intro!: exI [of _ "length ys"])
    from some s(1) obtain t where t: "tm_thread e = Some t" by auto
    show ?thesis
    proof (cases "ended t")
      case True
      then have "joinThreadByName ended name m = Returns (joined_by_name name m)"
        using joinThreadByName_eq [OF some, of ended name] s t by (simp add: joined_by_name_def)
      with True f t inv show ?thesis by (auto simp: tm.names_delete tm_inv_def)
    next
      case False
      with f t inv show ?thesis using joinThreadByName_eq [OF some, of ended name] s
        by (auto simp: tm_inv_def)
    qed
  next
    case False
    then have e: "find_thread name m = length (m_threads m)"
      unfolding find_thread_def using find_if_le le_neq_implies_less by blast
    then have absent: "name \<notin> set (thread_names m)"
      unfolding find_thread_def find_if_end_iff thread_names_def by auto
    have "joinThreadByName ended name m = Returns m"
      using joinThreadByName_eq [OF some, of ended name] e by simp
    with inv absent show ?thesis by (auto simp: remove1_idem tm_inv_def)
  qed
qed

definition one_thread :: thread_manager where
  "one_thread = \<lparr>m_threads = [\<lparr>tm_thread = Some 3, tm_name = ''expose'', tm_sleeping = False\<rparr>],
     m_stopFlag = False, m_maxThreads = 10\<rparr>"

lemma one_thread_reach: "tm_reach 10 one_thread"
proof (rule tm_call [OF tm_new])
  show "tm_do (\<lambda>_. False) (AddThread 3 ''expose'') (ThreadManager 10) = Returns one_thread"
    by (simp add: tm_do_def addThread_def has_room_def ThreadManager_def one_thread_def)
qed

lemma join_by_name_spec_witness:
  "length (m_threads one_thread) \<le> 10 \<and> joinThreadByName (\<lambda>_. False) ''expose'' one_thread = Deadlocks"
  using join_by_name_spec [OF one_thread_reach]
  by (simp add: one_thread_def joinThreadByName_def joinThread_def find_thread_def)

text \<open>The manager cannot be shut down. Its destructor locks the mutex and calls \<open>joinAllThreads\<close>, which
  locks it again: it never returns, from any state. \<open>joinAllThreads\<close> itself waits until there is no
  thread left to join, so no call of it that returns ever joins one. While there is room, threads
  are added; at the limit a call sleeps.\<close>

theorem manager_never_shuts_down:
  "destroy m = Deadlocks \<and>
   (joinAllThreads False m = Returns m' \<longleftrightarrow> m_threads m = [] \<and> m' = m) \<and>
   (m_threads m \<noteq> [] \<longleftrightarrow> joinAllThreads False m = Waits) \<and>
   (\<not> m_stopFlag m \<longrightarrow>
      (addThread t name m = Waits \<longleftrightarrow> \<not> (of_nat (length (m_threads m)) :: size_t) < of_int (m_maxThreads m)))"
  by (auto simp: destroy_def joinAllThreads_def addThread_def has_room_def)

lemma manager_never_shuts_down_witness:
  "destroy one_thread = Deadlocks \<and> addThread 4 ''focus'' (one_thread\<lparr>m_maxThreads := 1\<rparr>) = Waits"
  using manager_never_shuts_down [where m = one_thread]
    manager_never_shuts_down [where m = "one_thread\<lparr>m_maxThreads := 1\<rparr>" and t = 4 and name = "''focus''"]
  by (simp add: one_thread_def)

end
