(* ===== verification/Achievements.thy ===== *)
theory Achievements
  imports Registry Json
begin

text \<open>
  Achievements and their list (\<open>src/src/components/config/achievement.cpp\<close> and
  \<open>achievement_list.cpp\<close>). The list holds shared pointers: an address stands for an object, and the
  callers keep the pointers they pass. \<open>parse\<close> and \<open>dump\<close> are the parser and the printer of the
  JSON library; the printer has printed some text when it throws. \<open>writable\<close> says whether the file
  can be opened for writing.
\<close>

section \<open>Achievements\<close>

record achievement =
  m_name :: string
  m_description :: string
  m_isCompleted :: bool

definition Achievement :: "string \<Rightarrow> string \<Rightarrow> achievement" where
  "Achievement name description = \<lparr>m_name = name, m_description = description, m_isCompleted = False\<rparr>"

definition markAsCompleted :: "achievement \<Rightarrow> achievement" where
  "markAsCompleted a = a\<lparr>m_isCompleted := True\<rparr>"

definition to_json :: "achievement \<Rightarrow> json result" where
  "to_json a =
     rbind (j_put ''name'' (JStr (m_name a)) JNull) (\<lambda>j.
     rbind (j_put ''description'' (JStr (m_description a)) j) (\<lambda>j.
     j_put ''isCompleted'' (JBool (m_isCompleted a)) j))"

definition from_json :: "json \<Rightarrow> achievement result" where
  "from_json j =
     rbind (rbind (j_at ''name'' j) j_get_string) (\<lambda>name.
     rbind (rbind (j_at ''description'' j) j_get_string) (\<lambda>description.
     rbind (rbind (j_at ''isCompleted'' j) j_get_bool) (\<lambda>isCompleted.
     let achievement = Achievement name description in
     Inr (if isCompleted then markAsCompleted achievement else achievement))))"

section \<open>The list and its file\<close>

record achievement_list =
  m_achievements :: "nat list"
  objects :: "nat \<Rightarrow> achievement"
  fresh :: nat
  file_text :: "string option"

definition make_shared :: "achievement \<Rightarrow> achievement_list \<Rightarrow> achievement_list \<times> nat" where
  "make_shared a s = (s\<lparr>objects := (objects s)(fresh s := a), fresh := Suc (fresh s)\<rparr>, fresh s)"

fun emplace_back :: "json \<Rightarrow> json \<Rightarrow> json result" where
  "emplace_back v JNull = Inr (JArr [v])"
| "emplace_back v (JArr xs) = Inr (JArr (xs @ [v]))"
| "emplace_back v _ = Inl (Throw ''type_error.311'')"

fun emplace_all :: "achievement list \<Rightarrow> json \<Rightarrow> json result" where
  "emplace_all [] j = Inr j"
| "emplace_all (a # as) j = rbind (to_json a) (\<lambda>v. rbind (emplace_back v j) (emplace_all as))"

type_synonym printer = "json \<Rightarrow> string \<times> cpp_error option"

definition writeToFile :: "printer \<Rightarrow> bool \<Rightarrow> achievement_list \<Rightarrow> achievement_list \<times> cpp_error option" where
  "writeToFile dump writable s = (case emplace_all (map (objects s) (m_achievements s)) JNull of
     Inl e \<Rightarrow> (s, Some e)
   | Inr j \<Rightarrow>
       if \<not> writable then (s, None)
       else (case dump j of
           (out, None) \<Rightarrow> (s\<lparr>file_text := Some (out @ [CHR 0x0A])\<rparr>, None)
         | (out, Some e) \<Rightarrow> (s\<lparr>file_text := Some out\<rparr>, Some e)))"

fun transform :: "json list \<Rightarrow> achievement_list \<Rightarrow> achievement_list result" where
  "transform [] s = Inr s"
| "transform (j # js) s = rbind (from_json j) (\<lambda>a.
     let (s', p) = make_shared a s in
     transform js (s'\<lparr>m_achievements := m_achievements s' @ [p]\<rparr>))"

definition readFromFile :: "(string \<Rightarrow> json option) \<Rightarrow> achievement_list \<Rightarrow> achievement_list result" where
  "readFromFile parse s = (case file_text s of
     None \<Rightarrow> Inl (Throw ''Failed to open file.'')
   | Some contents \<Rightarrow> (case parse contents of
         None \<Rightarrow> Inl (Throw ''Failed to parse JSON file.'')
       | Some j \<Rightarrow> transform (j_elems j) s))"

text \<open>The constructor, among the objects the program has already.\<close>

definition AchievementList :: "(string \<Rightarrow> json option) \<Rightarrow> achievement_list \<Rightarrow> achievement_list result" where
  "AchievementList parse s = readFromFile parse (s\<lparr>m_achievements := []\<rparr>)"

section \<open>Operations\<close>

definition addAchievement ::
    "printer \<Rightarrow> bool \<Rightarrow> nat option \<Rightarrow> achievement_list \<Rightarrow> achievement_list \<times> cpp_error option" where
  "addAchievement dump writable achievement s = (case achievement of
     None \<Rightarrow> (s, Some NullDeref)
   | Some p \<Rightarrow> writeToFile dump writable (s\<lparr>m_achievements := m_achievements s @ [p]\<rparr>))"

definition named :: "achievement_list \<Rightarrow> string \<Rightarrow> nat \<Rightarrow> bool" where
  "named s name p \<longleftrightarrow> m_name (objects s p) = name"

definition removeAchievementByName ::
    "printer \<Rightarrow> bool \<Rightarrow> string \<Rightarrow> achievement_list \<Rightarrow> achievement_list \<times> cpp_error option" where
  "removeAchievementByName dump writable name s =
     (let it = find_if (named s name) (m_achievements s) in
      if it \<noteq> length (m_achievements s) then
        writeToFile dump writable (s\<lparr>m_achievements := erase_at it (m_achievements s)\<rparr>)
      else (s, None))"

definition modifyAchievementByName ::
    "printer \<Rightarrow> bool \<Rightarrow> string \<Rightarrow> nat option \<Rightarrow> achievement_list \<Rightarrow> achievement_list \<times> cpp_error option" where
  "modifyAchievementByName dump writable name achievement s =
     (let it = find_if (named s name) (m_achievements s) in
      if it \<noteq> length (m_achievements s) then
        (case achievement of
           None \<Rightarrow> (s, Some NullDeref)
         | Some p \<Rightarrow> writeToFile dump writable (s\<lparr>m_achievements := (m_achievements s)[it := p]\<rparr>))
      else (s, None))"

definition hasAchievement :: "string \<Rightarrow> achievement_list \<Rightarrow> bool" where
  "hasAchievement name s \<longleftrightarrow> find_if (named s name) (m_achievements s) \<noteq> length (m_achievements s)"

definition mark :: "nat \<Rightarrow> achievement_list \<Rightarrow> achievement_list" where
  "mark p s = s\<lparr>objects := (objects s)(p := markAsCompleted (objects s p))\<rparr>"

definition completeAchievementByName ::
    "printer \<Rightarrow> bool \<Rightarrow> string \<Rightarrow> achievement_list \<Rightarrow> achievement_list \<times> cpp_error option" where
  "completeAchievementByName dump writable name s =
     (let it = find_if (named s name) (m_achievements s) in
      if it \<noteq> length (m_achievements s) then writeToFile dump writable (mark (m_achievements s ! it) s)
      else (s, None))"

text \<open>The lines \<open>printAchievements\<close> logs.\<close>

definition printAchievements :: "achievement_list \<Rightarrow> (string \<times> string \<times> string) list" where
  "printAchievements s = map (\<lambda>p. let a = objects s p in
     (m_name a, m_description a, if m_isCompleted a then ''Completed'' else ''Incomplete'')) (m_achievements s)"

section \<open>Calls in sequence\<close>

text \<open>\<open>NewObject\<close> is a caller that makes an object of its own.\<close>

datatype al_call =
    NewObject achievement
  | AddAchievement "nat option"
  | RemoveByName string
  | ModifyByName string "nat option"
  | CompleteByName string

fun al_do :: "printer \<Rightarrow> bool \<Rightarrow> al_call \<Rightarrow> achievement_list \<Rightarrow> achievement_list \<times> cpp_error option" where
  "al_do dump writable (NewObject a) s = (fst (make_shared a s), None)"
| "al_do dump writable (AddAchievement p) s = addAchievement dump writable p s"
| "al_do dump writable (RemoveByName n) s = removeAchievementByName dump writable n s"
| "al_do dump writable (ModifyByName n p) s = modifyAchievementByName dump writable n p s"
| "al_do dump writable (CompleteByName n) s = completeAchievementByName dump writable n s"

text \<open>Calls that return, with a file that can be written; a pointer leads to an object there is.\<close>

fun pointer_of :: "al_call \<Rightarrow> nat option" where
  "pointer_of (AddAchievement p) = p"
| "pointer_of (ModifyByName n p) = p"
| "pointer_of _ = None"

inductive al_run :: "printer \<Rightarrow> achievement_list \<Rightarrow> achievement_list \<Rightarrow> bool" for dump s where
  al_start: "al_run dump s s"
| al_more: "al_run dump s s' \<Longrightarrow> pred_option (\<lambda>p. p < fresh s') (pointer_of c) \<Longrightarrow>
    al_do dump True c s' = (s'', None) \<Longrightarrow> al_run dump s s''"

section \<open>Lemmas\<close>

definition contents_of :: "achievement_list \<Rightarrow> achievement list" where
  "contents_of s = map (objects s) (m_achievements s)"

definition json_of :: "achievement \<Rightarrow> json" where
  "json_of a = JObj [(''description'', JStr (m_description a)), (''isCompleted'', JBool (m_isCompleted a)),
     (''name'', JStr (m_name a))]"

lemma key_order: "''description'' < ''name''" "''description'' < ''isCompleted''" "''isCompleted'' < ''name''"
  by code_simp+

lemma to_json_eq: "to_json a = Inr (json_of a)"
  using key_order by (auto simp: to_json_def json_of_def)

lemma from_json_json_of [simp]: "from_json (json_of a) = Inr a"
  by (cases a) (simp add: from_json_def json_of_def Achievement_def markAsCompleted_def Let_def)

lemma wf_json_of: "wf_json (json_of a)"
  using key_order by (simp add: json_of_def)

definition whole :: "achievement list \<Rightarrow> json" where
  "whole as = (if as = [] then JNull else JArr (map json_of as))"

lemma emplace_all_arr: "emplace_all as (JArr xs) = Inr (JArr (xs @ map json_of as))"
  by (induction as arbitrary: xs) (simp_all add: to_json_eq)

lemma emplace_all_whole: "emplace_all as JNull = Inr (whole as)"
  by (cases as) (simp_all add: to_json_eq emplace_all_arr whole_def)

lemma wf_json_whole: "wf_json (whole as)"
  by (auto simp: whole_def list_all_iff wf_json_of)

definition reads :: "json list \<Rightarrow> achievement list \<Rightarrow> bool" where
  "reads = list_all2 (\<lambda>j a. from_json j = Inr a)"

lemma reads_whole: "reads (j_elems (whole as)) as"
  by (auto simp: reads_def whole_def list_all2_map1 list_all2_same)

text \<open>Pointers lead to objects, and reading the file gives the list.\<close>

definition al_inv :: "(string \<Rightarrow> json option) \<Rightarrow> achievement_list \<Rightarrow> bool" where
  "al_inv parse s \<longleftrightarrow> (\<forall>p \<in> set (m_achievements s). p < fresh s) \<and>
     (\<exists>contents j. file_text s = Some contents \<and> parse contents = Some j \<and> reads (j_elems j) (contents_of s))"

lemma transform_reads:
  assumes "reads js as" "\<forall>p \<in> set (m_achievements s). p < fresh s"
  shows "\<exists>s'. transform js s = Inr s' \<and> contents_of s' = contents_of s @ as \<and> fresh s \<le> fresh s' \<and>
    m_achievements s' = m_achievements s @ [fresh s..<fresh s'] \<and> file_text s' = file_text s"
  using assms unfolding reads_def
proof (induction arbitrary: s rule: list_all2_induct)
  case (Cons j js a as)
  let ?s = "s\<lparr>objects := (objects s)(fresh s := a), fresh := Suc (fresh s),
    m_achievements := m_achievements s @ [fresh s]\<rparr>"
  have "contents_of ?s = contents_of s @ [a]" using Cons.prems by (auto simp: contents_of_def)
  moreover obtain s' where "transform js ?s = Inr s'" "contents_of s' = contents_of ?s @ as"
    "Suc (fresh s) \<le> fresh s'" "m_achievements s' = m_achievements s @ [fresh s] @ [Suc (fresh s)..<fresh s']"
    "file_text s' = file_text s"
    using Cons.IH [of ?s] Cons.prems less_SucI by auto
  ultimately show ?case using Cons.hyps(1) by (auto simp: make_shared_def upt_conv_Cons)
qed (simp add: contents_of_def)

lemma transform_Inr:
  assumes "transform js s = Inr s'"
  shows "\<exists>as. reads js as"
  using assms
proof (induction js arbitrary: s)
  case Nil
  then show ?case by (auto simp: reads_def)
next
  case (Cons j js)
  from Cons.prems obtain a s'' where "from_json j = Inr a" "transform js s'' = Inr s'"
    by (auto simp: rbind_Inr_iff make_shared_def)
  with Cons.IH obtain as where "reads (j # js) (a # as)" unfolding reads_def by blast
  then show ?case by blast
qed

lemma AchievementList_inv:
  assumes "AchievementList parse s = Inr s'"
  shows "al_inv parse s' \<and> distinct (m_achievements s')"
proof -
  from assms obtain contents j where t: "file_text s = Some contents" "parse contents = Some j"
    and tr: "transform (j_elems j) (s\<lparr>m_achievements := []\<rparr>) = Inr s'"
    by (auto simp: AchievementList_def readFromFile_def split: option.splits)
  obtain as where as: "reads (j_elems j) as" using transform_Inr [OF tr] by blast
  from transform_reads [OF this, of "s\<lparr>m_achievements := []\<rparr>"] tr t as show ?thesis
    by (auto simp: al_inv_def contents_of_def)
qed

lemma al_inv_reload:
  assumes "al_inv parse s"
  shows "\<exists>s'. AchievementList parse s = Inr s' \<and> contents_of s' = contents_of s"
proof -
  from assms obtain contents j where t: "file_text s = Some contents" "parse contents = Some j"
    and r: "reads (j_elems j) (contents_of s)" by (auto simp: al_inv_def)
  from transform_reads [OF r, of "s\<lparr>m_achievements := []\<rparr>"] t show ?thesis
    by (auto simp: AchievementList_def readFromFile_def contents_of_def)
qed

lemma writeToFile_frame:
  assumes "writeToFile dump writable s = (s', e)"
  shows "m_achievements s' = m_achievements s \<and> objects s' = objects s \<and> fresh s' = fresh s"
  using assms by (auto simp: writeToFile_def split: sum.splits if_splits prod.splits option.splits)

lemma writeToFile_sync:
  assumes "writeToFile dump True s = (s', None)" "\<forall>p \<in> set (m_achievements s). p < fresh s"
    and "\<forall>j out. wf_json j \<and> dump j = (out, None) \<longrightarrow> parse (out @ [CHR 0x0A]) = Some j"
  shows "al_inv parse s'"
proof -
  from assms(1) obtain out where o: "dump (whole (contents_of s)) = (out, None)"
    "s' = s\<lparr>file_text := Some (out @ [CHR 0x0A])\<rparr>"
    by (auto simp: writeToFile_def emplace_all_whole contents_of_def split: prod.splits option.splits)
  with assms(3) wf_json_whole have "parse (out @ [CHR 0x0A]) = Some (whole (contents_of s))" by blast
  with o(2) assms(2) reads_whole [of "contents_of s"] show ?thesis
    by (auto simp: al_inv_def contents_of_def)
qed

lemma al_do_inv:
  assumes "al_inv parse s" "pred_option (\<lambda>p. p < fresh s) (pointer_of c)" "al_do dump True c s = (s', None)"
    and "\<forall>j out. wf_json j \<and> dump j = (out, None) \<longrightarrow> parse (out @ [CHR 0x0A]) = Some j"
  shows "al_inv parse s'"
proof -
  have old: "\<forall>p \<in> set (m_achievements s). p < fresh s" using assms(1) by (simp add: al_inv_def)
  show ?thesis
  proof (cases c)
    case (NewObject a)
    then have s': "s' = fst (make_shared a s)" using assms(3) by simp
    have "contents_of s' = contents_of s" using old by (auto simp: s' contents_of_def make_shared_def)
    with assms(1) show ?thesis by (auto simp: s' al_inv_def make_shared_def)
  next
    case (AddAchievement p)
    then obtain q where "p = Some q" "q < fresh s"
      "writeToFile dump True (s\<lparr>m_achievements := m_achievements s @ [q]\<rparr>) = (s', None)"
      using assms(2,3) by (cases p) (auto simp: addAchievement_def)
    with writeToFile_sync [OF _ _ assms(4)] old show ?thesis by auto
  next
    case (RemoveByName n)
    with assms(1,3) writeToFile_sync [OF _ _ assms(4), of _ s'] old
      set_erase_at_subset [of _ "m_achievements s"] show ?thesis
      by (force simp: removeAchievementByName_def Let_def split: if_splits)
  next
    case (ModifyByName n p)
    with assms(1-3) writeToFile_sync [OF _ _ assms(4), of _ s'] old
      set_update_subset_insert [of "m_achievements s"] show ?thesis
      by (fastforce simp: modifyAchievementByName_def Let_def split: if_splits option.splits)
  next
    case (CompleteByName n)
    with assms(1,3) writeToFile_sync [OF _ _ assms(4), of _ s'] old show ?thesis
      by (force simp: completeAchievementByName_def mark_def Let_def split: if_splits)
  qed
qed

lemma al_run_inv:
  assumes "al_run dump s s'" "al_inv parse s"
    and "\<forall>j out. wf_json j \<and> dump j = (out, None) \<longrightarrow> parse (out @ [CHR 0x0A]) = Some j"
  shows "al_inv parse s'"
  using assms(1)
proof (induction rule: al_run.induct)
  case (al_more s' c s'')
  then show ?case using al_do_inv [OF _ _ _ assms(3)] by blast
qed (rule assms(2))

definition achievement_names :: "achievement_list \<Rightarrow> string list" where
  "achievement_names s = map m_name (contents_of s)"

definition removed :: "printer \<Rightarrow> bool \<Rightarrow> string \<Rightarrow> achievement_list \<Rightarrow> achievement_list" where
  "removed dump writable n s = fst (removeAchievementByName dump writable n s)"

definition added :: "printer \<Rightarrow> bool \<Rightarrow> nat \<Rightarrow> achievement_list \<Rightarrow> achievement_list" where
  "added dump writable p s = fst (addAchievement dump writable (Some p) s)"

lemma written [simp]:
  "m_achievements (fst (writeToFile dump writable s)) = m_achievements s"
  "objects (fst (writeToFile dump writable s)) = objects s"
  using writeToFile_frame [of dump writable s "fst (writeToFile dump writable s)" "snd (writeToFile dump writable s)"]
  by simp_all

lemma contents_of_written [simp]: "contents_of (fst (writeToFile dump writable s)) = contents_of s"
  by (simp add: contents_of_def)

interpretation ac: named_registry achievement_names "removed dump writable" "added dump writable"
    "\<lambda>s p. m_name (objects s p)" for dump writable
proof unfold_locales
  fix n s x y
  show "achievement_names (removed dump writable n s) = remove1 n (achievement_names s)"
    using map_erase_find_if [of "\<lambda>p. m_name (objects s p)" n "m_achievements s"]
    by (auto simp: removed_def removeAchievementByName_def Let_def named_def [abs_def] achievement_names_def
        contents_of_def comp_def)
  show "achievement_names (added dump writable x s) = achievement_names s @ [m_name (objects s x)]"
    by (simp add: added_def addAchievement_def achievement_names_def) (simp add: contents_of_def)
  show "m_name (objects (added dump writable y s) x) = m_name (objects s x)"
    by (simp add: added_def addAchievement_def)
qed

lemma hasAchievement_names: "hasAchievement n s \<longleftrightarrow> n \<in> set (achievement_names s)"
  using find_if_end_iff [of "named s n" "m_achievements s"]
  by (auto simp: hasAchievement_def achievement_names_def contents_of_def named_def)

section \<open>Properties\<close>


text \<open>A printer and a parser that know two values.\<close>

definition comet :: achievement where
  "comet = Achievement ''Comet'' ''C/2023 A3''"

definition small_dump :: printer where
  "small_dump j =
     (if j = JArr [json_of comet] then (''[0]'', None)
      else if j = JArr [json_of (markAsCompleted comet)] then (''[1]'', None)
      else ([], Some (Throw ''type_error.316'')))"

definition small_parse :: "string \<Rightarrow> json option" where
  "small_parse t =
     (if t = ''[0]'' @ [CHR 0x0A] then Some (JArr [json_of comet])
      else if t = ''[1]'' @ [CHR 0x0A] then Some (JArr [json_of (markAsCompleted comet)])
      else None)"

definition comet_list :: achievement_list where
  "comet_list = \<lparr>m_achievements = [0], objects = (\<lambda>_. comet), fresh = 1,
     file_text = Some (''[0]'' @ [CHR 0x0A])\<rparr>"

lemma comet_read:
  "AchievementList small_parse \<lparr>m_achievements = [], objects = (\<lambda>_. comet), fresh = 0,
     file_text = Some (''[0]'' @ [CHR 0x0A])\<rparr> = Inr comet_list"
  by (simp add: AchievementList_def readFromFile_def small_parse_def make_shared_def comet_list_def fun_eq_iff)

lemma json_of_mark: "json_of (markAsCompleted comet) \<noteq> json_of comet"
  by (simp add: json_of_def markAsCompleted_def comet_def Achievement_def)

lemma comet_done: "al_do small_dump True (CompleteByName ''Comet'') comet_list =
    (comet_list\<lparr>objects := (\<lambda>_. comet)(0 := markAsCompleted comet),
      file_text := Some (''[1]'' @ [CHR 0x0A])\<rparr>, None)"
proof -
  have "named comet_list ''Comet'' 0"
    by (simp add: named_def comet_list_def comet_def Achievement_def)
  then show ?thesis using json_of_mark
    by (simp add: completeAchievementByName_def comet_list_def mark_def writeToFile_def emplace_all_whole
        whole_def small_dump_def)
qed


text \<open>The operations by name reach the first achievement of that name. Removing drops one; completing
  marks the object, at every place where the list holds it, so in a list of distinct objects (a
  list just read) only the first of the name; where no achievement has the name nothing happens, and the file
  is not written. When the printer throws, the list has changed and the file holds what was printed
  so far.\<close>

theorem achievement_by_name_spec:
  "(hasAchievement n s \<longleftrightarrow> n \<in> set (achievement_names s)) \<and>
   achievement_names (fst (removeAchievementByName dump writable n s)) = remove1 n (achievement_names s) \<and>
   (n \<notin> set (achievement_names s) \<longrightarrow> removeAchievementByName dump writable n s = (s, None) \<and>
      completeAchievementByName dump writable n s = (s, None) \<and> modifyAchievementByName dump writable n q s = (s, None)) \<and>
   (n \<in> set (achievement_names s) \<longrightarrow>
      (\<exists>i < length (m_achievements s). m_name (objects s (m_achievements s ! i)) = n \<and>
         (\<forall>j < i. m_name (objects s (m_achievements s ! j)) \<noteq> n) \<and>
         contents_of (fst (completeAchievementByName dump writable n s)) =
           map (\<lambda>p. if p = m_achievements s ! i then markAsCompleted (objects s p) else objects s p) (m_achievements s) \<and>
         (distinct (m_achievements s) \<longrightarrow> contents_of (fst (completeAchievementByName dump writable n s)) =
           (contents_of s)[i := markAsCompleted (contents_of s ! i)]))) \<and>
   (dump (whole (contents_of s @ [objects s p])) = (out, Some e) \<longrightarrow>
      addAchievement dump True (Some p) s =
        (s\<lparr>m_achievements := m_achievements s @ [p], file_text := Some out\<rparr>, Some e))"
proof (intro conjI impI, goal_cases)
  case 1
  show ?case by (rule hasAchievement_names)
next
  case 2
  show ?case using ac.names_delete [of dump writable n s] by (simp add: removed_def)
next
  case 3
  then show ?case using hasAchievement_names [of n s]
    by (simp add: hasAchievement_def removeAchievementByName_def)
next
  case 4
  then show ?case using hasAchievement_names [of n s]
    by (simp add: hasAchievement_def completeAchievementByName_def)
next
  case 5
  then show ?case using hasAchievement_names [of n s]
    by (simp add: hasAchievement_def modifyAchievementByName_def)
next
  case 6
  let ?i = "find_if (named s n) (m_achievements s)"
  let ?p = "m_achievements s ! ?i"
  let ?c = "contents_of (fst (completeAchievementByName dump writable n s))"
  from 6 have i: "?i < length (m_achievements s)"
    using hasAchievement_names [of n s] find_if_le [of "named s n" "m_achievements s"]
    by (simp add: hasAchievement_def le_less)
  then have c: "?c = map (\<lambda>p. if p = ?p then markAsCompleted (objects s p) else objects s p) (m_achievements s)"
    by (simp add: completeAchievementByName_def) (simp add: contents_of_def mark_def)
  have "?c = (contents_of s)[?i := markAsCompleted (contents_of s ! ?i)]" if "distinct (m_achievements s)"
    unfolding c using i that
    by (intro nth_equalityI) (simp_all add: contents_of_def nth_eq_iff_index_eq nth_list_update)
  with i c find_if_nth [OF i] find_if_least [of _ "named s n" "m_achievements s"] show ?case
    unfolding named_def by blast
next
  case 7
  then show ?case by (simp add: addAchievement_def writeToFile_def emplace_all_whole contents_of_def)
qed

lemma achievement_by_name_spec_witness:
  "contents_of (fst (completeAchievementByName small_dump True ''Comet'' comet_list)) = [markAsCompleted comet] \<and>
   achievement_names (fst (removeAchievementByName small_dump True ''Comet'' comet_list)) = []"
proof -
  have names: "achievement_names comet_list = [''Comet'']"
    by (simp add: achievement_names_def contents_of_def comet_list_def comet_def Achievement_def)
  then have "''Comet'' \<in> set (achievement_names comet_list)" by simp
  from achievement_by_name_spec [where n = "''Comet''" and s = "comet_list" and dump = small_dump and writable = True,
      THEN conjunct2, THEN conjunct2, THEN conjunct2, THEN conjunct1, rule_format, OF this]
  have "contents_of (fst (completeAchievementByName small_dump True ''Comet'' comet_list)) =
      [markAsCompleted comet]" by (auto simp: comet_list_def)
  moreover have "achievement_names (fst (removeAchievementByName small_dump True ''Comet'' comet_list)) = []"
    using achievement_by_name_spec [where n = "''Comet''" and s = "comet_list" and dump = small_dump and writable = True,
      THEN conjunct2, THEN conjunct1] names by simp
  ultimately show ?thesis by simp
qed

end
