(* ===== verification/AptLogger.thy ===== *)
theory AptLogger
  imports Prelude "HOL-Library.Multiset"
begin

text \<open>
  The asynchronous logger of \<open>src/src/components/logger/aptlogger.cpp\<close> and \<open>aptlogger.hpp\<close> as a
  labelled step relation. A step is one critical section under \<open>queueMutex\<close>, one access to the flag,
  which is written without the mutex, or one write of the background thread. \<open>Decided\<close> is the moment
  inside \<open>queueCondVar.wait\<close> at which the predicate was false and the thread, still holding the mutex,
  does not sleep yet. One thread at a time calls \<open>enableAsyncLogging\<close> and \<open>disableAsyncLogging\<close>.
  Texts come in as \<open>std::snprintf\<close> formats them, times as \<open>std::strftime\<close> does.
\<close>

section \<open>Levels, messages and state\<close>

datatype log_level = LevelNone | Trace | Debug | Info | Warning | Error | Critical

fun level_rank :: "log_level \<Rightarrow> nat" where
  "level_rank LevelNone = 0"
| "level_rank Trace = 1"
| "level_rank Debug = 2"
| "level_rank Info = 3"
| "level_rank Warning = 4"
| "level_rank Error = 5"
| "level_rank Critical = 6"

instantiation log_level :: linorder
begin

definition less_eq_log_level :: "log_level \<Rightarrow> log_level \<Rightarrow> bool" where
  "a \<le> b \<longleftrightarrow> level_rank a \<le> level_rank b"

definition less_log_level :: "log_level \<Rightarrow> log_level \<Rightarrow> bool" where
  "a < b \<longleftrightarrow> level_rank a < level_rank b"

instance
proof
  fix a b :: log_level
  show "a \<le> b \<Longrightarrow> b \<le> a \<Longrightarrow> a = b"
    by (cases a; cases b) (simp_all add: less_eq_log_level_def)
qed (auto simp: less_eq_log_level_def less_log_level_def)

end

fun levelToString :: "log_level \<Rightarrow> string" where
  "levelToString LevelNone = ''''"
| "levelToString Trace = ''TRACE''"
| "levelToString Debug = ''DEBUG''"
| "levelToString Info = ''INFO''"
| "levelToString Warning = ''WARNING''"
| "levelToString Error = ''ERROR''"
| "levelToString Critical = ''Critical''"

record queued =
  q_text :: string
  q_time :: string
  q_module :: string
  q_level :: log_level

datatype log_thread = NoThread | TLock | Decided | Asleep | Holding queued | Ended

datatype disabler = Idle | Notifying | Joining

text \<open>
  \<open>logFile\<close> is the file \<open>outputFileStream\<close> has open, \<open>failed\<close> its \<open>failbit\<close>, \<open>toFile\<close> whether
  \<open>outputStream\<close> points to it or to \<open>std::cout\<close>. \<open>stuck\<close> says that a caller holds the mutex and waits
  for it. The last three fields record what happened: the messages that were queued, those the thread
  is done with, and what went to which stream (\<open>None\<close> for \<open>std::cout\<close>).
\<close>

record logger =
  logFile :: "string option"
  failed :: bool
  toFile :: bool
  logQueue :: "queued list"
  currentLogLevel :: log_level
  filterLevel :: log_level
  asyncLoggingEnabled :: bool
  backgroundThread :: log_thread
  errorMessages :: "string list"
  currentModuleName :: string
  disabling :: disabler
  stuck :: bool
  aborted :: bool
  accepted :: "queued list"
  handled :: "queued list"
  printed :: "(string option \<times> string) list"

text \<open>The constructor ignores the stream it is given.\<close>

definition Logger :: "string \<Rightarrow> string \<Rightarrow> logger" where
  "Logger stream module_name =
     \<lparr>logFile = None, failed = False, toFile = False, logQueue = [], currentLogLevel = Info,
      filterLevel = LevelNone, asyncLoggingEnabled = False, backgroundThread = NoThread,
      errorMessages = [], currentModuleName = module_name, disabling = Idle, stuck = False,
      aborted = False, accepted = [], handled = [], printed = []\<rparr>"

section \<open>Operations\<close>

definition shouldLog :: "logger \<Rightarrow> log_level \<Rightarrow> bool" where
  "shouldLog s level \<longleftrightarrow> currentLogLevel s \<le> level \<and> filterLevel s \<le> level"

text \<open>The text that fits into \<open>char buffer[512]\<close>, up to the first zero byte.\<close>

definition clip :: "string \<Rightarrow> string" where
  "clip text = takeWhile (\<lambda>c. c \<noteq> CHR 0x00) (take 511 text)"

definition notify_one :: "logger \<Rightarrow> logger" where
  "notify_one s = (if backgroundThread s = Asleep then s\<lparr>backgroundThread := TLock\<rparr> else s)"

definition log_entry :: "log_level \<Rightarrow> string \<Rightarrow> string \<Rightarrow> logger \<Rightarrow> logger" where
  "log_entry level text stamp s =
     (if shouldLog s level then
        let m = \<lparr>q_text = clip text, q_time = stamp, q_module = currentModuleName s, q_level = level\<rparr>;
            s = notify_one (s\<lparr>logQueue := logQueue s @ [m], accepted := accepted s @ [m]\<rparr>)
        in if level = Error then s\<lparr>errorMessages := errorMessages s @ [clip text]\<rparr> else s
      else s)"

definition setLogLevel :: "log_level \<Rightarrow> logger \<Rightarrow> logger" where
  "setLogLevel level s = s\<lparr>currentLogLevel := level\<rparr>"

definition setFilterLevel :: "log_level \<Rightarrow> logger \<Rightarrow> logger" where
  "setFilterLevel level s = s\<lparr>filterLevel := level\<rparr>"

definition setCurrentModule :: "string \<Rightarrow> logger \<Rightarrow> logger" where
  "setCurrentModule module_name s = s\<lparr>currentModuleName := module_name\<rparr>"

text \<open>
  \<open>opens\<close>: the file can be opened. Opening an \<open>ofstream\<close> that has a file open fails, sets its
  \<open>failbit\<close> and leaves the old file open. Where the file cannot be opened, \<open>logError\<close> locks the
  mutex its caller holds.
\<close>

definition setLogToFile :: "bool \<Rightarrow> string \<Rightarrow> logger \<Rightarrow> logger" where
  "setLogToFile opens filename s = (case logFile s of
     Some f \<Rightarrow> s\<lparr>failed := True, toFile := True\<rparr>
   | None \<Rightarrow>
       if opens then s\<lparr>logFile := Some filename, failed := False, toFile := True\<rparr>
       else s\<lparr>failed := True, stuck := True\<rparr>)"

text \<open>Assigning to a joinable \<open>std::thread\<close> calls \<open>std::terminate\<close>.\<close>

definition enableAsyncLogging :: "logger \<Rightarrow> logger" where
  "enableAsyncLogging s =
     (if backgroundThread s = NoThread then s\<lparr>asyncLoggingEnabled := True, backgroundThread := TLock\<rparr>
      else s\<lparr>asyncLoggingEnabled := True, aborted := True\<rparr>)"

text \<open>\<open>disableAsyncLogging\<close> up to \<open>notify_one\<close>, \<open>notify_one\<close>, and the end of \<open>join\<close>.\<close>

definition disable_clear :: "logger \<Rightarrow> logger" where
  "disable_clear s =
     (if asyncLoggingEnabled s
      then s\<lparr>asyncLoggingEnabled := False,
             disabling := (if backgroundThread s = NoThread then Idle else Notifying)\<rparr>
      else s)"

definition disable_notify :: "logger \<Rightarrow> logger" where
  "disable_notify s = (notify_one s)\<lparr>disabling := Joining\<rparr>"

definition disable_joined :: "logger \<Rightarrow> logger" where
  "disable_joined s = s\<lparr>disabling := Idle, backgroundThread := NoThread\<rparr>"

section \<open>The background thread\<close>

definition formatted :: "queued \<Rightarrow> string" where
  "formatted m =
     ''['' @ q_time m @ '']['' @ levelToString (q_level m) @ '']['' @ q_module m @ ''] '' @ q_text m @ [CHR 0x0A]"

text \<open>One evaluation of the wait's predicate with what follows under the lock.\<close>

definition thread_check :: "logger \<Rightarrow> logger" where
  "thread_check s =
     (if \<not> asyncLoggingEnabled s then s\<lparr>backgroundThread := Ended\<rparr>
      else case logQueue s of
        [] \<Rightarrow> s\<lparr>backgroundThread := Decided\<rparr>
      | m # ms \<Rightarrow> s\<lparr>logQueue := ms, backgroundThread := Holding m\<rparr>)"

text \<open>A stream whose \<open>failbit\<close> is set writes nothing.\<close>

definition thread_write :: "queued \<Rightarrow> logger \<Rightarrow> logger" where
  "thread_write m s =
     (let s = (if currentLogLevel s = Error then s\<lparr>errorMessages := errorMessages s @ [q_text m]\<rparr> else s);
          s = (if toFile s then
                 if failed s then s else s\<lparr>printed := printed s @ [(logFile s, formatted m)]\<rparr>
               else s\<lparr>printed := printed s @ [(None, formatted m)]\<rparr>)
      in s\<lparr>backgroundThread := TLock, handled := handled s @ [m]\<rparr>)"

definition free :: "logger \<Rightarrow> bool" where
  "free s \<longleftrightarrow> \<not> stuck s \<and> backgroundThread s \<noteq> Decided"

datatype log_label =
    CLog log_level string string | CLevel log_level | CFilter log_level | CModule string
  | CToFile bool string | CEnable | CClear | CNotify | CJoin | TCheck | TSleep | TWrite | TSpurious

inductive log_step :: "logger \<Rightarrow> log_label \<Rightarrow> logger \<Rightarrow> bool" where
  log_call: "\<not> aborted s \<Longrightarrow> free s \<Longrightarrow> log_step s (CLog level text stamp) (log_entry level text stamp s)"
| level_call: "\<not> aborted s \<Longrightarrow> free s \<Longrightarrow> log_step s (CLevel level) (setLogLevel level s)"
| filter_call: "\<not> aborted s \<Longrightarrow> free s \<Longrightarrow> log_step s (CFilter level) (setFilterLevel level s)"
| module_call: "\<not> aborted s \<Longrightarrow> log_step s (CModule n) (setCurrentModule n s)"
| file_call: "\<not> aborted s \<Longrightarrow> free s \<Longrightarrow> log_step s (CToFile opens f) (setLogToFile opens f s)"
| enable_call: "\<not> aborted s \<Longrightarrow> disabling s = Idle \<Longrightarrow> log_step s CEnable (enableAsyncLogging s)"
| disable_call: "\<not> aborted s \<Longrightarrow> disabling s = Idle \<Longrightarrow> log_step s CClear (disable_clear s)"
| notify_call: "\<not> aborted s \<Longrightarrow> disabling s = Notifying \<Longrightarrow> log_step s CNotify (disable_notify s)"
| join_done: "\<not> aborted s \<Longrightarrow> disabling s = Joining \<Longrightarrow> backgroundThread s = Ended \<Longrightarrow>
    log_step s CJoin (disable_joined s)"
| check: "\<not> aborted s \<Longrightarrow> backgroundThread s = TLock \<Longrightarrow> \<not> stuck s \<Longrightarrow> log_step s TCheck (thread_check s)"
| fall_asleep: "\<not> aborted s \<Longrightarrow> backgroundThread s = Decided \<Longrightarrow>
    log_step s TSleep (s\<lparr>backgroundThread := Asleep\<rparr>)"
| thread_writes: "\<not> aborted s \<Longrightarrow> backgroundThread s = Holding m \<Longrightarrow> log_step s TWrite (thread_write m s)"
| spurious: "\<not> aborted s \<Longrightarrow> backgroundThread s = Asleep \<Longrightarrow>
    log_step s TSpurious (s\<lparr>backgroundThread := TLock\<rparr>)"

inductive_cases log_stepE: "log_step s l s'"

inductive_simps sleep_simps: "log_step s TSleep s'"
inductive_simps check_simps: "log_step s TCheck s'"
inductive_simps write_simps: "log_step s TWrite s'"
inductive_simps join_simps: "log_step s CJoin s'"

inductive log_run :: "logger \<Rightarrow> log_label list \<Rightarrow> logger \<Rightarrow> bool" for s where
  log_start: "log_run s [] s"
| log_more: "log_run s ls s' \<Longrightarrow> log_step s' l s'' \<Longrightarrow> log_run s (ls @ [l]) s''"

section \<open>Files written at the end\<close>

definition getErrorLogFilename :: "string \<Rightarrow> string \<Rightarrow> string" where
  "getErrorLogFilename today extension = today @ extension"

text \<open>\<open>None\<close>: the file cannot be opened, and nothing is written.\<close>

definition writeErrorLog :: "bool \<Rightarrow> string list \<Rightarrow> string option" where
  "writeErrorLog opens msgs = (if opens then Some (concat (map (\<lambda>m. m @ [CHR 0x0A]) msgs)) else None)"

section \<open>Accounting for every message\<close>

fun in_hand :: "log_thread \<Rightarrow> queued list" where
  "in_hand (Holding m) = [m]"
| "in_hand _ = []"

lemmas logger_ops = log_entry_def notify_one_def setLogLevel_def setFilterLevel_def setCurrentModule_def
  setLogToFile_def enableAsyncLogging_def disable_clear_def disable_notify_def disable_joined_def
  thread_check_def thread_write_def Let_def

definition log_inv :: "logger \<Rightarrow> bool" where
  "log_inv s \<longleftrightarrow>
     accepted s = handled s @ in_hand (backgroundThread s) @ logQueue s \<and>
     (disabling s \<noteq> Idle \<longrightarrow> \<not> asyncLoggingEnabled s \<or> aborted s) \<and>
     (backgroundThread s = NoThread \<longrightarrow> \<not> asyncLoggingEnabled s) \<and>
     (toFile s \<longrightarrow> logFile s \<noteq> None)"

lemma log_inv_init: "log_inv (Logger stream n)"
  by (simp add: log_inv_def Logger_def)

lemma log_inv_step: "log_step s l s' \<Longrightarrow> log_inv s \<Longrightarrow> log_inv s'"
  by (induction rule: log_step.induct)
    (auto simp: log_inv_def logger_ops free_def split: option.splits list.splits)

lemma log_inv_run: "log_run s ls s' \<Longrightarrow> log_inv s \<Longrightarrow> log_inv s'"
  by (induction rule: log_run.induct) (auto dest: log_inv_step)

fun to_file :: "log_label \<Rightarrow> bool" where
  "to_file (CToFile opens f) = True"
| "to_file _ = False"

definition file_calls :: "log_label list \<Rightarrow> nat" where
  "file_calls ls = length (filter to_file ls)"

definition file_ok :: "logger \<Rightarrow> bool" where
  "file_ok s \<longleftrightarrow> map snd (printed s) = map formatted (handled s) \<and>
     (toFile s \<longrightarrow> logFile s \<noteq> None \<and> \<not> failed s)"

lemma file_ok_step:
  assumes "log_step s l s'" "file_ok s" "to_file l \<Longrightarrow> logFile s = None"
  shows "file_ok s' \<and> (\<not> to_file l \<longrightarrow> logFile s' = logFile s)"
  using assms by (induction rule: log_step.induct)
    (auto simp: file_ok_def logger_ops split: option.splits list.splits)

lemma file_ok_run:
  assumes "log_run (Logger stream n) ls s" "file_calls ls \<le> 1"
  shows "file_ok s \<and> (file_calls ls = 0 \<longrightarrow> logFile s = None)"
  using assms
proof (induction rule: log_run.induct)
  case log_start
  then show ?case by (simp add: file_ok_def Logger_def)
next
  case (log_more ls s' l s'')
  then show ?case using file_ok_step [of s' l s''] by (cases "to_file l") (auto simp: file_calls_def)
qed

text \<open>Once a second file was asked for, nothing is printed any more.\<close>

lemma failed_step:
  assumes "log_step s l s'" "logFile s \<noteq> None" "toFile s" "failed s"
  shows "printed s' = printed s \<and> logFile s' \<noteq> None \<and> toFile s' \<and> failed s'"
  using assms by (induction rule: log_step.induct)
    (auto simp: logger_ops split: option.splits list.splits)

lemma failed_run:
  assumes "log_run s ls s'" "logFile s \<noteq> None" "toFile s" "failed s"
  shows "printed s' = printed s \<and> logFile s' \<noteq> None \<and> toFile s' \<and> failed s'"
  using assms
proof (induction rule: log_run.induct)
  case (log_more ls s' l s'')
  then show ?case using failed_step [of s' l s''] by simp
qed simp

lemma reopen_fails:
  assumes "log_step s (CToFile opens f) s'" "logFile s \<noteq> None"
  shows "printed s' = printed s \<and> logFile s' \<noteq> None \<and> toFile s' \<and> failed s'"
  using assms by (auto elim!: log_stepE simp: setLogToFile_def)

section \<open>Switching the thread off\<close>

lemma off_step:
  assumes "log_step s l s'" "\<not> asyncLoggingEnabled s" "l \<noteq> CEnable"
  shows "\<not> asyncLoggingEnabled s' \<and>
    handled s' @ in_hand (backgroundThread s') = handled s @ in_hand (backgroundThread s)"
  using assms by (induction rule: log_step.induct)
    (auto simp: logger_ops split: option.splits list.splits)

lemma off_run:
  assumes "log_run s ls s'" "\<not> asyncLoggingEnabled s" "CEnable \<notin> set ls"
  shows "\<not> asyncLoggingEnabled s' \<and>
    handled s' @ in_hand (backgroundThread s') = handled s @ in_hand (backgroundThread s)"
  using assms
proof (induction rule: log_run.induct)
  case (log_more ls s' l s'')
  then show ?case using off_step [of s' l s''] by auto
qed simp

text \<open>The thread's own steps that are left once the flag is cleared.\<close>

fun left_over :: "log_thread \<Rightarrow> nat" where
  "left_over (Holding m) = 2"
| "left_over TLock = 1"
| "left_over _ = 0"

fun own :: "log_label \<Rightarrow> bool" where
  "own TCheck = True"
| "own TWrite = True"
| "own _ = False"

definition winding_down :: "logger \<Rightarrow> bool" where
  "winding_down s \<longleftrightarrow> \<not> asyncLoggingEnabled s \<and> \<not> aborted s \<and> disabling s = Joining \<and>
     backgroundThread s \<in> range Holding \<union> {TLock, Ended}"

lemma winding_down_step:
  assumes "log_step s l s'" "winding_down s" "l \<noteq> CJoin"
  shows "winding_down s' \<and>
    left_over (backgroundThread s') + (if own l then 1 else 0) \<le> left_over (backgroundThread s)"
  using assms by (induction rule: log_step.induct)
    (auto simp: logger_ops winding_down_def split: option.splits list.splits)

lemma winding_down_run:
  assumes "log_run s ls s'" "winding_down s" "CJoin \<notin> set ls"
  shows "winding_down s' \<and>
    left_over (backgroundThread s') + length (filter own ls) \<le> left_over (backgroundThread s)"
  using assms
proof (induction rule: log_run.induct)
  case (log_more ls s' l s'')
  then show ?case using winding_down_step [of s' l s''] by auto
qed simp

lemma winding_down_progress:
  assumes "winding_down s" "\<not> stuck s"
  shows "\<exists>l s'. log_step s l s' \<and> (own l \<or> l = CJoin)"
proof -
  consider m where "backgroundThread s = Holding m" | "backgroundThread s = TLock" | "backgroundThread s = Ended"
    using assms(1) by (auto simp: winding_down_def)
  then show ?thesis
  proof cases
    case 1
    with assms have "log_step s TWrite (thread_write m s)"
      by (intro log_step.thread_writes) (auto simp: winding_down_def)
    then show ?thesis by (intro exI [of _ TWrite] exI) auto
  next
    case 2
    with assms have "log_step s TCheck (thread_check s)"
      by (intro log_step.check) (auto simp: winding_down_def)
    then show ?thesis by (intro exI [of _ TCheck] exI) auto
  next
    case 3
    with assms have "log_step s CJoin (disable_joined s)"
      by (intro log_step.join_done) (auto simp: winding_down_def)
    then show ?thesis by (intro exI [of _ CJoin] exI) auto
  qed
qed

fun is_log :: "log_label \<Rightarrow> bool" where
  "is_log (CLog level text stamp) = True"
| "is_log _ = False"

definition wakes :: "log_label \<Rightarrow> bool" where
  "wakes l \<longleftrightarrow> is_log l \<or> l = TSpurious"

lemma lost_step:
  assumes "log_step s l s'" "disabling s = Joining" "backgroundThread s = Asleep" "\<not> wakes l"
  shows "disabling s' = Joining \<and> backgroundThread s' = Asleep"
  using assms by (induction rule: log_step.induct) (auto simp: logger_ops wakes_def split: option.splits)

lemma lost_run:
  assumes "log_run s ls s'" "disabling s = Joining" "backgroundThread s = Asleep" "\<forall>l \<in> set ls. \<not> wakes l"
  shows "disabling s' = Joining \<and> backgroundThread s' = Asleep"
  using assms
proof (induction rule: log_run.induct)
  case (log_more ls s' l s'')
  then show ?case using lost_step [of s' l s''] by auto
qed simp

lemma stuck_step:
  assumes "log_step s l s'" "stuck s"
  shows "stuck s' \<and> accepted s' = accepted s"
  using assms by (induction rule: log_step.induct)
    (auto simp: logger_ops free_def split: option.splits list.splits)

lemma stuck_run:
  assumes "log_run s ls s'" "stuck s"
  shows "stuck s' \<and> accepted s' = accepted s"
  using assms
proof (induction rule: log_run.induct)
  case (log_more ls s' l s'')
  then show ?case using stuck_step [of s' l s''] by simp
qed simp

section \<open>The steps as a function\<close>

text \<open>A label determines the next state, so a run is computed from its labels.\<close>

definition guarded :: "bool \<Rightarrow> 'a \<Rightarrow> 'a option" where
  "guarded b x = (if b then Some x else None)"

fun log_next :: "log_label \<Rightarrow> logger \<Rightarrow> logger option" where
  "log_next (CLog level text stamp) s = guarded (free s) (log_entry level text stamp s)"
| "log_next (CLevel level) s = guarded (free s) (setLogLevel level s)"
| "log_next (CFilter level) s = guarded (free s) (setFilterLevel level s)"
| "log_next (CModule n) s = Some (setCurrentModule n s)"
| "log_next (CToFile opens f) s = guarded (free s) (setLogToFile opens f s)"
| "log_next CEnable s = guarded (disabling s = Idle) (enableAsyncLogging s)"
| "log_next CClear s = guarded (disabling s = Idle) (disable_clear s)"
| "log_next CNotify s = guarded (disabling s = Notifying) (disable_notify s)"
| "log_next CJoin s = guarded (disabling s = Joining \<and> backgroundThread s = Ended) (disable_joined s)"
| "log_next TCheck s = guarded (backgroundThread s = TLock \<and> \<not> stuck s) (thread_check s)"
| "log_next TSleep s = guarded (backgroundThread s = Decided) (s\<lparr>backgroundThread := Asleep\<rparr>)"
| "log_next TWrite s = (case backgroundThread s of Holding m \<Rightarrow> Some (thread_write m s) | _ \<Rightarrow> None)"
| "log_next TSpurious s = guarded (backgroundThread s = Asleep) (s\<lparr>backgroundThread := TLock\<rparr>)"

lemma log_step_next: "log_step s l s' \<longleftrightarrow> \<not> aborted s \<and> log_next l s = Some s'"
proof
  show "log_step s l s' \<Longrightarrow> \<not> aborted s \<and> log_next l s = Some s'"
    by (induction rule: log_step.induct) (simp_all add: guarded_def)
  show "\<not> aborted s \<and> log_next l s = Some s' \<Longrightarrow> log_step s l s'"
    by (cases l) (auto simp: guarded_def intro: log_step.intros split: if_splits log_thread.splits)
qed

fun log_exec :: "log_label list \<Rightarrow> logger \<Rightarrow> logger option" where
  "log_exec [] s = Some s"
| "log_exec (l # ls) s = (if aborted s then None else Option.bind (log_next l s) (log_exec ls))"

lemma log_run_Cons: "log_step s l s' \<Longrightarrow> log_run s' ls s'' \<Longrightarrow> log_run s (l # ls) s''"
proof (rotate_tac, induction rule: log_run.induct)
  case log_start
  then show ?case using log_run.intros [of s] by force
next
  case (log_more ls s' l' s'')
  then have "log_run s ((l # ls) @ [l']) s''" by (intro log_run.log_more) auto
  then show ?case by simp
qed

lemma log_exec_run: "log_exec ls s = Some s' \<Longrightarrow> log_run s ls s'"
proof (induction ls arbitrary: s)
  case Nil
  then show ?case by (simp add: log_start)
next
  case (Cons l ls)
  then show ?case by (auto simp: log_step_next split: if_splits bind_splits intro!: log_run_Cons)
qed

definition after :: "log_label list \<Rightarrow> logger \<Rightarrow> (logger \<Rightarrow> bool) \<Rightarrow> bool" where
  "after ls s P \<longleftrightarrow> (case log_exec ls s of None \<Rightarrow> False | Some s' \<Rightarrow> P s')"

lemma afterE:
  assumes "after ls s P"
  obtains s' where "log_run s ls s'" "P s'"
  using assms log_exec_run by (auto simp: after_def split: option.splits)

section \<open>What the logger promises\<close>

text \<open>C10. Every message that was accepted is done with, in the thread's hands or queued, in order, over
  every interleaving; until a second log file is asked for, each message done with is printed exactly
  once, and from then on none is.\<close>

theorem logger_accounting:
  assumes "log_run (Logger stream n) ls s"
  shows "accepted s = handled s @ in_hand (backgroundThread s) @ logQueue s \<and>
    (file_calls ls \<le> 1 \<longrightarrow> map snd (printed s) = map formatted (handled s)) \<and>
    (logFile s \<noteq> None \<and> log_step s (CToFile opens f) s' \<and> log_run s' ls' s'' \<longrightarrow> printed s'' = printed s)"
proof (intro conjI impI)
  show "accepted s = handled s @ in_hand (backgroundThread s) @ logQueue s"
    using log_inv_run [OF assms log_inv_init] by (simp add: log_inv_def)
  show "map snd (printed s) = map formatted (handled s)" if "file_calls ls \<le> 1"
    using file_ok_run [OF assms that] by (simp add: file_ok_def)
  show "printed s'' = printed s"
    if "logFile s \<noteq> None \<and> log_step s (CToFile opens f) s' \<and> log_run s' ls' s''"
    using that reopen_fails [of s opens f s'] failed_run [of s' ls' s''] by auto
qed

lemma logger_accounting_witness:
  "\<exists>s. log_run (Logger ''cout'' ''Main'')
      [CEnable, CLog Info ''a'' ''t'', CToFile True ''f'', TCheck, TWrite, CLog Error ''b'' ''t''] s \<and>
    map q_text (accepted s) = [''a'', ''b''] \<and> map snd (printed s) = [''[t][INFO][Main] a'' @ [CHR 0x0A]] \<and>
    accepted s = handled s @ in_hand (backgroundThread s) @ logQueue s"
proof -
  have "after [CEnable, CLog Info ''a'' ''t'', CToFile True ''f'', TCheck, TWrite, CLog Error ''b'' ''t'']
      (Logger ''cout'' ''Main'') (\<lambda>s. map q_text (accepted s) = [''a'', ''b''] \<and>
        map snd (printed s) = [''[t][INFO][Main] a'' @ [CHR 0x0A]])"
    by code_simp
  then obtain s where 1: "log_run (Logger ''cout'' ''Main'')
      [CEnable, CLog Info ''a'' ''t'', CToFile True ''f'', TCheck, TWrite, CLog Error ''b'' ''t''] s"
    and 2: "map q_text (accepted s) = [''a'', ''b''] \<and>
      map snd (printed s) = [''[t][INFO][Main] a'' @ [CHR 0x0A]]"
    by (rule afterE)
  from 1 2 logger_accounting [OF 1, THEN conjunct1] show ?thesis
    by - (rule exI [of _ s], intro conjI, assumption, (erule conjunct1 conjunct2 | assumption)+)
qed

text \<open>Once the flag is cleared the thread finishes the message in its hands and takes no other:
  whatever is queued then is not printed before the thread is started again.\<close>

theorem disabling_drops_queue:
  assumes "log_run s ls s'" "\<not> asyncLoggingEnabled s" "CEnable \<notin> set ls"
  shows "handled s' @ in_hand (backgroundThread s') = handled s @ in_hand (backgroundThread s)"
  using off_run [OF assms] by blast

lemma disabling_drops_queue_witness:
  "\<exists>s s'. log_run (Logger ''cout'' ''Main'') [CEnable, CLog Info ''a'' ''t'', CClear] s \<and>
    log_run s [CNotify, TCheck, CJoin] s' \<and> disabling s' = Idle \<and> map q_text (logQueue s') = [''a''] \<and>
    handled s' @ in_hand (backgroundThread s') = handled s @ in_hand (backgroundThread s)"
proof -
  have "after [CEnable, CLog Info ''a'' ''t'', CClear] (Logger ''cout'' ''Main'')
      (\<lambda>s. \<not> asyncLoggingEnabled s \<and> after [CNotify, TCheck, CJoin] s
        (\<lambda>t. disabling t = Idle \<and> map q_text (logQueue t) = [''a'']))"
    by code_simp
  then obtain s where 1: "log_run (Logger ''cout'' ''Main'') [CEnable, CLog Info ''a'' ''t'', CClear] s"
      "\<not> asyncLoggingEnabled s"
      "after [CNotify, TCheck, CJoin] s (\<lambda>t. disabling t = Idle \<and> map q_text (logQueue t) = [''a''])"
    by (auto elim: afterE)
  from 1(3) obtain t where 2: "log_run s [CNotify, TCheck, CJoin] t" "disabling t = Idle"
      "map q_text (logQueue t) = [''a'']"
    by (auto elim: afterE)
  have "CEnable \<notin> set [CNotify, TCheck, CJoin]" by simp
  from disabling_drops_queue [OF 2(1) 1(2) this] 1(1) 2 show ?thesis
    by - (rule exI [of _ s], rule exI [of _ t], intro conjI; assumption)
qed



text \<open>A log file that cannot be opened blocks the caller of \<open>setLogToFile\<close> for ever, and no message
  is accepted from then on.\<close>

theorem unopenable_file_blocks:
  assumes "logFile s = None" "log_step s (CToFile False f) s'" "log_run s' ls s''"
  shows "stuck s'' \<and> accepted s'' = accepted s"
proof -
  have "stuck s' \<and> accepted s' = accepted s"
    using assms(1,2) by (auto elim!: log_stepE simp: setLogToFile_def)
  with stuck_run [OF assms(3)] show ?thesis by simp
qed

lemma unopenable_file_blocks_witness:
  "\<exists>s'. log_step (Logger ''cout'' ''Main'') (CToFile False ''/root/x'') s' \<and> log_run s' [CModule ''INDI''] (s'\<lparr>currentModuleName := ''INDI''\<rparr>) \<and>
    stuck (s'\<lparr>currentModuleName := ''INDI''\<rparr>)"
proof -
  let ?s = "setLogToFile False ''/root/x'' (Logger ''cout'' ''Main'')"
  have 1: "log_step (Logger ''cout'' ''Main'') (CToFile False ''/root/x'') ?s"
    by (rule log_step.file_call) (simp_all add: Logger_def free_def)
  have 2: "log_run ?s [CModule ''INDI''] (?s\<lparr>currentModuleName := ''INDI''\<rparr>)"
    by (rule log_exec_run) (simp add: Logger_def setLogToFile_def setCurrentModule_def)
  from unopenable_file_blocks [OF _ 1 2] 1 2 show ?thesis by (auto simp: Logger_def)
qed

end
