(* ===== verification/Regex.thy ===== *)
theory Regex
  imports Strings
begin

text \<open>
  \<open>std::regex\<close> and \<open>std::regex_match\<close> with the ECMAScript grammar as far as \<open>glob.hpp\<close> builds
  expressions: groups, alternatives, \<open>.\<close>, \<open>*\<close>, \<open>$\<close>, escapes and bracketed classes. What the standard
  library says of the other escapes (\<open>\d\<close>, \<open>\w\<close>, \<open>\x41\<close>) and of named classes (\<open>[:alpha:]\<close>) is an
  argument: the ranges of characters, or \<open>None\<close> for an error.
\<close>

section \<open>Expressions and matching\<close>

type_synonym ranges = "(char \<times> char) list"

datatype re = AnyChar | Class bool ranges | Many re | Eol | Group "re list list"

text \<open>\<open>char\<close> is signed.\<close>

definition char_value :: "char \<Rightarrow> int" where
  "char_value c = (let n = of_char c in if n < 128 then n else n - 256)"

definition in_ranges :: "ranges \<Rightarrow> char \<Rightarrow> bool" where
  "in_ranges rs c \<longleftrightarrow> (\<exists>(a, b) \<in> set rs. char_value a \<le> char_value c \<and> char_value c \<le> char_value b)"

definition line_end :: "char \<Rightarrow> bool" where
  "line_end c \<longleftrightarrow> c = CHR 0x0A \<or> c = CHR 0x0D"

definition one_char :: "(char \<Rightarrow> bool) \<Rightarrow> string \<Rightarrow> string list" where
  "one_char P s = (case s of [] \<Rightarrow> [] | c # t \<Rightarrow> if P c then [t] else [])"

text \<open>What can remain of a text after a match at its start.\<close>

function rest :: "re \<Rightarrow> string \<Rightarrow> string list"
  and rest_seq :: "re list \<Rightarrow> string \<Rightarrow> string list"
  and rest_alt :: "re list list \<Rightarrow> string \<Rightarrow> string list" where
  "rest AnyChar s = one_char (\<lambda>c. \<not> line_end c) s"
| "rest (Class neg rs) s = one_char (\<lambda>c. in_ranges rs c \<noteq> neg) s"
| "rest (Many r) s = s # concat (map (\<lambda>t. if length t < length s then rest (Many r) t else []) (rest r s))"
| "rest Eol s = (if s = [] then [s] else [])"
| "rest (Group alts) s = rest_alt alts s"
| "rest_seq [] s = [s]"
| "rest_seq (r # rs) s = concat (map (rest_seq rs) (rest r s))"
| "rest_alt [] s = []"
| "rest_alt (rs # alts) s = rest_seq rs s @ rest_alt alts s"
  by pat_completeness auto
termination
  by (relation "measures [\<lambda>x. case x of Inl (r, s) \<Rightarrow> size r
      | Inr (Inl (rs, s)) \<Rightarrow> size_list size rs | Inr (Inr (as, s)) \<Rightarrow> size_list (size_list size) as,
      \<lambda>x. case x of Inl (r, s) \<Rightarrow> length s | _ \<Rightarrow> 0]") auto

declare rest.simps(3) [simp del]

definition regex_match :: "re \<Rightarrow> string \<Rightarrow> bool" where
  "regex_match r s \<longleftrightarrow> [] \<in> set (rest r s)"

section \<open>The grammar\<close>

record regex_lib =
  escape_class :: "char \<Rightarrow> ranges option"
  named_class :: "char \<Rightarrow> string \<Rightarrow> ranges option"

definition alnum :: "char \<Rightarrow> bool" where
  "alnum c \<longleftrightarrow> (let n = (of_char c :: nat) in
     48 \<le> n \<and> n \<le> 57 \<or> 65 \<le> n \<and> n \<le> 90 \<or> 97 \<le> n \<and> n \<le> 122)"

definition control_escape :: "char \<Rightarrow> char option" where
  "control_escape c =
     (if c = CHR ''n'' then Some (CHR 0x0A) else if c = CHR ''r'' then Some (CHR 0x0D)
      else if c = CHR ''t'' then Some (CHR 0x09) else if c = CHR ''v'' then Some (CHR 0x0B)
      else if c = CHR ''f'' then Some (CHR 0x0C) else None)"

text \<open>
  Inside a class: nothing pending, a character that may start a range, a character and a hyphen, or
  the name of a class up to its terminator.
\<close>

datatype pending = Nothing | Start char | Hyphen char | Named char string

fun flush :: "pending \<Rightarrow> ranges" where
  "flush (Start l) = [(l, l)]"
| "flush (Hyphen l) = [(l, l), (CHR ''-'', CHR ''-'')]"
| "flush _ = []"

fun push_char :: "char \<Rightarrow> pending \<times> ranges \<Rightarrow> (pending \<times> ranges) option" where
  "push_char c (Hyphen l, rs) =
     (if char_value l \<le> char_value c then Some (Nothing, rs @ [(l, c)]) else None)"
| "push_char c (p, rs) = Some (Start c, rs @ flush p)"

fun push_plain :: "char \<Rightarrow> pending \<times> ranges \<Rightarrow> (pending \<times> ranges) option" where
  "push_plain c (Start l, rs) = (if c = CHR ''-'' then Some (Hyphen l, rs) else push_char c (Start l, rs))"
| "push_plain c (p, rs) = push_char c (p, rs)"

definition class_escape :: "regex_lib \<Rightarrow> char \<Rightarrow> pending \<times> ranges \<Rightarrow> (pending \<times> ranges) option" where
  "class_escape lib c st =
     (case control_escape c of
        Some d \<Rightarrow> push_char d st
      | None \<Rightarrow>
          if \<not> alnum c then push_char c st
          else if c \<in> set ''123456789'' then None
          else map_option (\<lambda>rs. (Nothing, snd st @ flush (fst st) @ rs)) (escape_class lib c))"

fun class_items :: "regex_lib \<Rightarrow> pending \<times> ranges \<Rightarrow> string \<Rightarrow> (ranges \<times> string) option" where
  "class_items lib (p, rs) [] = None"
| "class_items lib (Named d w, rs) (c # s) =
     (if c = d \<and> s \<noteq> [] \<and> hd s = CHR '']'' then
        (case named_class lib d w of
           None \<Rightarrow> None
         | Some ns \<Rightarrow> class_items lib (Nothing, rs @ ns) (tl s))
      else class_items lib (Named d (w @ [c]), rs) s)"
| "class_items lib (p, rs) (c # s) =
     (if c = CHR '']'' then Some (rs @ flush p, s)
      else if c = CHR 0x5C then
        (if s = [] then None else Option.bind (class_escape lib (hd s) (p, rs)) (\<lambda>st. class_items lib st (tl s)))
      else if c = CHR ''['' \<and> s \<noteq> [] \<and> hd s \<in> set '':.='' then
        class_items lib (Named (hd s) [], rs @ flush p) (tl s)
      else Option.bind (push_plain c (p, rs)) (\<lambda>st. class_items lib st s))"

definition class_body :: "regex_lib \<Rightarrow> string \<Rightarrow> (re \<times> string) option" where
  "class_body lib s =
     (if s \<noteq> [] \<and> hd s = CHR ''^'' then map_option (\<lambda>(rs, t). (Class True rs, t)) (class_items lib (Nothing, []) (tl s))
      else map_option (\<lambda>(rs, t). (Class False rs, t)) (class_items lib (Nothing, []) s))"

lemma class_items_shorter: "class_items lib st s = Some (rs, t) \<Longrightarrow> length t < length s"
proof (induction lib st s arbitrary: rs t rule: class_items.induct)
  case (2 lib d w rs c s)
  then show ?case by (fastforce split: if_splits option.splits)
next
qed (fastforce split: if_splits bind_splits)+

text \<open>
  An open group holds its finished alternatives and the sequence being read. \<open>* + ? { ^\<close> where the
  generated expressions do not have them are errors here.
\<close>

type_synonym frame = "re list list \<times> re list"

definition close_group :: "frame \<Rightarrow> re" where
  "close_group f = Group (fst f @ [snd f])"

definition item :: "re \<Rightarrow> frame \<Rightarrow> frame" where
  "item r f = (fst f, snd f @ [r])"

function parse :: "regex_lib \<Rightarrow> frame list \<Rightarrow> frame \<Rightarrow> string \<Rightarrow> re option" where
  "parse lib stack f [] = (if stack = [] then Some (close_group f) else None)"
| "parse lib stack f (c # s) =
     (if c = CHR ''('' then parse lib (f # stack) ([], []) s
      else if c = CHR '')'' then
        (case stack of [] \<Rightarrow> None | g # gs \<Rightarrow> parse lib gs (item (close_group f) g) s)
      else if c = CHR ''|'' then parse lib stack (fst f @ [snd f], []) s
      else if c = CHR ''*'' then
        (if snd f = [] then None else parse lib stack (fst f, butlast (snd f) @ [Many (last (snd f))]) s)
      else if c = CHR ''.'' then parse lib stack (item AnyChar f) s
      else if c = CHR ''$'' then parse lib stack (item Eol f) s
      else if c = CHR 0x5C then
        (if s = [] then None
         else case class_escape lib (hd s) (Nothing, []) of
           None \<Rightarrow> None
         | Some (p, rs) \<Rightarrow> parse lib stack (item (Class False (rs @ flush p)) f) (tl s))
      else if c = CHR ''['' then
        (case class_body lib s of None \<Rightarrow> None | Some (r, t) \<Rightarrow> parse lib stack (item r f) t)
      else if c \<in> set ''+?{^'' then None
      else parse lib stack (item (Class False [(c, c)]) f) s)"
  by pat_completeness auto
termination
proof (relation "measure (\<lambda>(lib, stack, f, s). length s)", goal_cases)
  case (9 lib stack f c s x2 x y)
  then show ?case
    by (auto simp: class_body_def split: if_splits dest!: class_items_shorter)
qed auto

text \<open>\<open>std::regex(text)\<close>: \<open>std::regex_error\<close> is thrown for what is no expression.\<close>

definition regex_compile :: "regex_lib \<Rightarrow> string \<Rightarrow> re result" where
  "regex_compile lib s =
     (case parse lib [] ([], []) s of None \<Rightarrow> Inl (Throw ''regex_error'') | Some r \<Rightarrow> Inr r)"

section \<open>Facts on matching\<close>

lemma concat_map_concat: "concat (map g (concat xss)) = concat (map (\<lambda>xs. concat (map g xs)) xss)"
  by (induction xss) simp_all

lemma rest_seq_append: "rest_seq (rs @ rs') s = concat (map (rest_seq rs') (rest_seq rs s))"
proof (induction rs arbitrary: s)
  case (Cons r rs)
  then have "rest_seq (rs @ rs') = (\<lambda>s. concat (map (rest_seq rs') (rest_seq rs s)))" by (rule ext)
  then show ?case by (simp add: concat_map_concat o_def)
qed simp

lemma signed_inj:
  "0 \<le> x \<Longrightarrow> x < 256 \<Longrightarrow> 0 \<le> y \<Longrightarrow> y < 256 \<Longrightarrow>
     (if x < 128 then x else x - 256) = (if y < 128 then y else y - 256) \<Longrightarrow> x = (y :: int)"
  by (simp split: if_splits)

lemma of_char_int_range: "0 \<le> (of_char c :: int) \<and> (of_char c :: int) < 256"
proof -
  have "(of_char c :: int) = int (of_char c)" by (rule of_nat_of_char [symmetric])
  moreover have "of_char c < (256 :: nat)" by simp
  ultimately show ?thesis by linarith
qed

lemma char_value_inj: "char_value d = char_value c \<longleftrightarrow> d = c"
proof
  assume "char_value d = char_value c"
  then have "(of_char d :: int) = of_char c"
    unfolding char_value_def Let_def
    by (rule signed_inj [OF conjunct1 [OF of_char_int_range] conjunct2 [OF of_char_int_range]
          conjunct1 [OF of_char_int_range] conjunct2 [OF of_char_int_range]])
  then show "d = c" by (simp only: of_char_eq_iff)
qed (rule arg_cong)

lemma in_ranges_single [simp]: "in_ranges [(c, c)] d \<longleftrightarrow> d = c"
  using char_value_inj [of d c] by (simp add: in_ranges_def) linarith

lemma in_ranges_singles: "in_ranges (map (\<lambda>c. (c, c)) cs) d \<longleftrightarrow> d \<in> set cs"
proof
  assume "in_ranges (map (\<lambda>c. (c, c)) cs) d"
  then obtain c where "c \<in> set cs" "char_value c = char_value d" by (auto simp: in_ranges_def)
  then show "d \<in> set cs" by (simp add: char_value_inj)
qed (auto simp: in_ranges_def)

end
