(* ===== verification/Paths.thy ===== *)
theory Paths
  imports Strings
begin

text \<open>
  \<open>std::filesystem::path\<close> on POSIX as far as the program uses it: a path is its text.
\<close>

definition is_absolute :: "string \<Rightarrow> bool" where
  "is_absolute p \<longleftrightarrow> p \<noteq> [] \<and> hd p = CHR ''/''"

text \<open>What follows the last separator.\<close>

definition path_filename :: "string \<Rightarrow> string" where
  "path_filename p = rev (takeWhile (\<lambda>c. c \<noteq> CHR ''/'') (rev p))"

definition strip_slashes :: "string \<Rightarrow> string" where
  "strip_slashes p = rev (dropWhile (\<lambda>c. c = CHR ''/'') (rev p))"

text \<open>What precedes it, without the separators between; the root stays.\<close>

definition parent_path :: "string \<Rightarrow> string" where
  "parent_path p =
     (let d = strip_slashes (take (length p - length (path_filename p)) p)
      in if d = [] \<and> is_absolute p then (if path_filename p = [] then p else ''/'') else d)"

definition path_append :: "string \<Rightarrow> string \<Rightarrow> string" where
  "path_append p q =
     (if is_absolute q then q
      else if p = [] \<or> last p = CHR ''/'' then p @ q
      else p @ ''/'' @ q)"

lemma path_filename_no_slash: "CHR ''/'' \<notin> set (path_filename p)"
  by (auto simp: path_filename_def dest: set_takeWhileD)

lemma path_split: "p = take (length p - length (path_filename p)) p @ path_filename p"
proof -
  let ?P = "\<lambda>c. c \<noteq> CHR ''/''"
  have r: "rev p = takeWhile ?P (rev p) @ dropWhile ?P (rev p)" by simp
  have p: "p = rev (dropWhile ?P (rev p)) @ path_filename p"
    by (subst rev_rev_ident [symmetric], subst r, simp only: rev_append path_filename_def)
  have "length p = length (rev (dropWhile ?P (rev p))) + length (path_filename p)"
    by (subst p, simp only: length_append)
  then have "take (length p - length (path_filename p)) p = rev (dropWhile ?P (rev p))"
    by (subst p, simp)
  with p show ?thesis by simp
qed

lemma path_filename_append [simp]: "CHR ''/'' \<notin> set n \<Longrightarrow> path_filename (d @ CHR ''/'' # n) = n"
  by (simp add: path_filename_def takeWhile_append)

lemma path_filename_plain [simp]: "CHR ''/'' \<notin> set n \<Longrightarrow> path_filename n = n"
  unfolding path_filename_def by (subst takeWhile_eq_all_conv [THEN iffD2]) auto

lemma strip_slashes_keep: "d \<noteq> [] \<Longrightarrow> last d \<noteq> CHR ''/'' \<Longrightarrow> strip_slashes (d @ ''/'') = d"
  by (cases d rule: rev_cases) (auto simp: strip_slashes_def)

lemma parent_path_append:
  "CHR ''/'' \<notin> set n \<Longrightarrow> d \<noteq> [] \<Longrightarrow> last d \<noteq> CHR ''/'' \<Longrightarrow> parent_path (d @ CHR ''/'' # n) = d"
  using strip_slashes_keep [of d] by (simp add: parent_path_def Let_def)

lemma parent_path_plain [simp]: "CHR ''/'' \<notin> set n \<Longrightarrow> parent_path n = []"
  by (cases n) (auto simp: parent_path_def strip_slashes_def is_absolute_def)

lemma length_strip_slashes: "length (strip_slashes p) \<le> length p"
  unfolding strip_slashes_def by (metis length_dropWhile_le length_rev)

lemma set_strip_slashes: "set (strip_slashes p) \<subseteq> set p"
  unfolding strip_slashes_def by (metis set_dropWhileD set_rev subsetI)

lemma set_parent_path: "set (parent_path p) \<subseteq> set p \<union> {CHR ''/''}"
proof -
  have "set (strip_slashes (take n p)) \<subseteq> set p" for n
    using set_strip_slashes [of "take n p"] set_take_subset [of n p] by blast
  from this this [of "length p"] show ?thesis by (auto simp: parent_path_def Let_def)
qed

section \<open>Walking through directories\<close>

text \<open>
  A recursion that records an entry, then everything below it, then the next entry, as a loop over the
  entries still to be visited. It ends only where no directory is below itself.
\<close>

partial_function (option) walk ::
    "(string \<Rightarrow> bool) \<Rightarrow> (string \<Rightarrow> string list result) \<Rightarrow> string list \<Rightarrow> string list \<Rightarrow> string list result option" where
  "walk skip below todo acc =
     (case todo of
        [] \<Rightarrow> Some (Inr acc)
      | x # xs \<Rightarrow>
          if skip x then walk skip below xs acc
          else (case below x of
            Inl e \<Rightarrow> Some (Inl e)
          | Inr ys \<Rightarrow> walk skip below (ys @ xs) (acc @ [x])))"

definition falls :: "(string \<Rightarrow> string list result) \<Rightarrow> (string \<Rightarrow> nat) \<Rightarrow> bool" where
  "falls below rank \<longleftrightarrow> (\<forall>d ys y. below d = Inr ys \<and> y \<in> set ys \<longrightarrow> rank y < rank d)"

lemma walk_Nil: "walk skip below [] acc = Some (Inr acc)"
  by (simp add: walk.simps)

lemma walk_splits:
  assumes "falls below rank"
  shows "\<forall>x \<in> set xs. rank x < k \<Longrightarrow>
    (\<exists>e. walk skip below (xs @ zs) acc = Some (Inl e)) \<or>
    (\<exists>acc'. walk skip below (xs @ zs) acc = walk skip below zs acc')"
proof (induction k arbitrary: xs zs acc)
  case 0
  then have "xs = []" by (cases xs) auto
  then show ?case by auto
next
  case (Suc k)
  from Suc.prems show ?case
  proof (induction xs arbitrary: acc)
    case (Cons x xs)
    show ?case
    proof (cases "skip x")
      case True
      with Cons show ?thesis by (subst (1 2) walk.simps) simp
    next
      case False
      show ?thesis
      proof (cases "below x")
        case (Inl e)
        with False show ?thesis by (subst (1 2) walk.simps) simp
      next
        case (Inr ys)
        then have "rank y < k" if "y \<in> set ys" for y
          using that assms Cons.prems unfolding falls_def
          by (metis less_Suc_eq_le list.set_intros(1) order_less_le_trans)
        then have "(\<exists>e. walk skip below (ys @ xs @ zs) (acc @ [x]) = Some (Inl e)) \<or>
            (\<exists>acc'. walk skip below (ys @ xs @ zs) (acc @ [x]) = walk skip below (xs @ zs) acc')"
          by (intro Suc.IH) simp
        moreover have "walk skip below ((x # xs) @ zs) acc = walk skip below (ys @ xs @ zs) (acc @ [x])"
          using False Inr by (subst walk.simps) simp
        moreover have "(\<exists>e. walk skip below (xs @ zs) a = Some (Inl e)) \<or>
            (\<exists>acc'. walk skip below (xs @ zs) a = walk skip below zs acc')" for a
          using Cons by simp
        ultimately show ?thesis by metis
      qed
    qed
  qed auto
qed

lemma walk_ends:
  assumes "falls below rank"
  shows "\<exists>r. walk skip below xs acc = Some r"
proof -
  obtain k where "\<forall>x \<in> set xs. rank x < k"
    by (metis List.finite_set finite_imageI finite_nat_set_iff_bounded imageI)
  from walk_splits [OF assms this, of skip "[]" acc] show ?thesis by (auto simp: walk_Nil)
qed

end
