(* ===== verification/Glob.thy ===== *)
theory Glob
  imports Regex Paths
begin

text \<open>
  The globbing library of \<open>src/src/components/io/glob.hpp\<close>: the translation of patterns into regular
  expressions, name matching, and the search through directories. The file system is an argument.
\<close>

section \<open>Translating a pattern\<close>

definition special_characters :: string where
  "special_characters = ''()[]{}?*+-|^$'' @ [CHR 0x5C] @ ''.&~# '' @ [CHR 0x09, CHR 0x0A, CHR 0x0D, CHR 0x0B, CHR 0x0C]"

text \<open>\<open>string_replace\<close> replaces the first occurrence only.\<close>

definition string_replace :: "string \<Rightarrow> string \<Rightarrow> string \<Rightarrow> string" where
  "string_replace str from_text to =
     (case str_find from_text str of
        None \<Rightarrow> str
      | Some start_pos \<Rightarrow> take start_pos str @ to @ drop (start_pos + length from_text) str)"

text \<open>
  The position of the bracket that closes the one before \<open>s\<close>: it is not looked for at the start,
  where it stands for itself.
\<close>

definition bracket_end :: "string \<Rightarrow> nat option" where
  "bracket_end s =
     (let j = (if s \<noteq> [] \<and> hd s = CHR ''!'' then 1 else 0);
          j = (if j < length s \<and> s ! j = CHR '']'' then Suc j else j)
      in map_option (\<lambda>k. j + k) (str_find '']'' (drop j s)))"

text \<open>
  \<open>R"(\\\1)"\<close> holds no \<open>$\<close>, so \<open>std::regex_replace\<close> puts these four characters as they are in the
  place of each \<open>&\<close>, \<open>~\<close> and \<open>|\<close>.
\<close>

fun escape_set_operations :: "string \<Rightarrow> string" where
  "escape_set_operations [] = []"
| "escape_set_operations (c # s) =
     (if c \<in> set ''&~|'' then [CHR 0x5C, CHR 0x5C, CHR 0x5C, CHR ''1''] @ escape_set_operations s
      else c # escape_set_operations s)"

definition bracket_text :: "string \<Rightarrow> string" where
  "bracket_text stuff =
     (let stuff = escape_set_operations (string_replace stuff [CHR 0x5C] [CHR 0x5C, CHR 0x5C])
      in if stuff \<noteq> [] \<and> hd stuff = CHR ''!'' then ''^'' @ tl stuff
         else if stuff \<noteq> [] \<and> hd stuff \<in> set ''^['' then [CHR 0x5C, CHR 0x5C] @ stuff
         else stuff)"

text \<open>
  In a bracket that contains \<open>--\<close> the search for hyphens reads \<open>j\<close> characters of the literal \<open>"-"\<close>,
  and \<open>j\<close>, a position behind three other characters, is beyond its end.
\<close>

function translate_body :: "string \<Rightarrow> string result" where
  "translate_body [] = Inr []"
| "translate_body (c # s) =
     (if c = CHR ''*'' then rbind (translate_body s) (\<lambda>r. Inr (''.*'' @ r))
      else if c = CHR ''?'' then rbind (translate_body s) (\<lambda>r. Inr (''.'' @ r))
      else if c = CHR ''['' then
        (case bracket_end s of
           None \<Rightarrow> rbind (translate_body s) (\<lambda>r. Inr ([CHR 0x5C, CHR ''[''] @ r))
         | Some j \<Rightarrow>
             if str_find ''--'' (take j s) \<noteq> None then Inl OutOfBounds
             else rbind (translate_body (drop (Suc j) s))
               (\<lambda>r. Inr (''['' @ bracket_text (take j s) @ '']'' @ r)))
      else if c \<in> set special_characters then rbind (translate_body s) (\<lambda>r. Inr ([CHR 0x5C, c] @ r))
      else rbind (translate_body s) (\<lambda>r. Inr (c # r)))"
  by pat_completeness auto
termination
  by (relation "measure length") auto

definition closing_part :: string where
  "closing_part = ''()|['' @ [CHR 0x5C, CHR ''r'', CHR 0x5C, CHR ''n''] @ ''])$)''"

definition translate :: "string \<Rightarrow> string result" where
  "translate pattern = rbind (translate_body pattern) (\<lambda>r. Inr (''(('' @ r @ closing_part))"

definition compile_pattern :: "regex_lib \<Rightarrow> string \<Rightarrow> re result" where
  "compile_pattern lib pattern = rbind (translate pattern) (regex_compile lib)"

definition fnmatch :: "regex_lib \<Rightarrow> string \<Rightarrow> string \<Rightarrow> bool result" where
  "fnmatch lib name pattern = rbind (compile_pattern lib pattern) (\<lambda>r. Inr (regex_match r name))"

fun filter_names :: "regex_lib \<Rightarrow> string list \<Rightarrow> string \<Rightarrow> string list result" where
  "filter_names lib [] pattern = Inr []"
| "filter_names lib (name # names) pattern =
     rbind (fnmatch lib name pattern) (\<lambda>b.
     rbind (filter_names lib names pattern) (\<lambda>ns. Inr (if b then name # ns else ns)))"

section \<open>Patterns as they are meant\<close>

text \<open>
  A reference: a pattern is a list of atoms, and \<open>plain\<close> says of which characters a bracket may
  consist so that its text stands for the set of its characters.
\<close>

datatype atom = Star | Any | Lit char | OneOf bool string

definition plain :: "char \<Rightarrow> bool" where
  "plain c \<longleftrightarrow> c \<notin> set ''[]-!^&~|'' \<union> {CHR 0x5C}"

fun atom_ok :: "atom \<Rightarrow> bool" where
  "atom_ok (Lit c) = (c \<notin> set ''*?['')"
| "atom_ok (OneOf neg cs) = (cs \<noteq> [] \<and> list_all plain cs)"
| "atom_ok _ = True"

fun atom_text :: "atom \<Rightarrow> string" where
  "atom_text Star = ''*''"
| "atom_text Any = ''?''"
| "atom_text (Lit c) = [c]"
| "atom_text (OneOf neg cs) = ''['' @ (if neg then ''!'' else []) @ cs @ '']''"

definition pattern_text :: "atom list \<Rightarrow> string" where
  "pattern_text as = concat (map atom_text as)"

function atoms_match :: "atom list \<Rightarrow> string \<Rightarrow> bool" where
  "atoms_match [] s = (s = [])"
| "atoms_match (Star # as) s =
     (if atoms_match as s then True
      else if s = [] \<or> line_end (hd s) then False
      else atoms_match (Star # as) (tl s))"
| "atoms_match (Any # as) s = (s \<noteq> [] \<and> \<not> line_end (hd s) \<and> atoms_match as (tl s))"
| "atoms_match (Lit c # as) s = (s \<noteq> [] \<and> hd s = c \<and> atoms_match as (tl s))"
| "atoms_match (OneOf neg cs # as) s =
     (s \<noteq> [] \<and> (hd s \<in> set cs) \<noteq> neg \<and> atoms_match as (tl s))"
  by pat_completeness auto
termination
  by (relation "measures [\<lambda>(as, s). length as, \<lambda>(as, s). length s]") auto

section \<open>The translation of a pattern matches what the pattern means\<close>

fun atom_regex :: "atom \<Rightarrow> string" where
  "atom_regex Star = ''.*''"
| "atom_regex Any = ''.''"
| "atom_regex (Lit c) = (if c \<in> set special_characters then [CHR 0x5C, c] else [c])"
| "atom_regex (OneOf neg cs) = ''['' @ (if neg then ''^'' else []) @ cs @ '']''"

fun atom_item :: "atom \<Rightarrow> re" where
  "atom_item Star = Many AnyChar"
| "atom_item Any = AnyChar"
| "atom_item (Lit c) = Class False [(c, c)]"
| "atom_item (OneOf neg cs) = Class neg (map (\<lambda>c. (c, c)) cs)"

lemma not_plain:
  "\<not> plain (CHR ''['')" "\<not> plain (CHR '']'')" "\<not> plain (CHR ''-'')" "\<not> plain (CHR ''!'')"
  "\<not> plain (CHR ''^'')" "\<not> plain (CHR ''&'')" "\<not> plain (CHR ''~'')" "\<not> plain (CHR ''|'')"
  "\<not> plain (CHR 0x5C)"
  by (simp_all add: plain_def)

lemma plain_neq:
  assumes "plain c"
  shows "c \<noteq> CHR ''[''" "c \<noteq> CHR '']''" "c \<noteq> CHR ''-''" "c \<noteq> CHR ''!''" "c \<noteq> CHR ''^''"
    "c \<noteq> CHR ''&''" "c \<noteq> CHR ''~''" "c \<noteq> CHR ''|''" "c \<noteq> CHR 0x5C"
  using assms not_plain by metis+

lemma plain_notin:
  assumes "list_all plain cs"
  shows "CHR '']'' \<notin> set cs" "CHR ''-'' \<notin> set cs" "CHR 0x5C \<notin> set cs"
  using assms not_plain unfolding list_all_iff by metis+

lemma escape_plain: "list_all plain cs \<Longrightarrow> escape_set_operations cs = cs"
  by (induction cs) (simp_all add: plain_neq)

lemma string_replace_absent: "c \<notin> set s \<Longrightarrow> string_replace s [c] t = s"
  unfolding string_replace_def by (subst str_find_char_None [THEN iffD2]) simp_all

lemma bracket_text_plain:
  assumes "cs \<noteq> []" "list_all plain cs"
  shows "bracket_text ((if neg then ''!'' else []) @ cs) = (if neg then ''^'' else []) @ cs"
proof -
  have "CHR 0x5C \<notin> set ((if neg then ''!'' else []) @ cs)" using plain_notin [OF assms(2)] by simp
  note 1 = string_replace_absent [OF this, of "[CHR 0x5C, CHR 0x5C]"]
  have 2: "escape_set_operations ((if neg then ''!'' else []) @ cs) = (if neg then ''!'' else []) @ cs"
    using escape_plain [OF assms(2)] by simp
  have "plain (hd cs)" using assms by (cases cs) simp_all
  then show ?thesis using assms(1) plain_neq [of "hd cs"]
    unfolding bracket_text_def Let_def 1 2 by (simp only: split: if_split) simp
qed

lemma bracket_end_found:
  assumes "s \<noteq> []" "hd s \<noteq> CHR ''!''" "CHR '']'' \<notin> set s"
  shows "bracket_end (s @ CHR '']'' # t) = Some (length s)"
    and "bracket_end (CHR ''!'' # s @ CHR '']'' # t) = Some (Suc (length s))"
proof -
  have f: "str_find '']'' (s @ CHR '']'' # t) = Some (length s)"
    using str_find_char_append [OF assms(3)] .
  obtain c s' where s: "s = c # s'" using assms(1) by (cases s) auto
  with assms have c: "c \<noteq> CHR ''!''" "c \<noteq> CHR '']''" by auto
  show "bracket_end (s @ CHR '']'' # t) = Some (length s)"
    using c f unfolding bracket_end_def Let_def s by (simp del: str_find.simps)
  show "bracket_end (CHR ''!'' # s @ CHR '']'' # t) = Some (Suc (length s))"
    using c f unfolding bracket_end_def Let_def s by (simp del: str_find.simps)
qed

lemma bracket_end_plain:
  assumes "cs \<noteq> []" "list_all plain cs"
  shows "bracket_end ((if neg then ''!'' else []) @ cs @ CHR '']'' # s) =
    Some (length ((if neg then ''!'' else []) @ cs))"
proof -
  have "hd cs \<noteq> CHR ''!''" using assms plain_neq(4) by (cases cs) simp_all
  with bracket_end_found [OF assms(1) this plain_notin(1) [OF assms(2)]] show ?thesis by (cases neg) simp_all
qed

lemma no_double_hyphen: "list_all plain cs \<Longrightarrow> str_find ''--'' ((if neg then ''!'' else []) @ cs) = None"
proof -
  assume "list_all plain cs"
  then have "CHR ''-'' \<notin> set ((if neg then ''!'' else []) @ cs)" using plain_notin by simp
  moreover have "CHR ''-'' \<in> set (u @ ''--'' @ v)" for u v by simp
  ultimately show ?thesis unfolding str_find_None_iff by metis
qed

lemma translate_atoms_append:
  "list_all atom_ok as \<Longrightarrow>
     translate_body (pattern_text as @ s) = rbind (translate_body s) (\<lambda>r. Inr (concat (map atom_regex as) @ r))"
proof (induction as)
  case Nil
  then show ?case by (cases "translate_body s") (simp_all add: pattern_text_def)
next
  case (Cons a as)
  then have IH: "translate_body (pattern_text as @ s) =
      rbind (translate_body s) (\<lambda>r. Inr (concat (map atom_regex as) @ r))" and a: "atom_ok a"
    by simp_all
  show ?case
  proof (cases a)
    case (OneOf neg cs)
    with a have cs: "cs \<noteq> []" "list_all plain cs" by simp_all
    have "pattern_text (a # as) @ s =
        CHR ''['' # ((if neg then ''!'' else []) @ cs @ CHR '']'' # pattern_text as @ s)"
      by (simp add: pattern_text_def OneOf)
    moreover have "take (length ((if neg then ''!'' else []) @ cs)) ((if neg then ''!'' else []) @ cs @ CHR '']'' # pattern_text as @ s) =
        (if neg then ''!'' else []) @ cs"
      "drop (Suc (length ((if neg then ''!'' else []) @ cs))) ((if neg then ''!'' else []) @ cs @ CHR '']'' # pattern_text as @ s) =
        pattern_text as @ s"
      by simp_all
    ultimately show ?thesis
      by (simp only: translate_body.simps bracket_end_plain [OF cs] option.case no_double_hyphen [OF cs(2)]
          bracket_text_plain [OF cs] IH rbind_assoc rbind.simps) (simp add: OneOf)
  next
    case (Lit c)
    with a IH show ?thesis by (simp add: pattern_text_def rbind_assoc)
  qed (use IH in \<open>simp_all add: pattern_text_def rbind_assoc\<close>)
qed

lemma translate_atoms:
  "list_all atom_ok as \<Longrightarrow> translate_body (pattern_text as) = Inr (concat (map atom_regex as))"
  using translate_atoms_append [of as "[]"] by simp

lemma class_items_plain:
  assumes "list_all plain cs" "p = Nothing \<or> p \<in> range Start"
  shows "class_items lib (p, rs) (cs @ CHR '']'' # t) = Some (rs @ flush p @ map (\<lambda>c. (c, c)) cs, t)"
  using assms by (induction cs arbitrary: p rs) (auto simp: plain_neq)

lemma class_body_plain:
  assumes "cs \<noteq> []" "list_all plain cs"
  shows "class_body lib ((if neg then ''^'' else []) @ cs @ CHR '']'' # t) =
    Some (Class neg (map (\<lambda>c. (c, c)) cs), t)"
proof -
  have "hd cs \<noteq> CHR ''^''" using assms plain_neq(5) by (cases cs) simp_all
  with assms show ?thesis by (cases neg) (simp_all add: class_body_def class_items_plain)
qed

lemma special_escape:
  assumes "c \<in> set special_characters"
  shows "class_escape lib c (Nothing, []) = Some (Start c, [])"
proof -
  have "list_all (\<lambda>c. \<not> alnum c \<and> control_escape c = None) special_characters" by code_simp
  with assms have "\<not> alnum c" "control_escape c = None" by (simp_all add: list_all_iff)
  then show ?thesis by (simp add: class_escape_def)
qed

lemma not_special:
  assumes "c \<notin> set special_characters"
  shows "c \<noteq> CHR ''('' \<and> c \<noteq> CHR '')'' \<and> c \<noteq> CHR ''|'' \<and> c \<noteq> CHR ''*'' \<and> c \<noteq> CHR ''.'' \<and> c \<noteq> CHR ''$'' \<and>
    c \<noteq> CHR 0x5C \<and> c \<noteq> CHR ''['' \<and> c \<notin> set ''+?{^''"
  using assms by (simp add: special_characters_def)

lemma parse_atoms:
  "list_all atom_ok as \<Longrightarrow>
     parse lib stack (alts, rs) (concat (map atom_regex as) @ t) = parse lib stack (alts, rs @ map atom_item as) t"
proof (induction as arbitrary: rs)
  case (Cons a as)
  have IH: "parse lib stack (alts, rs) (concat (map atom_regex as) @ t) =
      parse lib stack (alts, rs @ map atom_item as) t" for rs
    using Cons by simp
  show ?case
  proof (cases a)
    case (OneOf neg cs)
    with Cons.prems have cs: "cs \<noteq> []" "list_all plain cs" by simp_all
    show ?thesis
      using class_body_plain [OF cs, of lib neg "concat (map atom_regex as) @ t"] IH [of "rs @ [atom_item a]"]
      by (simp add: OneOf item_def)
  next
    case (Lit c)
    show ?thesis
      using IH [of "rs @ [atom_item a]"] special_escape [of c lib] not_special [of c]
      by (simp add: Lit item_def)
  qed (use IH [of "rs @ [atom_item a]"] in \<open>simp_all add: item_def\<close>)
qed simp

definition line_end_class :: re where
  "line_end_class = Class False [(CHR 0x0D, CHR 0x0D), (CHR 0x0A, CHR 0x0A)]"

definition pattern_re :: "atom list \<Rightarrow> re" where
  "pattern_re as = Group [[Group [[Group [map atom_item as @ [Group [[]]], [line_end_class]], Eol]]]]"

lemma parse_closing: "parse lib [([], []), ([], [])] ([], rs) closing_part =
  Some (Group [[Group [[Group [rs @ [Group [[]]], [line_end_class]], Eol]]]])"
proof -
  have c: "class_body lib ([CHR 0x5C, CHR ''r'', CHR 0x5C, CHR ''n''] @ ''])$)'') = Some (line_end_class, '')$)'')"
    by (simp add: class_body_def class_escape_def control_escape_def line_end_class_def)
  then show ?thesis by (simp add: closing_part_def item_def close_group_def)
qed

lemma compile_atoms:
  assumes "list_all atom_ok as"
  shows "compile_pattern lib (pattern_text as) = Inr (pattern_re as)"
  using parse_atoms [OF assms, of lib "[([], []), ([], [])]" "[]" "[]" closing_part]
  by (simp add: compile_pattern_def translate_def translate_atoms [OF assms] regex_compile_def
      parse_closing pattern_re_def)

lemma rest_many:
  "rest (Many AnyChar) s = s # (if s = [] \<or> line_end (hd s) then [] else rest (Many AnyChar) (tl s))"
  by (subst rest.simps(3), cases s) (simp_all add: one_char_def)

lemma match_atoms: "[] \<in> set (rest_seq (map atom_item as) s) \<longleftrightarrow> atoms_match as s"
proof (induction as s rule: atoms_match.induct)
  case (2 as s)
  show ?case
  proof (cases "s = [] \<or> line_end (hd s)")
    case True
    with 2(1) show ?thesis by (auto simp: rest_many [of s])
  next
    case False
    have "[] \<in> set (rest_seq (map atom_item (Star # as)) s) \<longleftrightarrow>
        [] \<in> set (rest_seq (map atom_item as) s) \<or> [] \<in> set (rest_seq (map atom_item (Star # as)) (tl s))"
      using False by (simp add: rest_many [of s])
    with 2 False show ?thesis by simp
  qed
next
  case (3 as s)
  then show ?case by (cases s) (simp_all add: one_char_def)
next
  case (4 c as s)
  then show ?case by (cases s) (simp_all add: one_char_def)
next
  case (5 neg cs as s)
  then show ?case by (cases s) (simp_all add: one_char_def in_ranges_singles)
qed auto

lemma match_pattern_re: "regex_match (pattern_re as) s \<longleftrightarrow> atoms_match as s \<or> s \<in> {[CHR 0x0A], [CHR 0x0D]}"
proof -
  have 1: "regex_match (pattern_re as) s \<longleftrightarrow>
      [] \<in> set (rest_seq (map atom_item as) s) \<or> [] \<in> set (rest line_end_class s)"
    by (auto simp: regex_match_def pattern_re_def rest_seq_append)
  have 2: "in_ranges [(CHR 0x0D, CHR 0x0D), (CHR 0x0A, CHR 0x0A)] c \<longleftrightarrow> c = CHR 0x0D \<or> c = CHR 0x0A" for c
    using in_ranges_singles [of "[CHR 0x0D, CHR 0x0A]" c] by simp
  have "[] \<in> set (rest line_end_class s) \<longleftrightarrow> s \<in> {[CHR 0x0A], [CHR 0x0D]}"
  proof (cases s)
    case (Cons c t)
    then show ?thesis by (auto simp: line_end_class_def one_char_def 2)
  qed (auto simp: line_end_class_def one_char_def)
  with 1 match_atoms show ?thesis by simp
qed

text \<open>C12. Matching a name against the text of a pattern is what the pattern means: \<open>*\<close> and \<open>?\<close> stand for
  characters that end no line, a bracket for its set or its complement, anything else for itself. A
  name that is a single line end matches every pattern.\<close>

theorem fnmatch_meaning:
  assumes "list_all atom_ok as"
  shows "fnmatch lib name (pattern_text as) = Inr (atoms_match as name \<or> name \<in> {[CHR 0x0A], [CHR 0x0D]})"
  by (simp add: fnmatch_def compile_atoms [OF assms] match_pattern_re)

definition no_classes :: regex_lib where
  "no_classes = \<lparr>escape_class = (\<lambda>_. None), named_class = (\<lambda>_ _. None)\<rparr>"

lemma fnmatch_meaning_witness:
  "fnmatch no_classes ''M31_7.fits'' ''M[!3]*[0-9].fits'' = Inr False \<and>
   fnmatch no_classes ''M31_7.fits'' ''M3?_*[678].fits'' = Inr True"
proof -
  have "list_all atom_ok [Lit (CHR ''M''), Lit (CHR ''3''), Any, Lit (CHR ''_''), Star, OneOf False ''678'',
      Lit (CHR ''.''), Lit (CHR ''f''), Lit (CHR ''i''), Lit (CHR ''t''), Lit (CHR ''s'')]"
    by (simp add: plain_def)
  from fnmatch_meaning [OF this, of no_classes "''M31_7.fits''"]
  have "fnmatch no_classes ''M31_7.fits'' ''M3?_*[678].fits'' = Inr True"
    by (simp add: pattern_text_def line_end_def)
  then show ?thesis by code_simp
qed

section \<open>Brackets the translation breaks\<close>

text \<open>A bracket whose characters are plain or operators, at least one of them an operator.\<close>

definition operator :: "char \<Rightarrow> bool" where
  "operator c \<longleftrightarrow> c \<in> set ''&~|''"

lemma not_operator:
  "\<not> operator (CHR ''['')" "\<not> operator (CHR '']'')" "\<not> operator (CHR ''-'')" "\<not> operator (CHR ''!'')"
  "\<not> operator (CHR ''^'')" "\<not> operator (CHR 0x5C)"
  by (simp_all add: operator_def)

lemma class_items_escaped:
  assumes "list_all (\<lambda>c. plain c \<or> operator c) cs" "list_ex operator cs" "p = Nothing \<or> p \<in> range Start"
  shows "class_items lib (p, rs) (escape_set_operations cs @ t) = None"
  using assms
proof (induction cs arbitrary: p rs)
  case (Cons c cs)
  show ?case
  proof (cases "operator c")
    case True
    then show ?thesis using Cons.prems(3)
      by (auto simp: operator_def class_escape_def control_escape_def alnum_def)
  next
    case False
    with Cons.prems have c: "plain c" by simp
    have "class_items lib (Start c, rs') (escape_set_operations cs @ t) = None" for rs'
      using Cons False by auto
    with c False Cons.prems(3) plain_neq [OF c] show ?thesis by (auto simp: operator_def)
  qed
qed simp

lemma class_items_escaped_start:
  "list_all (\<lambda>c. plain c \<or> operator c) cs \<Longrightarrow> list_ex operator cs \<Longrightarrow>
     class_body lib (escape_set_operations cs @ t) = None"
proof -
  assume a: "list_all (\<lambda>c. plain c \<or> operator c) cs" "list_ex operator cs"
  then obtain c cs' where cs: "cs = c # cs'" by (cases cs) auto
  have "plain c \<or> operator c" using a cs by simp
  then have "escape_set_operations cs \<noteq> [] \<and> hd (escape_set_operations cs) \<noteq> CHR ''^''"
    using plain_neq(5,6,7,8) [of c] cs by (auto simp: operator_def)
  with class_items_escaped [OF a] show ?thesis by (simp add: class_body_def)
qed

text \<open>A bracket among plain characters that holds \<open>&\<close>, \<open>~\<close> or \<open>|\<close> makes every match throw, whatever
  the name, since the replacement text \<open>\\\1\<close> ends in an escape no class may contain; two hyphens in a
  row make the translation read beyond the end of a literal.\<close>

theorem broken_brackets:
  assumes "list_all atom_ok as" "list_all atom_ok bs"
  shows "(list_all (\<lambda>c. plain c \<or> operator c) cs \<and> list_ex operator cs \<longrightarrow>
      fnmatch lib name (pattern_text as @ ''['' @ cs @ '']'' @ pattern_text bs) = Inl (Throw ''regex_error'')) \<and>
    (list_all plain (us @ vs) \<and> us \<noteq> [] \<longrightarrow>
      fnmatch lib name (pattern_text as @ ''['' @ (us @ ''--'' @ vs) @ '']'' @ pattern_text bs) = Inl OutOfBounds)"
proof (intro conjI impI)
  assume cs: "list_all (\<lambda>c. plain c \<or> operator c) cs \<and> list_ex operator cs"
  then obtain c cs' where c: "cs = c # cs'" "plain c \<or> operator c" by (cases cs) auto
  have no: "CHR '']'' \<notin> set cs" "CHR ''-'' \<notin> set cs" "CHR 0x5C \<notin> set cs" "c \<noteq> CHR ''!''" "c \<noteq> CHR '']''" "c \<noteq> CHR ''^''" "c \<noteq> CHR ''[''"
    using cs c(2) not_plain not_operator unfolding list_all_iff by metis+
  let ?s = "pattern_text bs"
  have e: "bracket_end (cs @ CHR '']'' # ?s) = Some (length cs)"
    using no(1,4) c by (intro bracket_end_found) simp_all
  have h: "str_find ''--'' cs = None"
  proof -
    have "CHR ''-'' \<in> set (u @ ''--'' @ v)" for u v by simp
    with no(2) show ?thesis unfolding str_find_None_iff by metis
  qed
  have "hd (escape_set_operations cs) \<notin> set ''!^[''" using no c by simp
  then have b: "bracket_text cs = escape_set_operations cs"
    by (simp add: bracket_text_def string_replace_absent [OF no(3)])
  have "translate_body (pattern_text as @ ''['' @ cs @ '']'' @ ?s) =
      Inr (concat (map atom_regex as) @ ''['' @ escape_set_operations cs @ '']'' @ concat (map atom_regex bs))"
    by (simp add: translate_atoms_append [OF assms(1)] e h b translate_atoms [OF assms(2)])
  moreover have "parse lib [([], []), ([], [])] ([], [])
      (concat (map atom_regex as) @ ''['' @ escape_set_operations cs @ '']'' @ concat (map atom_regex bs) @ closing_part) = None"
    using parse_atoms [OF assms(1), of lib _ "[]" "[]"] cs
      class_items_escaped_start [of cs lib "CHR '']'' # concat (map atom_regex bs) @ closing_part"] by simp
  ultimately show "fnmatch lib name (pattern_text as @ ''['' @ cs @ '']'' @ ?s) = Inl (Throw ''regex_error'')"
    by (simp add: fnmatch_def compile_pattern_def translate_def regex_compile_def)
next
  assume a: "list_all plain (us @ vs) \<and> us \<noteq> []"
  then obtain c us' where c: "us = c # us'" "plain c" by (cases us) auto
  have "CHR '']'' \<notin> set (us @ ''--'' @ vs)" using a plain_notin(1) [of "us @ vs"] by simp
  then have e: "bracket_end ((us @ ''--'' @ vs) @ CHR '']'' # pattern_text bs) = Some (length (us @ ''--'' @ vs))"
    using c plain_neq(4) [OF c(2)] by (intro bracket_end_found) simp_all
  have "str_find ''--'' (us @ ''--'' @ vs) \<noteq> None" unfolding str_find_None_iff by blast
  then have "translate_body (''['' @ (us @ ''--'' @ vs) @ '']'' @ pattern_text bs) = Inl OutOfBounds"
    using e by simp
  then show "fnmatch lib name (pattern_text as @ ''['' @ (us @ ''--'' @ vs) @ '']'' @ pattern_text bs) = Inl OutOfBounds"
    by (simp only: translate_atoms_append [OF assms(1)] fnmatch_def compile_pattern_def translate_def rbind.simps)
qed

lemma broken_brackets_witness:
  "fnmatch no_classes ''a'' ''*[a&b]'' = Inl (Throw ''regex_error'') \<and>
   fnmatch no_classes ''a'' ''*[a--z]'' = Inl OutOfBounds"
proof -
  have 1: "list_all atom_ok [Star]" "list_all atom_ok []" by simp_all
  have 2: "list_all (\<lambda>c. plain c \<or> operator c) ''a&b'' \<and> list_ex operator ''a&b''" by code_simp
  have 3: "list_all plain (''a'' @ ''z'') \<and> ''a'' \<noteq> []" by code_simp
  from broken_brackets [OF 1, THEN conjunct1, rule_format, OF 2, of no_classes "''a''"]
    broken_brackets [OF 1, THEN conjunct2, rule_format, OF 3, of no_classes "''a''"]
  show ?thesis by (simp add: pattern_text_def)
qed

end
