(* ===== verification/GlobSearch.thy ===== *)
theory GlobSearch
  imports Glob
begin

text \<open>
  The search of \<open>src/src/components/io/glob.hpp\<close> through directories. The file system and the
  environment are arguments; a query that throws is \<open>Inl\<close>, a directory that cannot be read has no
  entries. A search that follows a cycle of links does not end, so it is a partial function.
\<close>

section \<open>File system and helpers\<close>

text \<open>
  \<open>entries\<close> are the names in a directory, each with whether it is a directory itself (\<open>None\<close> if asking
  throws); \<open>relative\<close> is \<open>fs::relative\<close>, \<open>None\<close> if it throws.
\<close>

record file_system =
  exists :: "string \<Rightarrow> bool result"
  is_directory :: "string \<Rightarrow> bool result"
  entries :: "string \<Rightarrow> (string \<times> bool option) list option"
  relative :: "string \<Rightarrow> string option"
  current_path :: string
  env_user :: "string option"

definition expand_tilde :: "file_system \<Rightarrow> string \<Rightarrow> string result" where
  "expand_tilde fs path =
     (if path = [] then Inr path
      else case env_user fs of
        None \<Rightarrow> Inl (Throw ''error: Unable to expand `~` - HOME environment variable not set.'')
      | Some home \<Rightarrow> Inr (if hd path = CHR ''~'' then home @ tl path else path))"

definition has_magic :: "string \<Rightarrow> bool" where
  "has_magic pathname \<longleftrightarrow> list_ex (\<lambda>c. c \<in> set ''*?['') pathname"

text \<open>\<open>^(.*\/)*\.[^\.\/]+\/*$\<close>: the dot of \<open>.*\<close> matches no line end.\<close>

definition is_hidden :: "string \<Rightarrow> bool" where
  "is_hidden pathname =
     (let b = strip_slashes pathname; n = path_filename b; d = take (length b - length n) b
      in n \<noteq> [] \<and> hd n = CHR ''.'' \<and> tl n \<noteq> [] \<and> list_all (\<lambda>c. c \<noteq> CHR ''.'') (tl n) \<and>
         list_all (\<lambda>c. \<not> line_end c) d)"

definition is_recursive :: "string \<Rightarrow> bool" where
  "is_recursive pattern \<longleftrightarrow> pattern = ''**''"

fun collect_entries :: "file_system \<Rightarrow> string \<Rightarrow> string \<Rightarrow> bool \<Rightarrow> (string \<times> bool option) list \<Rightarrow> string list" where
  "collect_entries fs dirname current dironly [] = []"
| "collect_entries fs dirname current dironly ((n, d) # es) =
     (if dironly \<and> d = None then []
      else if \<not> dironly \<or> d = Some True then
        (if is_absolute dirname then path_append current n # collect_entries fs dirname current dironly es
         else case relative fs (path_append current n) of
           None \<Rightarrow> []
         | Some r \<Rightarrow> r # collect_entries fs dirname current dironly es)
      else collect_entries fs dirname current dironly es)"

definition iter_directory :: "file_system \<Rightarrow> string \<Rightarrow> bool \<Rightarrow> string list result" where
  "iter_directory fs dirname dironly =
     (let current = (if dirname = [] then current_path fs else dirname)
      in rbind (exists fs current) (\<lambda>e.
         if \<not> e then Inr []
         else case entries fs current of
           None \<Rightarrow> Inr []
         | Some es \<Rightarrow> Inr (collect_entries fs dirname current dironly es)))"

definition rlistdir :: "file_system \<Rightarrow> string \<Rightarrow> bool \<Rightarrow> string list result option" where
  "rlistdir fs dirname dironly =
     (case iter_directory fs dirname dironly of
        Inl e \<Rightarrow> Some (Inl e)
      | Inr names \<Rightarrow> walk is_hidden (\<lambda>x. iter_directory fs x dironly) names [])"

definition glob2 :: "file_system \<Rightarrow> string \<Rightarrow> bool \<Rightarrow> string list result option" where
  "glob2 fs dirname dironly = rlistdir fs dirname dironly"

definition glob1 :: "regex_lib \<Rightarrow> file_system \<Rightarrow> string \<Rightarrow> string \<Rightarrow> bool \<Rightarrow> string list result" where
  "glob1 lib fs dirname pattern dironly =
     rbind (iter_directory fs dirname dironly) (\<lambda>names.
       filter_names lib (map path_filename (filter (\<lambda>n. \<not> is_hidden n) names)) pattern)"

definition glob0 :: "file_system \<Rightarrow> string \<Rightarrow> string \<Rightarrow> string list result" where
  "glob0 fs dirname basename =
     (if basename = [] then rbind (is_directory fs dirname) (\<lambda>d. Inr (if d then [basename] else []))
      else rbind (exists fs (path_append dirname basename)) (\<lambda>e. Inr (if e then [basename] else [])))"

section \<open>glob\<close>

definition glob_in_dir ::
    "regex_lib \<Rightarrow> file_system \<Rightarrow> bool \<Rightarrow> string \<Rightarrow> bool \<Rightarrow> string \<Rightarrow> string list result option" where
  "glob_in_dir lib fs rec basename dironly d =
     (if has_magic basename then
        (if rec \<and> is_recursive basename then glob2 fs d dironly else Some (glob1 lib fs d basename dironly))
      else Some (glob0 fs d basename))"

definition subresult :: "string \<Rightarrow> string \<Rightarrow> string" where
  "subresult d name = (if parent_path name = [] then path_append d name else name)"

fun in_dirs :: "(string \<Rightarrow> string list result option) \<Rightarrow> string list \<Rightarrow> string list result option" where
  "in_dirs f [] = Some (Inr [])"
| "in_dirs f (d # ds) =
     (case f d of
        None \<Rightarrow> None
      | Some (Inl e) \<Rightarrow> Some (Inl e)
      | Some (Inr names) \<Rightarrow> map_option (\<lambda>r. rbind r (\<lambda>rs. Inr (map (subresult d) names @ rs))) (in_dirs f ds))"

text \<open>Paths are compared by their components, so repeated separators count once.\<close>

fun squash :: "string \<Rightarrow> string" where
  "squash (c # d # s) = (if c = CHR ''/'' \<and> d = CHR ''/'' then squash (d # s) else c # squash (d # s))"
| "squash s = s"

definition glob_literal :: "file_system \<Rightarrow> string \<Rightarrow> string list result" where
  "glob_literal fs path =
     (if path_filename path \<noteq> [] then rbind (exists fs path) (\<lambda>e. Inr (if e then [path] else []))
      else rbind (is_directory fs (parent_path path)) (\<lambda>d. Inr (if d then [path] else [])))"

text \<open>\<open>assert(!dironly)\<close> ends the program where it fails.\<close>

partial_function (option) glob_rec ::
    "regex_lib \<Rightarrow> file_system \<Rightarrow> bool \<Rightarrow> string \<Rightarrow> bool \<Rightarrow> string list result option" where
  "glob_rec lib fs rec pathname dironly =
     (case (if pathname \<noteq> [] \<and> hd pathname = CHR ''~'' then expand_tilde fs pathname else Inr pathname) of
        Inl e \<Rightarrow> Some (Inl e)
      | Inr path \<Rightarrow>
          let dirname = parent_path path; basename = path_filename path
          in if \<not> has_magic pathname then
               (if dironly then Some (Inl Terminates) else Some (glob_literal fs path))
             else if dirname = [] then
               (if rec \<and> is_recursive basename then glob2 fs dirname dironly
                else Some (glob1 lib fs dirname basename dironly))
             else if squash dirname \<noteq> squash pathname \<and> has_magic dirname then
               Option.bind (glob_rec lib fs rec dirname True) (\<lambda>r.
                 case r of
                   Inl e \<Rightarrow> Some (Inl e)
                 | Inr dirs \<Rightarrow> in_dirs (glob_in_dir lib fs rec basename dironly) dirs)
             else in_dirs (glob_in_dir lib fs rec basename dironly) [dirname])"

definition glob :: "regex_lib \<Rightarrow> file_system \<Rightarrow> string \<Rightarrow> string list result option" where
  "glob lib fs pathname = glob_rec lib fs False pathname False"

definition rglob :: "regex_lib \<Rightarrow> file_system \<Rightarrow> string \<Rightarrow> string list result option" where
  "rglob lib fs pathname = glob_rec lib fs True pathname False"

fun glob_all :: "(string \<Rightarrow> string list result option) \<Rightarrow> string list \<Rightarrow> string list result option" where
  "glob_all f [] = Some (Inr [])"
| "glob_all f (p # ps) =
     (case f p of
        None \<Rightarrow> None
      | Some (Inl e) \<Rightarrow> Some (Inl e)
      | Some (Inr ms) \<Rightarrow> map_option (\<lambda>r. rbind r (\<lambda>rs. Inr (ms @ rs))) (glob_all f ps))"

definition glob_list :: "regex_lib \<Rightarrow> file_system \<Rightarrow> string list \<Rightarrow> string list result option" where
  "glob_list lib fs = glob_all (glob lib fs)"

definition rglob_list :: "regex_lib \<Rightarrow> file_system \<Rightarrow> string list \<Rightarrow> string list result option" where
  "rglob_list lib fs = glob_all (rglob lib fs)"

section \<open>The search ends\<close>

text \<open>No directory is found below itself: \<open>rank\<close> falls from a directory to what it lists.\<close>

definition no_cycle :: "file_system \<Rightarrow> (string \<Rightarrow> nat) \<Rightarrow> bool" where
  "no_cycle fs rank \<longleftrightarrow> (\<forall>b. falls (\<lambda>d. iter_directory fs d b) rank)"

lemma rlistdir_ends:
  assumes "no_cycle fs rank"
  shows "rlistdir fs d b \<noteq> None"
proof -
  have "falls (\<lambda>d. iter_directory fs d b) rank" using assms by (simp add: no_cycle_def)
  from walk_ends [OF this] show ?thesis by (auto simp: rlistdir_def split: sum.split)
qed

lemma in_dirs_ends: "(\<And>d. f d \<noteq> None) \<Longrightarrow> in_dirs f ds \<noteq> None"
proof (induction ds)
  case (Cons d ds)
  then obtain r where "f d = Some r" by blast
  with Cons show ?case by (cases r) simp_all
qed simp

lemma no_magic_slashes: "set p \<subseteq> {CHR ''/''} \<Longrightarrow> \<not> has_magic p"
  by (auto simp: has_magic_def list_ex_iff)

lemma strip_slashes_nil: "strip_slashes p = [] \<longleftrightarrow> set p \<subseteq> {CHR ''/''}"
  by (auto simp: strip_slashes_def dropWhile_eq_Nil_conv)

lemma strip_slashes_shorter:
  assumes "p \<noteq> []" "path_filename p = []"
  shows "length (strip_slashes p) < length p"
proof -
  obtain q c where p: "p = q @ [c]" using assms(1) by (cases p rule: rev_cases) auto
  with assms(2) have "c = CHR ''/''" by (simp add: path_filename_def split: if_splits)
  with p length_dropWhile_le [of "\<lambda>c. c = CHR ''/''" "rev q"] show ?thesis by (simp add: strip_slashes_def)
qed

lemma parent_path_magic:
  assumes "has_magic (parent_path p)"
  shows "parent_path p = strip_slashes (take (length p - length (path_filename p)) p)"
proof (cases "strip_slashes (take (length p - length (path_filename p)) p) = []")
  case True
  have "set p \<subseteq> {CHR ''/''}" if "path_filename p = []"
    using True that unfolding strip_slashes_nil by simp
  then have "set (parent_path p) \<subseteq> {CHR ''/''}" using True by (auto simp: parent_path_def Let_def)
  with assms no_magic_slashes show ?thesis by blast
next
  case False
  then show ?thesis by (simp add: parent_path_def Let_def)
qed

lemma has_magic_nonempty: "has_magic p \<Longrightarrow> p \<noteq> []"
  by (auto simp: has_magic_def)

lemma length_parent_path:
  assumes "has_magic (parent_path p)"
  shows "length (parent_path p) < length p"
proof -
  let ?n = "path_filename p"
  let ?d = "strip_slashes (take (length p - length ?n) p)"
  note d = parent_path_magic [OF assms]
  have "p \<noteq> []" using has_magic_nonempty [OF assms] unfolding d by (auto simp: strip_slashes_def)
  have "length ?d < length p"
  proof (cases "?n = []")
    case True
    with strip_slashes_shorter [OF \<open>p \<noteq> []\<close>] show ?thesis by simp
  next
    case False
    have "length ?d \<le> length p - length ?n" using length_strip_slashes [of "take (length p - length ?n) p"] by simp
    moreover have "0 < length p" "0 < length ?n" using False \<open>p \<noteq> []\<close> by simp_all
    ultimately show ?thesis by linarith
  qed
  with d show ?thesis by simp
qed

lemma strip_slashes_prefix: "\<exists>r. p = strip_slashes p @ r"
  unfolding strip_slashes_def
  by (rule exI [of _ "rev (takeWhile (\<lambda>c. c = CHR ''/'') (rev p))"]) (simp flip: rev_append)

lemma hd_parent_path:
  assumes "has_magic (parent_path p)"
  shows "hd (parent_path p) = hd p"
proof -
  let ?q = "take (length p - length (path_filename p)) p"
  obtain r where "?q = parent_path p @ r"
    using strip_slashes_prefix [of ?q] parent_path_magic [OF assms] by metis
  then have "p = parent_path p @ r @ drop (length p - length (path_filename p)) p"
    by (metis append.assoc append_take_drop_id)
  with has_magic_nonempty [OF assms] show ?thesis by (metis hd_append2)
qed

text \<open>C14. A search returns for every pathname that does not start with a tilde, recursive or not, if no
  directory is found below itself; without \<open>**\<close> that is not needed.\<close>

theorem glob_returns:
  assumes "pathname = [] \<or> hd pathname \<noteq> CHR ''~''" "rec \<longrightarrow> no_cycle fs rank"
  shows "\<exists>r. glob_rec lib fs rec pathname dironly = Some r"
  using assms
proof (induction pathname arbitrary: dironly rule: measure_induct_rule [where f = length])
  case (less pathname)
  let ?d = "parent_path pathname" and ?b = "path_filename pathname"
  have dir: "glob_in_dir lib fs rec ?b dironly d \<noteq> None" for d
    using less.prems(2) rlistdir_ends [of fs rank] by (simp add: glob_in_dir_def glob2_def del: not_None_eq)
  have two: "rec \<Longrightarrow> glob2 fs d dironly \<noteq> None" for d
    using less.prems(2) rlistdir_ends [of fs rank] by (simp add: glob2_def del: not_None_eq)
  have rest: "\<exists>r. glob_rec lib fs rec ?d True = Some r" if m: "has_magic ?d"
    using less.IH [OF length_parent_path [OF m], of True] less.prems hd_parent_path [OF m] length_parent_path [OF m]
    by fastforce
  have t: "(pathname \<noteq> [] \<and> hd pathname = CHR ''~'') = False" using less.prems(1) by blast
  have "glob_rec lib fs rec pathname dironly \<noteq> None"
  proof (cases "squash ?d \<noteq> squash pathname \<and> has_magic ?d")
    case True
    then obtain r where "glob_rec lib fs rec ?d True = Some r" using rest by blast
    with True two in_dirs_ends [OF dir] show ?thesis
      by (subst glob_rec.simps, simp only: t if_False sum.case Let_def)
        (cases r, simp_all del: not_None_eq in_dirs.simps)
  next
    case False
    with two in_dirs_ends [OF dir] show ?thesis
      by (subst glob_rec.simps, simp only: t if_False sum.case Let_def) (simp del: not_None_eq in_dirs.simps)
  qed
  then show ?case by blast
qed

definition night :: file_system where
  "night = \<lparr>exists = (\<lambda>p. Inr (p \<in> {''/d'', ''/d/m31.fits'', ''/d/m42.fits'', ''/d/notes''})),
     is_directory = (\<lambda>p. Inr (p = ''/d'')),
     entries = (\<lambda>p. if p = ''/d'' then Some [(''m31.fits'', Some False), (''.trash'', Some True), (''notes'', Some False),
        (''m42.fits'', Some False)] else None),
     relative = (\<lambda>p. Some (path_filename p)), current_path = ''/d'', env_user = None\<rparr>"

definition night_rank :: "string \<Rightarrow> nat" where
  "night_rank p = (if p = [] then 2 else if p = ''/d'' then 1 else 0)"

definition listed_below :: "string \<Rightarrow> bool \<Rightarrow> bool" where
  "listed_below d b \<longleftrightarrow> (case iter_directory night d b of Inl _ \<Rightarrow> True
     | Inr ys \<Rightarrow> list_all (\<lambda>y. night_rank y < night_rank d) ys)"

lemma night_falls: "no_cycle night night_rank"
proof -
  have "listed_below d b" for d b
  proof (cases "d = [] \<or> d = ''/d''")
    case True
    have "listed_below [] True" "listed_below [] False" "listed_below ''/d'' True" "listed_below ''/d'' False"
      by code_simp+
    with True show ?thesis by (cases b) auto
  next
    case False
    then show ?thesis by (simp add: listed_below_def iter_directory_def night_def)
  qed
  then have "iter_directory night d b = Inr ys \<Longrightarrow> y \<in> set ys \<Longrightarrow> night_rank y < night_rank d" for d b ys y
    by (metis (no_types, lifting) list_all_iff listed_below_def sum.case(2))
  then show ?thesis unfolding no_cycle_def falls_def by blast
qed

lemma glob_returns_witness:
  "\<exists>r. glob_rec no_classes night True ''/*/**'' False = Some r"
  using glob_returns [of "''/*/**''" True night night_rank no_classes False] night_falls by simp

section \<open>What a search lists\<close>

lemma filter_names_atoms:
  "list_all atom_ok as \<Longrightarrow> filter_names lib names (pattern_text as) =
     Inr (filter (\<lambda>n. atoms_match as n \<or> n \<in> {[CHR 0x0A], [CHR 0x0D]}) names)"
proof (induction names)
  case (Cons n names)
  then have "fnmatch lib n (pattern_text as) = Inr (atoms_match as n \<or> n \<in> {[CHR 0x0A], [CHR 0x0D]})"
    by (simp add: fnmatch_def compile_atoms match_pattern_re)
  with Cons show ?case by simp
qed simp

lemma subresult_plain:
  "d \<noteq> [] \<Longrightarrow> last d \<noteq> CHR ''/'' \<Longrightarrow> CHR ''/'' \<notin> set n \<Longrightarrow> subresult d n = d @ ''/'' @ n"
  by (cases n) (auto simp: subresult_def path_append_def is_absolute_def)

text \<open>C13. A pattern in a literal directory lists that directory: the names of its visible entries that
  match, each behind the directory, in the order of the directory.\<close>

theorem glob_directory:
  assumes "list_all atom_ok as" "has_magic (pattern_text as)" "CHR ''/'' \<notin> set (pattern_text as)"
    "d \<noteq> []" "hd d \<noteq> CHR ''~''" "last d \<noteq> CHR ''/''" "\<not> has_magic d" "rec \<longrightarrow> pattern_text as \<noteq> ''**''"
  shows "glob_rec lib fs rec (d @ ''/'' @ pattern_text as) False =
    Some (rbind (iter_directory fs d False) (\<lambda>ns.
      Inr (map (\<lambda>n. d @ ''/'' @ n)
        (filter (\<lambda>n. atoms_match as n \<or> n \<in> {[CHR 0x0A], [CHR 0x0D]})
          (map path_filename (filter (\<lambda>n. \<not> is_hidden n) ns))))))"
proof -
  let ?p = "pattern_text as"
  have f: "path_filename (d @ ''/'' @ ?p) = ?p" and q: "parent_path (d @ ''/'' @ ?p) = d"
    using assms(3,4,6) parent_path_append by simp_all
  have m: "has_magic (d @ ''/'' @ ?p)" using assms(2) by (simp add: has_magic_def)
  have t: "(d @ ''/'' @ ?p \<noteq> [] \<and> hd (d @ ''/'' @ ?p) = CHR ''~'') = False" using assms(4,5) by simp
  have g: "glob_in_dir lib fs rec ?p False = (\<lambda>d. Some (glob1 lib fs d ?p False))"
    using assms(2,8) by (intro ext) (auto simp: glob_in_dir_def is_recursive_def)
  have "glob_rec lib fs rec (d @ ''/'' @ ?p) False = in_dirs (\<lambda>d. Some (glob1 lib fs d ?p False)) [d]"
    using m assms(2,4,7,8)
    by (subst glob_rec.simps, simp only: t if_False sum.case Let_def f q g) (simp del: in_dirs.simps)
  also have "\<dots> = Some (rbind (iter_directory fs d False) (\<lambda>ns.
      Inr (map (subresult d) (filter (\<lambda>n. atoms_match as n \<or> n \<in> {[CHR 0x0A], [CHR 0x0D]})
          (map path_filename (filter (\<lambda>n. \<not> is_hidden n) ns))))))"
    by (cases "iter_directory fs d False") (simp_all add: glob1_def filter_names_atoms [OF assms(1)])
  also have "(\<lambda>ns. Inr (map (subresult d) (filter (\<lambda>n. atoms_match as n \<or> n \<in> {[CHR 0x0A], [CHR 0x0D]})
          (map path_filename (filter (\<lambda>n. \<not> is_hidden n) ns))))) =
      (\<lambda>ns. Inr (map (\<lambda>n. d @ ''/'' @ n) (filter (\<lambda>n. atoms_match as n \<or> n \<in> {[CHR 0x0A], [CHR 0x0D]})
          (map path_filename (filter (\<lambda>n. \<not> is_hidden n) ns)))))"
    using assms(4,6) by (intro ext arg_cong [of _ _ Inr] map_cong) (auto simp: subresult_plain path_filename_no_slash)
  finally show ?thesis .
qed

lemma glob_directory_witness:
  "glob_rec no_classes night False ''/d/m*.fits'' False = Some (Inr [''/d/m31.fits'', ''/d/m42.fits''])"
proof -
  let ?as = "[Lit (CHR ''m''), Star, Lit (CHR ''.''), Lit (CHR ''f''), Lit (CHR ''i''), Lit (CHR ''t''), Lit (CHR ''s'')]"
  have t: "pattern_text ?as = ''m*.fits''" by (simp add: pattern_text_def)
  have "list_all atom_ok ?as" by simp
  moreover have "has_magic (pattern_text ?as)" by (simp add: t has_magic_def)
  moreover have "CHR ''/'' \<notin> set (pattern_text ?as)" by (simp add: t)
  ultimately have "glob_rec no_classes night False (''/d'' @ ''/'' @ pattern_text ?as) False =
    Some (rbind (iter_directory night ''/d'' False) (\<lambda>ns.
      Inr (map (\<lambda>n. ''/d'' @ ''/'' @ n)
        (filter (\<lambda>n. atoms_match ?as n \<or> n \<in> {[CHR 0x0A], [CHR 0x0D]})
          (map path_filename (filter (\<lambda>n. \<not> is_hidden n) ns))))))"
    by (intro glob_directory) (simp_all add: has_magic_def)
  also have "\<dots> = Some (Inr [''/d/m31.fits'', ''/d/m42.fits''])" by code_simp
  finally show ?thesis by (simp add: t)
qed

end
