(* ===== verification/FileIO.thy ===== *)
theory FileIO
  imports Paths
begin

text \<open>
  The file manager of \<open>src/src/components/io/file.cpp\<close> and the path functions of
  \<open>src/src/components/io/io.cpp\<close>. The manager is modelled with the file system it changes: a name
  leads to a file (a number), a file has its contents, and an open stream keeps its file even when
  the name moves or goes. Whether the operating system carries out a request is an argument, and the
  MD5 function of OpenSSL is one. Devices have room.
\<close>

section \<open>The file manager\<close>

text \<open>\<open>stream\<close> is the file \<open>m_file\<close> has open with its position, \<open>bad\<close> its \<open>failbit\<close>.\<close>

record file_manager =
  names :: "string \<Rightarrow> nat option"
  contents :: "nat \<Rightarrow> string"
  fresh :: nat
  m_filename :: string
  stream :: "(nat \<times> nat) option"
  bad :: bool

definition FileManager :: "(string \<Rightarrow> nat option) \<Rightarrow> (nat \<Rightarrow> string) \<Rightarrow> nat \<Rightarrow> file_manager" where
  "FileManager ns cs k =
     \<lparr>names = ns, contents = cs, fresh = k, m_filename = [], stream = None, bad = False\<rparr>"

definition fileExists :: "file_manager \<Rightarrow> string \<Rightarrow> bool" where
  "fileExists m filename \<longleftrightarrow> names m filename \<noteq> None"

text \<open>\<open>again\<close>: the file just created can be opened a second time; \<open>fclose\<close> of a null pointer is undefined.\<close>

definition createFile :: "bool \<Rightarrow> bool \<Rightarrow> string \<Rightarrow> file_manager \<Rightarrow> (file_manager \<times> bool) result" where
  "createFile ok again filename m =
     (if fileExists m filename then Inr (m, False)
      else if \<not> ok then Inr (m, False)
      else if \<not> again then Inl NullDeref
      else Inr (m\<lparr>names := (names m)(filename \<mapsto> fresh m), contents := (contents m)(fresh m := []),
                  fresh := Suc (fresh m)\<rparr>, True))"

text \<open>Opening a stream that is open fails and leaves the old file open.\<close>

definition openFile :: "bool \<Rightarrow> string \<Rightarrow> file_manager \<Rightarrow> file_manager \<times> bool" where
  "openFile ok filename m =
     (case names m filename of
        None \<Rightarrow> (m, False)
      | Some i \<Rightarrow>
          let m = m\<lparr>m_filename := filename\<rparr>
          in if stream m \<noteq> None \<or> \<not> ok then (m\<lparr>bad := True\<rparr>, False)
             else (m\<lparr>stream := Some (i, 0), bad := False\<rparr>, True))"

text \<open>\<open>rdbuf()\<close> is read whatever the state of the stream. \<open>None\<close>: the argument is not assigned.\<close>

definition readFile :: "file_manager \<Rightarrow> file_manager \<times> string option" where
  "readFile m = (case stream m of
     None \<Rightarrow> (m, None)
   | Some (i, pos) \<Rightarrow>
       (m\<lparr>stream := Some (i, max pos (length (contents m i)))\<rparr>, Some (drop pos (contents m i))))"

text \<open>Output at a position replaces what is there.\<close>

definition overwrite :: "nat \<Rightarrow> string \<Rightarrow> string \<Rightarrow> string" where
  "overwrite pos s old = take pos old @ s @ drop (pos + length s) old"

definition writeFile :: "string \<Rightarrow> file_manager \<Rightarrow> file_manager \<times> bool" where
  "writeFile s m = (case stream m of
     None \<Rightarrow> (m, False)
   | Some (i, pos) \<Rightarrow>
       (if bad m then m
        else m\<lparr>contents := (contents m)(i := overwrite pos s (contents m i)), stream := Some (i, pos + length s)\<rparr>,
        True))"

definition moveFile :: "bool \<Rightarrow> string \<Rightarrow> string \<Rightarrow> file_manager \<Rightarrow> file_manager \<times> bool" where
  "moveFile ok oldFilename newFilename m =
     (if \<not> fileExists m oldFilename then (m, False)
      else if fileExists m newFilename then (m, False)
      else if \<not> ok then (m, False)
      else (m\<lparr>names := (names m)(newFilename := names m oldFilename, oldFilename := None)\<rparr>, True))"

definition deleteFile :: "bool \<Rightarrow> string \<Rightarrow> file_manager \<Rightarrow> file_manager \<times> bool" where
  "deleteFile ok filename m =
     (if \<not> fileExists m filename then (m, False)
      else if \<not> ok then (m, False)
      else (m\<lparr>names := (names m)(filename := None)\<rparr>, True))"

text \<open>Where \<open>failbit\<close> is set, \<open>seekg\<close> does nothing and \<open>tellg\<close> answers \<open>-1\<close>.\<close>

definition getFileSize :: "file_manager \<Rightarrow> file_manager \<times> int" where
  "getFileSize m = (case stream m of
     None \<Rightarrow> (m, - 1)
   | Some (i, pos) \<Rightarrow>
       if bad m then (m, - 1)
       else (m\<lparr>stream := Some (i, 0)\<rparr>, int (length (contents m i))))"

text \<open>
  The loop hands a buffer on only when \<open>read\<close> filled it; the read that reaches the end of the file
  sets \<open>failbit\<close>, and what it read is not used.
\<close>

function full_blocks :: "string \<Rightarrow> string list" where
  "full_blocks s = (if length s < 1024 then [] else take 1024 s # full_blocks (drop 1024 s))"
  by auto
termination
  by (relation "measure length") auto

declare full_blocks.simps [simp del]

text \<open>\<open>static_cast<int>(buffer[i])\<close> of a negative \<open>char\<close> prints as eight digits.\<close>

definition digest_byte :: "byte \<Rightarrow> string" where
  "digest_byte b =
     (if unat b < 128 then [] else ''ffffff'') @ [hex_char (unat b div 16), hex_char (unat b mod 16)]"

definition calculateMD5 :: "(string \<Rightarrow> byte list) \<Rightarrow> file_manager \<Rightarrow> file_manager \<times> string" where
  "calculateMD5 md5 m = (case stream m of
     None \<Rightarrow> (m, [])
   | Some (i, pos) \<Rightarrow>
       let blocks = (if bad m then [] else full_blocks (drop pos (contents m i)))
       in (if bad m then m
           else m\<lparr>bad := True, stream := Some (i, max pos (length (contents m i)))\<rparr>,
           concat (map digest_byte (md5 (concat blocks)))))"

definition getFileDirectory :: "string \<Rightarrow> string" where
  "getFileDirectory filename =
     (case find_last_of [CHR ''/'', CHR 0x5C] filename of
        None \<Rightarrow> []
      | Some pos \<Rightarrow> take pos filename)"

section \<open>Paths of two systems\<close>

definition islower :: "char \<Rightarrow> bool" where
  "islower c \<longleftrightarrow> (let n = (of_char c :: nat) in 97 \<le> n \<and> n \<le> 122)"

definition isupper :: "char \<Rightarrow> bool" where
  "isupper c \<longleftrightarrow> (let n = (of_char c :: nat) in 65 \<le> n \<and> n \<le> 90)"

definition tolower :: "char \<Rightarrow> char" where
  "tolower c = (if isupper c then char_of ((of_char c :: nat) + 32) else c)"

definition toupper :: "char \<Rightarrow> char" where
  "toupper c = (if islower c then char_of ((of_char c :: nat) - 32) else c)"

definition convert_windows_to_linux_path :: "string \<Rightarrow> string" where
  "convert_windows_to_linux_path windows_path =
     (let linux_path = map (\<lambda>c. if c = CHR 0x5C then CHR ''/'' else c) windows_path
      in if 2 \<le> length linux_path \<and> linux_path ! 1 = CHR '':'' then linux_path[0 := tolower (linux_path ! 0)]
         else linux_path)"

definition convert_linux_to_windows_path :: "string \<Rightarrow> string" where
  "convert_linux_to_windows_path linux_path =
     (let windows_path = map (\<lambda>c. if c = CHR ''/'' then CHR 0x5C else c) linux_path
      in if 2 \<le> length windows_path \<and> islower (windows_path ! 0) \<and> windows_path ! 1 = CHR '':''
         then windows_path[0 := toupper (windows_path ! 0)]
         else windows_path)"

text \<open>\<open>PATH_SEPARATOR\<close> is \<open>"/"\<close>.\<close>

definition normalize_path :: "string \<Rightarrow> string" where
  "normalize_path path =
     map (\<lambda>c. if c = CHR 0x5C then CHR ''/'' else c) (map (\<lambda>c. if c = CHR ''/'' then CHR ''/'' else c) path)"

text \<open>\<open>subdirectories\<close>: the entries of a directory that are directories; an error is thrown.\<close>

definition traverse_directories ::
    "(string \<Rightarrow> string list result) \<Rightarrow> string \<Rightarrow> string list \<Rightarrow> string list result option" where
  "traverse_directories subdirectories directory folders =
     (case subdirectories directory of
        Inl e \<Rightarrow> Some (Inl e)
      | Inr ds \<Rightarrow> map_option (\<lambda>r. rbind r (\<lambda>fs. Inr (folders @ map normalize_path fs)))
                    (walk (\<lambda>_. False) subdirectories ds []))"

section \<open>Writing and reading back\<close>

lemma length_overwrite: "pos \<le> length old \<Longrightarrow> length (overwrite pos s old) = max (length old) (pos + length s)"
  by (auto simp: overwrite_def)

lemma overwrite_behind: "pos \<le> length old \<Longrightarrow> drop (pos + length s) (overwrite pos s old) = drop (pos + length s) old"
  by (simp add: overwrite_def)

text \<open>A file that is opened and written to is overwritten from its start: asking for its size rewinds
  it, and reading then gives what was written followed by the rest of what was there; read at once, it
  gives only that rest.\<close>

theorem file_written_and_read:
  assumes "names m f = Some i" "stream m = None"
  shows "(\<exists>m1 m2 m3. openFile True f m = (m1, True) \<and> writeFile s m1 = (m2, True) \<and>
      getFileSize m2 = (m3, int (max (length (contents m i)) (length s))) \<and>
      snd (readFile m2) = Some (drop (length s) (contents m i)) \<and>
      snd (readFile m3) = Some (s @ drop (length s) (contents m i)) \<and>
      (\<forall>j. j \<noteq> i \<longrightarrow> contents m3 j = contents m j))"
  using assms overwrite_behind [of 0 "contents m i" s] length_overwrite [of 0 "contents m i" s]
  by (simp add: openFile_def writeFile_def getFileSize_def readFile_def)
    (simp add: overwrite_def)

lemma file_written_and_read_witness:
  "snd (readFile (fst (getFileSize (fst (writeFile ''ab'' (fst (openFile True ''f''
     (FileManager [''f'' \<mapsto> 0] (\<lambda>_. ''wxyz'') 1)))))))) = Some ''abyz''"
  using file_written_and_read [of "FileManager [''f'' \<mapsto> 0] (\<lambda>_. ''wxyz'') 1" "''f''" 0 "''ab''"]
  by (auto simp: FileManager_def)

section \<open>A stream that failed once\<close>

datatype file_call =
    Create bool bool string | Open bool string | Read | Write string | Move bool string string
  | Delete bool string | Size | Md5

fun file_do :: "(string \<Rightarrow> byte list) \<Rightarrow> file_call \<Rightarrow> file_manager \<Rightarrow> file_manager result" where
  "file_do md5 (Create ok again f) m = rbind (createFile ok again f m) (\<lambda>(m', b). Inr m')"
| "file_do md5 (Open ok f) m = Inr (fst (openFile ok f m))"
| "file_do md5 Read m = Inr (fst (readFile m))"
| "file_do md5 (Write s) m = Inr (fst (writeFile s m))"
| "file_do md5 (Move ok a b) m = Inr (fst (moveFile ok a b m))"
| "file_do md5 (Delete ok f) m = Inr (fst (deleteFile ok f m))"
| "file_do md5 Size m = Inr (fst (getFileSize m))"
| "file_do md5 Md5 m = Inr (fst (calculateMD5 md5 m))"

fun file_run :: "(string \<Rightarrow> byte list) \<Rightarrow> file_call list \<Rightarrow> file_manager \<Rightarrow> file_manager result" where
  "file_run md5 [] m = Inr m"
| "file_run md5 (c # cs) m = rbind (file_do md5 c m) (file_run md5 cs)"

lemmas file_ops = createFile_def openFile_def readFile_def writeFile_def moveFile_def deleteFile_def
  getFileSize_def calculateMD5_def Let_def

definition broken :: "nat \<Rightarrow> file_manager \<Rightarrow> bool" where
  "broken i m \<longleftrightarrow> (\<exists>pos. stream m = Some (i, pos)) \<and> bad m \<and> i < fresh m"

lemma broken_do:
  assumes "file_do md5 c m = Inr m'" "broken i m"
  shows "broken i m' \<and> contents m' i = contents m i"
  using assms by (cases c) (auto simp: file_ops broken_def split: if_splits option.splits)

lemma broken_run:
  "file_run md5 cs m = Inr m' \<Longrightarrow> broken i m \<Longrightarrow> broken i m' \<and> contents m' i = contents m i"
proof (induction cs arbitrary: m)
  case (Cons c cs)
  then obtain m1 where "file_do md5 c m = Inr m1" "file_run md5 cs m1 = Inr m'"
    by (auto simp: rbind_Inr_iff)
  with Cons.IH [of m1] broken_do [of md5 c m m1 i] Cons.prems(2) show ?case by simp
qed simp

text \<open>After one checksum of an open file, or one attempt to open a second file, every later call leaves
  the manager's file as it is, while writing still answers true; asked for the size it answers -1.\<close>

theorem file_broken_for_good:
  assumes "stream m = Some (i, pos)" "i < fresh m"
    "m1 = fst (calculateMD5 md5 m) \<or> m1 = fst (openFile ok f m) \<and> fileExists m f"
    "file_run md5 cs m1 = Inr m2"
  shows "contents m2 i = contents m i \<and> snd (writeFile s m2) \<and> contents (fst (writeFile s m2)) = contents m2 \<and>
    snd (getFileSize m2) = - 1"
proof -
  have "broken i m1 \<and> contents m1 i = contents m i"
    using assms(1-3) by (auto simp: file_ops broken_def fileExists_def)
  with broken_run [OF assms(4)] have "broken i m2" "contents m2 i = contents m i" by simp_all
  then show ?thesis by (auto simp: broken_def writeFile_def getFileSize_def)
qed

lemma file_broken_for_good_witness:
  "\<exists>m2. file_run (\<lambda>_. []) [Open True ''f'', Md5, Write ''ab'', Open True ''f'', Write ''cd'']
     (FileManager [''f'' \<mapsto> 0] (\<lambda>_. ''wxyz'') 1) = Inr m2 \<and> contents m2 0 = ''wxyz'' \<and> snd (writeFile ''ef'' m2)"
proof -
  let ?m = "fst (openFile True ''f'' (FileManager [''f'' \<mapsto> 0] (\<lambda>_. ''wxyz'') 1))"
  have 1: "stream ?m = Some (0, 0)" "0 < fresh ?m" "contents ?m 0 = ''wxyz''"
    by (simp_all add: FileManager_def openFile_def)
  obtain m2 where 2: "file_run (\<lambda>_. []) [Write ''ab'', Open True ''f'', Write ''cd''] (fst (calculateMD5 (\<lambda>_. []) ?m)) = Inr m2"
    by simp
  from file_broken_for_good [OF 1(1,2) disjI1 [OF refl] 2, of "''ef''"] 1(3) 2 show ?thesis by simp
qed

section \<open>The checksum\<close>

lemma full_blocks_concat: "concat (full_blocks s) = take (1024 * (length s div 1024)) s"
proof (induction s rule: full_blocks.induct)
  case (1 s)
  show ?case
  proof (cases "length s < 1024")
    case True
    then show ?thesis by (subst full_blocks.simps) simp
  next
    case False
    then have "length s div 1024 = Suc ((length s - 1024) div 1024)" by (intro le_div_geq) simp_all
    moreover have "take (1024 + k) s = take 1024 s @ take k (drop 1024 s)" for k by (rule take_add)
    ultimately show ?thesis using 1 [OF False] False by (subst full_blocks.simps) simp
  qed
qed

text \<open>The checksum is that of the whole blocks of 1024 bytes only: the rest of the file does not count,
  so all files shorter than a block get the checksum of the empty file. Its text has 32 digits only if
  every byte of the digest is less than 128; each other byte adds six.\<close>

theorem checksum_ignores_rest:
  assumes "stream m = Some (i, pos)" "\<not> bad m"
  shows "snd (calculateMD5 md5 m) = concat (map digest_byte
      (md5 (take (1024 * (length (drop pos (contents m i)) div 1024)) (drop pos (contents m i))))) \<and>
    length (snd (calculateMD5 md5 m)) =
      2 * length (md5 (take (1024 * (length (drop pos (contents m i)) div 1024)) (drop pos (contents m i)))) +
      6 * length (filter (\<lambda>b. 128 \<le> unat b)
        (md5 (take (1024 * (length (drop pos (contents m i)) div 1024)) (drop pos (contents m i)))))"
proof -
  have "length (concat (map digest_byte bs)) = 2 * length bs + 6 * length (filter (\<lambda>b. 128 \<le> unat b) bs)" for bs
    by (induction bs) (auto simp: digest_byte_def)
  then show ?thesis using assms by (simp add: calculateMD5_def full_blocks_concat Let_def)
qed

lemma checksum_ignores_rest_witness:
  "snd (calculateMD5 (\<lambda>s. [of_nat (length s), 200]) (fst (openFile True ''f'' (FileManager [''f'' \<mapsto> 0] (\<lambda>_. ''wxyz'') 1)))) =
     ''00ffffffc8''"
proof -
  let ?m = "fst (openFile True ''f'' (FileManager [''f'' \<mapsto> 0] (\<lambda>_. ''wxyz'') 1))"
  have "stream ?m = Some (0, 0)" "\<not> bad ?m" "contents ?m 0 = ''wxyz''" by (simp_all add: FileManager_def openFile_def)
  from checksum_ignores_rest [OF this(1,2), of "\<lambda>s. [of_nat (length s), 200]", THEN conjunct1] this(3)
  have "snd (calculateMD5 (\<lambda>s. [of_nat (length s), 200]) ?m) = concat (map digest_byte [0, 200])" by simp
  also have "\<dots> = ''00ffffffc8''" by code_simp
  finally show ?thesis .
qed

section \<open>Converting paths there and back\<close>

lemma islower_tolower: "isupper c \<Longrightarrow> islower (tolower c) \<and> tolower c \<noteq> c \<and> toupper (tolower c) = c"
proof -
  assume u: "isupper c"
  then have n: "(of_char c :: nat) + 32 < 256" "(of_char (tolower c) :: nat) = of_char c + 32"
    by (auto simp: isupper_def tolower_def Let_def)
  with u have "islower (tolower c)" by (auto simp: isupper_def islower_def Let_def)
  moreover from n have "tolower c \<noteq> c" by auto
  moreover have "toupper (tolower c) = char_of (of_char c :: nat)"
    using calculation(1) n by (simp add: toupper_def)
  ultimately show ?thesis by simp
qed

lemma isupper_toupper: "islower c \<Longrightarrow> isupper (toupper c) \<and> toupper c \<noteq> c \<and> tolower (toupper c) = c"
proof -
  assume l: "islower c"
  then have n: "32 \<le> (of_char c :: nat)" "(of_char (toupper c) :: nat) = of_char c - 32"
    by (auto simp: islower_def toupper_def Let_def)
  with l have "isupper (toupper c)" by (auto simp: isupper_def islower_def Let_def)
  moreover from n have "toupper c \<noteq> c" by auto
  moreover have "tolower (toupper c) = char_of (of_char c :: nat)"
    using calculation(1) n by (simp add: tolower_def)
  ultimately show ?thesis by simp
qed

lemma not_both_cases: "\<not> (islower c \<and> isupper c)"
  by (auto simp: islower_def isupper_def Let_def)

lemma separators_no_letters:
  "\<not> islower (CHR ''/'')" "\<not> isupper (CHR ''/'')" "\<not> islower (CHR 0x5C)" "\<not> isupper (CHR 0x5C)"
  by (simp_all add: islower_def isupper_def)

lemma map_swap_id: "a \<noteq> b \<Longrightarrow>
  map (\<lambda>c. if c = a then b else c) (map (\<lambda>c. if c = b then a else c) p) = p \<longleftrightarrow> a \<notin> set p"
  by (induction p) auto

definition drive :: "string \<Rightarrow> bool" where
  "drive p \<longleftrightarrow> 2 \<le> length p \<and> p ! 1 = CHR '':''"

lemma drive_conversions:
  "convert_linux_to_windows_path (c # CHR '':'' # q) =
     (let d = (if c = CHR ''/'' then CHR 0x5C else c) in if islower d then toupper d else d) # CHR '':'' #
       map (\<lambda>c. if c = CHR ''/'' then CHR 0x5C else c) q"
  "convert_windows_to_linux_path (c # CHR '':'' # q) =
     tolower (if c = CHR 0x5C then CHR ''/'' else c) # CHR '':'' # map (\<lambda>c. if c = CHR 0x5C then CHR ''/'' else c) q"
  by (simp_all add: convert_windows_to_linux_path_def convert_linux_to_windows_path_def Let_def)

text \<open>Converting a path to the other system and back gives the path exactly if it has no separator of
  the other system and its drive letter, if any, has the case of its own system.\<close>

theorem path_conversions:
  "(convert_windows_to_linux_path (convert_linux_to_windows_path p) = p \<longleftrightarrow>
      CHR 0x5C \<notin> set p \<and> \<not> (drive p \<and> isupper (p ! 0))) \<and>
   (convert_linux_to_windows_path (convert_windows_to_linux_path p) = p \<longleftrightarrow>
      CHR ''/'' \<notin> set p \<and> \<not> (drive p \<and> islower (p ! 0)))"
proof (cases "drive p")
  case False
  then show ?thesis
    using map_swap_id [of "CHR 0x5C" "CHR ''/''" p] map_swap_id [of "CHR ''/''" "CHR 0x5C" p]
    by (auto simp: convert_windows_to_linux_path_def convert_linux_to_windows_path_def drive_def Let_def)
next
  case True
  then obtain c q where p: "p = c # CHR '':'' # q"
    by (cases p; cases "tl p") (auto simp: drive_def)
  let ?w = "\<lambda>c. if c = CHR ''/'' then CHR 0x5C else c" and ?l = "\<lambda>c. if c = CHR 0x5C then CHR ''/'' else c"
  have c1: "tolower (?l (if islower (?w c) then toupper (?w c) else ?w c)) = c \<longleftrightarrow> c \<noteq> CHR 0x5C \<and> \<not> isupper c"
    using islower_tolower [of c] isupper_toupper [of c] not_both_cases [of c] separators_no_letters
    by (cases "islower c"; cases "isupper c") (auto simp: tolower_def)
  have c2: "(if islower (?w (tolower (?l c))) then toupper (?w (tolower (?l c))) else ?w (tolower (?l c))) = c \<longleftrightarrow>
      c \<noteq> CHR ''/'' \<and> \<not> islower c"
    using islower_tolower [of c] isupper_toupper [of c] not_both_cases [of c] separators_no_letters
    by (cases "islower c"; cases "isupper c") (auto simp: tolower_def)
  have "convert_windows_to_linux_path (convert_linux_to_windows_path p) =
      tolower (?l (if islower (?w c) then toupper (?w c) else ?w c)) # CHR '':'' # map ?l (map ?w q)"
    "convert_linux_to_windows_path (convert_windows_to_linux_path p) =
      (if islower (?w (tolower (?l c))) then toupper (?w (tolower (?l c))) else ?w (tolower (?l c))) #
        CHR '':'' # map ?w (map ?l q)"
    by (simp_all only: p drive_conversions Let_def)
  then show ?thesis
    using True c1 c2 map_swap_id [of "CHR 0x5C" "CHR ''/''" q] map_swap_id [of "CHR ''/''" "CHR 0x5C" q]
    by (simp add: p) blast
qed

end
