(* ===== verification/TimeSync.thy ===== *)
theory TimeSync
  imports Prelude "HOL-Library.Signed_Division"
begin

unbundle bit_operations_syntax

text \<open>
  The time functions of \<open>src/src/components/network/time.cpp\<close>, in their version for Linux. What the
  operating system and the network answer are arguments, \<open>mktime\<close> of the C library is one, and so is
  what a local variable holds that is read before it is written.
\<close>

section \<open>Time from a server\<close>

text \<open>
  \<open>descriptor\<close> is what \<open>socket\<close> returns, \<open>sent\<close> and \<open>ready\<close> whether \<open>sendto\<close> succeeds and \<open>select\<close>
  finds something to read, \<open>reply\<close> what \<open>recvfrom\<close> puts into the buffer.
\<close>

record ntp_network =
  descriptor :: int
  sent :: bool
  ready :: bool
  reply :: "byte list option"

definition NTP_PACKET_SIZE :: nat where
  "NTP_PACKET_SIZE = 48"

definition request_packet :: "byte list" where
  "request_packet = [0xE3, 0, 6, 0xEC] @ replicate 8 0 @ [49, 0x4E, 49, 52] @ replicate 32 0"

text \<open>A datagram replaces the start of the buffer; what does not fit is lost.\<close>

definition received :: "byte list \<Rightarrow> byte list" where
  "received d = take NTP_PACKET_SIZE d @ drop (length d) request_packet"

definition packet_time :: "byte list \<Rightarrow> 64 word" where
  "packet_time p = foldl (\<lambda>t i. push_bit 8 t OR ucast (p ! i)) 0 [40, 41, 42, 43] - 2208988800"

text \<open>The time and whether a socket stays open.\<close>

definition getNtpTime :: "ntp_network \<Rightarrow> 64 word \<times> bool" where
  "getNtpTime n =
     (if descriptor n < 0 then (0, False)
      else if \<not> sent n then (0, True)
      else if \<not> ready n then (0, True)
      else case reply n of
        None \<Rightarrow> (0, True)
      | Some d \<Rightarrow> (packet_time (received d), False))"

section \<open>The clock\<close>

text \<open>Nothing is set: only the message depends on the arguments.\<close>

datatype set_message = PermissionDenied | NoSuchTime | HasBeenSet | NotSet

definition setSystemTime ::
    "(int list \<Rightarrow> int) \<Rightarrow> int \<Rightarrow> int \<Rightarrow> int \<Rightarrow> int \<Rightarrow> int \<Rightarrow> int \<Rightarrow> int \<Rightarrow> int \<Rightarrow> set_message" where
  "setSystemTime mktime euid now year month day hour minute second =
     (let t = mktime [year - 1900, month - 1, day, hour, minute, second, - 1]
      in if euid \<noteq> 0 then PermissionDenied
         else if t = - 1 then NoSuchTime
         else if abs (now - t) < 2 then HasBeenSet else NotSet)"

text \<open>\<open>>>\<close> into an \<open>int\<close>: blanks, a sign, digits. What is left of a text that holds no number is not read.\<close>

definition digit :: "char \<Rightarrow> bool" where
  "digit c \<longleftrightarrow> (48 :: nat) \<le> of_char c \<and> (of_char c :: nat) \<le> 57"

definition blank :: "char \<Rightarrow> bool" where
  "blank c \<longleftrightarrow> c = CHR '' '' \<or> (9 :: nat) \<le> of_char c \<and> (of_char c :: nat) \<le> 13"

definition digits_value :: "string \<Rightarrow> int" where
  "digits_value ds = foldl (\<lambda>n c. 10 * n + (of_char c - 48)) 0 ds"

definition read_int :: "string \<Rightarrow> (int \<times> string) option" where
  "read_int s =
     (let s = dropWhile blank s;
          neg = (s \<noteq> [] \<and> hd s = CHR ''-'');
          s = (if s \<noteq> [] \<and> hd s \<in> set ''+-'' then tl s else s);
          ds = takeWhile digit s; v = (if neg then - digits_value ds else digits_value ds)
      in if ds = [] \<or> v < - 2147483648 \<or> v > 2147483647 then None else Some (v, dropWhile digit s))"

text \<open>
  Reading into variables one after the other: the first failure stores 0, and what follows keeps what
  the stack holds. (A number out of range stores a limit; such a file is not considered.)
\<close>

fun read_fields :: "int list \<Rightarrow> string \<Rightarrow> int list" where
  "read_fields [] s = []"
| "read_fields (g # gs) s =
     (case read_int s of
        None \<Rightarrow> 0 # gs
      | Some (v, t) \<Rightarrow> v # read_fields gs t)"

record rtc_environment =
  is_regular :: "bool option"
  rtc_text :: "string option"
  stack :: "int list"
  isdst :: int
  clock_now :: int
  tv_sec :: int
  tv_usec :: int
  settimeofday :: "int \<times> int \<Rightarrow> bool"

text \<open>The microseconds are computed in 64 bits and cut to 32.\<close>

definition us_offset :: "int \<Rightarrow> int \<Rightarrow> int" where
  "us_offset t rtc_timestamp = wrap32 (t * 1000000 - rtc_timestamp * 1000000)"

definition adjusted :: "int \<Rightarrow> int \<times> int \<Rightarrow> int \<times> int" where
  "adjusted us tv =
     (let s = fst tv + us sdiv 1000000; u = snd tv + us smod 1000000
      in if u \<ge> 1000000 then (s + 1, u - 1000000) else (s, u))"

text \<open>The answer and what the clock is set to.\<close>

definition SyncTimeFromRTC :: "(int list \<Rightarrow> int) \<Rightarrow> rtc_environment \<Rightarrow> bool \<times> (int \<times> int) option" where
  "SyncTimeFromRTC mktime e =
     (if is_regular e = None then (False, None)
      else if is_regular e = Some False then (False, None)
      else case rtc_text e of
        None \<Rightarrow> (False, None)
      | Some text \<Rightarrow>
          (case read_fields (stack e) text of
             [year, month, day, hour, minute, second] \<Rightarrow>
               (let rtc = mktime [year - 1900, month - 1, day, hour, minute, second, isdst e];
                    tv = adjusted (us_offset (clock_now e) rtc) (tv_sec e, tv_usec e)
                in if fst tv < clock_now e - 60 \<or> fst tv > clock_now e + 60 then (False, None)
                   else if \<not> settimeofday e tv then (False, None)
                   else (True, Some tv))
           | _ \<Rightarrow> (False, None)))"

section \<open>What the server's time becomes\<close>

definition be32 :: "byte list \<Rightarrow> int" where
  "be32 bs = foldl (\<lambda>n b. 256 * n + uint b) 0 bs"

lemma shift_or_byte:
  fixes t :: "64 word" and b :: byte
  assumes "uint t < 2 ^ 56"
  shows "uint (push_bit 8 t OR ucast b) = 256 * uint t + uint b"
proof -
  have "push_bit 8 t AND (ucast b :: 64 word) = 0"
    by (rule bit_word_eqI) (auto simp: bit_simps dest: bit_imp_le_length)
  then have "push_bit 8 t OR ucast b = push_bit 8 t + (ucast b :: 64 word)"
    by (rule disjunctive_add_eq_or [symmetric])
  moreover have "uint (push_bit 8 t) = 256 * uint t"
    using assms by (simp add: push_bit_eq_mult uint_mult_lem uint_word_ariths)
  moreover have "uint b < 256" using unsigned_less [of b] by simp
  moreover from this have "uint (ucast b :: 64 word) = uint b"
    by (simp add: unsigned_ucast_eq take_bit_int_eq_self)
  ultimately show ?thesis
    using assms unsigned_less [of b] by (simp add: uint_word_ariths)
qed

lemma received_nth: "i < 44 \<Longrightarrow> 44 \<le> length d \<Longrightarrow> received d ! i = d ! i"
  by (simp add: received_def NTP_PACKET_SIZE_def nth_append)

lemma sint_minus_epoch:
  fixes w :: "64 word"
  assumes "uint w < 4294967296"
  shows "sint (w - 2208988800) = uint w - 2208988800"
proof -
  have "0 \<le> uint w" by simp
  have w: "w - 2208988800 = word_of_int (uint w - 2208988800)" by simp
  show ?thesis unfolding w using assms \<open>0 \<le> uint w\<close>
    by (simp only: sint_sbintrunc' signed_take_bit_int_eq_self)
      (subst signed_take_bit_int_eq_self; simp)
qed

lemma packet_time_be32:
  assumes "44 \<le> length d"
  shows "sint (packet_time (received d)) = be32 (take 4 (drop 40 d)) - 2208988800"
proof -
  obtain a b c e where abce: "received d ! 40 = a" "received d ! 41 = b" "received d ! 42 = c" "received d ! 43 = e"
    by simp
  have "take 4 (drop 40 d) = [a, b, c, e]"
    using assms abce by (intro nth_equalityI) (auto simp: received_nth less_Suc_eq numeral_eq_Suc)
  then have v: "be32 (take 4 (drop 40 d)) = 256 * (256 * (256 * uint a + uint b) + uint c) + uint e"
    by (simp add: be32_def)
  let ?w = "\<lambda>t (x :: byte). push_bit 8 t OR ucast x :: 64 word"
  have r: "uint a < 256" "uint b < 256" "uint c < 256" "uint e < 256"
    using unsigned_less [of a] unsigned_less [of b] unsigned_less [of c] unsigned_less [of e] by simp_all
  have 1: "uint (?w 0 a) = uint a" using shift_or_byte [of 0 a] by simp
  have 2: "uint (?w (?w 0 a) b) = 256 * uint a + uint b" using shift_or_byte [of "?w 0 a" b] 1 r by simp
  have 3: "uint (?w (?w (?w 0 a) b) c) = 256 * (256 * uint a + uint b) + uint c"
    using shift_or_byte [of "?w (?w 0 a) b" c] 2 r by simp
  have 4: "uint (?w (?w (?w (?w 0 a) b) c) e) = be32 (take 4 (drop 40 d))"
    using shift_or_byte [of "?w (?w (?w 0 a) b) c" e] 3 r v by simp
  have "packet_time (received d) = ?w (?w (?w (?w 0 a) b) c) e - 2208988800"
    by (simp add: packet_time_def abce)
  moreover have "be32 (take 4 (drop 40 d)) < 4294967296" using v r by simp
  ultimately show ?thesis using 4 sint_minus_epoch by simp
qed

text \<open>C16. The time of a reply is that of its seconds field, which counts from 1900 modulo \<open>2 ^ 32\<close>: right
  for every moment from 1970 to February 2036 and 136 years early from then on. The socket is closed
  exactly when a reply came.\<close>

theorem ntp_time:
  assumes "descriptor n \<ge> 0" "sent n" "ready n" "reply n = Some d" "44 \<le> length d"
    "be32 (take 4 (drop 40 d)) = (t + 2208988800) mod 2 ^ 32"
  shows "sint (fst (getNtpTime n)) = t - 2 ^ 32 * ((t + 2208988800) div 2 ^ 32) \<and>
    (0 \<le> t \<and> t < 2085978496 \<longrightarrow> sint (fst (getNtpTime n)) = t) \<and>
    (\<forall>m. 0 \<le> descriptor m \<longrightarrow> (snd (getNtpTime m) \<longleftrightarrow> \<not> (sent m \<and> ready m \<and> reply m \<noteq> None)))"
proof (intro conjI allI impI)
  have "sint (fst (getNtpTime n)) = (t + 2208988800) mod 2 ^ 32 - 2208988800"
    using assms packet_time_be32 [OF assms(5)] by (simp add: getNtpTime_def)
  also have "\<dots> = t - 2 ^ 32 * ((t + 2208988800) div 2 ^ 32)"
    by (simp add: minus_div_mult_eq_mod [symmetric])
  finally show e: "sint (fst (getNtpTime n)) = t - 2 ^ 32 * ((t + 2208988800) div 2 ^ 32)" .
  show "sint (fst (getNtpTime n)) = t" if "0 \<le> t \<and> t < 2085978496"
    using that unfolding e by simp
  show "snd (getNtpTime m) \<longleftrightarrow> \<not> (sent m \<and> ready m \<and> reply m \<noteq> None)" if "0 \<le> descriptor m" for m
    using that by (auto simp: getNtpTime_def split: option.splits)
qed

lemma ntp_time_witness:
  "sint (fst (getNtpTime \<lparr>descriptor = 3, sent = True, ready = True,
      reply = Some (replicate 40 0 @ [0, 0, 0, 16] @ replicate 4 0)\<rparr>)) = - 2208988784"
  using ntp_time [of "\<lparr>descriptor = 3, sent = True, ready = True,
      reply = Some (replicate 40 0 @ [0, 0, 0, 16] @ replicate 4 0)\<rparr>"
      "replicate 40 0 @ [0, 0, 0, 16] @ replicate 4 0" "2085978512"]
  by (simp add: be32_def)

section \<open>What synchronising does to the clock\<close>

lemma adjusted_whole_seconds:
  assumes "0 \<le> u" "u < 1000000"
  shows "adjusted (d * 1000000) (t, u) = (t + d, u)"
proof -
  have "d * 1000000 sdiv 1000000 = d"
    by (simp add: signed_divide_int_def abs_mult sgn_mult mult_sgn_abs)
  moreover from this have "d * 1000000 smod 1000000 = 0"
    by (simp add: signed_modulo_int_def)
  ultimately show ?thesis using assms by (simp add: adjusted_def Let_def)
qed

text \<open>A call that sets the clock, where both clocks show the same fraction of a second and the deviation
  is less than 35 minutes, has moved it by the deviation away from the hardware clock: the deviation
  is twice what it was. A deviation of more than a minute is refused.\<close>

theorem synchronising_doubles_deviation:
  assumes "is_regular e = Some True" "rtc_text e = Some text"
    "read_fields (stack e) text = [year, month, day, hour, minute, second]"
    "rtc = mktime [year - 1900, month - 1, day, hour, minute, second, isdst e]"
    "tv_sec e = clock_now e" "0 \<le> tv_usec e" "tv_usec e < 1000000"
    "\<bar>clock_now e - rtc\<bar> < 2147"
  shows "SyncTimeFromRTC mktime e =
    (if \<bar>clock_now e - rtc\<bar> \<le> 60 \<and> settimeofday e (rtc + 2 * (clock_now e - rtc), tv_usec e)
     then (True, Some (rtc + 2 * (clock_now e - rtc), tv_usec e)) else (False, None))"
proof -
  have o: "us_offset (clock_now e) rtc = (clock_now e - rtc) * 1000000"
    unfolding us_offset_def using assms(8) by (subst wrap32_id) (auto simp: left_diff_distrib)
  have a: "adjusted (us_offset (clock_now e) rtc) (tv_sec e, tv_usec e) =
      (rtc + 2 * (clock_now e - rtc), tv_usec e)"
    unfolding o adjusted_whole_seconds [OF assms(6,7)] using assms(5) by simp
  show ?thesis
    using assms(1-3) unfolding SyncTimeFromRTC_def
    by (auto simp: assms(4) [symmetric] a Let_def abs_le_iff)
qed

definition midnight :: rtc_environment where
  "midnight = \<lparr>is_regular = Some True, rtc_text = Some ''2023 7 1 0 0 0'', stack = [9, 9, 9, 9, 9, 9], isdst = 0,
     clock_now = 1030, tv_sec = 1030, tv_usec = 5, settimeofday = (\<lambda>_. True)\<rparr>"

lemma synchronising_doubles_deviation_witness:
  "SyncTimeFromRTC (\<lambda>fs. if fs = [123, 6, 1, 0, 0, 0, 0] then 1000 else - 1) midnight = (True, Some (1060, 5))"
proof -
  have f: "read_fields (stack midnight) ''2023 7 1 0 0 0'' = [2023, 7, 1, 0, 0, 0]" by code_simp
  show ?thesis
    using synchronising_doubles_deviation [of midnight "''2023 7 1 0 0 0''" 2023 7 1 0 0 0 1000
        "\<lambda>fs. if fs = [123, 6, 1, 0, 0, 0, 0] then 1000 else - 1", OF _ _ f]
    by (simp add: midnight_def)
qed

text \<open>The file of the kernel holds \<open>hh:mm:ss\<close>, of which only the hour is read: as the year.\<close>

lemma rtc_time_format:
  "read_fields [y, mo, d, h, mi, s] ''12:34:56'' = [12, 0, d, h, mi, s]"
  by (simp add: read_int_def blank_def digit_def digits_value_def Let_def)

text \<open>A deviation of 4295 seconds is cut to less than a tenth of a second.\<close>

lemma long_deviation_wraps: "us_offset (t + 4295) t = 32704"
  by (simp add: us_offset_def wrap32_def left_diff_distrib)

end
