(* ===== verification/Launcher.thy ===== *)
theory Launcher
  imports Json FileIO
begin

text \<open>
  The launcher of \<open>src/src/components/launcher/launcher.cpp\<close> and \<open>launcher.hpp\<close>, a program of its own
  that checks and downloads resources and starts the server. Files are a map from names to contents.
  The parser of JSON files, HTTP, the hash function of OpenSSL and the operating system are arguments.
\<close>

section \<open>Environment and state\<close>

text \<open>\<open>config_file\<close> is \<open>None\<close> where the file cannot be opened; \<open>Some None\<close> where its text does not parse.\<close>

record launch_env =
  config_file :: "json option option"
  config_exists :: bool
  readable :: "string \<Rightarrow> bool"
  writable :: "string \<Rightarrow> bool"
  http_get :: "string \<Rightarrow> string \<Rightarrow> string option"
  sha256 :: "string \<Rightarrow> byte list"
  hardware_concurrency :: nat
  process_runs :: "string \<Rightarrow> bool"
  popen :: "string \<Rightarrow> bool"

type_synonym disk_files = "string \<Rightarrow> string option"

record launcher =
  l_config :: json
  stop_requested :: bool
  server_running :: bool

definition load_config :: "launch_env \<Rightarrow> json result" where
  "load_config env =
     (case config_file env of
        None \<Rightarrow> Inl (Throw ''Failed to open config file: '')
      | Some None \<Rightarrow> Inl (Throw ''parse_error.101'')
      | Some (Some j) \<Rightarrow> Inr j)"

definition ServerLauncher :: "launch_env \<Rightarrow> launcher result" where
  "ServerLauncher env =
     rbind (load_config env) (\<lambda>c. Inr \<lparr>l_config = c, stop_requested = False, server_running = False\<rparr>)"

section \<open>Resources\<close>

text \<open>The loop hands whole blocks to the hash function and then what the last read left in the buffer.\<close>

definition calculate_sha256 :: "launch_env \<Rightarrow> disk_files \<Rightarrow> string \<Rightarrow> string option" where
  "calculate_sha256 env files filename =
     (case files filename of
        None \<Rightarrow> None
      | Some c \<Rightarrow>
          if \<not> readable env filename then None
          else let updates = full_blocks c @ [drop (1024 * (length c div 1024)) c]
               in Some (concat (map (\<lambda>b. [hex_char (unat b div 16), hex_char (unat b mod 16)])
                    (sha256 env (concat updates)))))"

fun check_each :: "launch_env \<Rightarrow> disk_files \<Rightarrow> json list \<Rightarrow> bool result" where
  "check_each env files [] = Inr True"
| "check_each env files (res_file # rs) =
     rbind (j_get_string res_file) (\<lambda>filename.
       if files filename = None then Inr False
       else case calculate_sha256 env files filename of
         None \<Rightarrow> Inr False
       | Some sha256_val \<Rightarrow>
           rbind (rbind (j_at ''sha256'' res_file) j_get_string) (\<lambda>expected_sha256.
             if sha256_val \<noteq> expected_sha256 then Inr False else check_each env files rs))"

text \<open>The configuration gets a null entry where it has no resources.\<close>

definition check_resources :: "launch_env \<Rightarrow> disk_files \<Rightarrow> json \<Rightarrow> (json \<times> bool) result" where
  "check_resources env files config =
     rbind (j_slot ''resources'' config) (\<lambda>resources.
     rbind (j_put ''resources'' resources config) (\<lambda>config'.
     rbind (check_each env files (j_elems resources)) (\<lambda>b. Inr (config', b))))"

text \<open>The tasks that were put into the pool, and the exception that ended the loop, if any.\<close>

fun resource_tasks :: "json \<Rightarrow> json list \<Rightarrow> (string \<times> string) list \<times> cpp_error option" where
  "resource_tasks config [] = ([], None)"
| "resource_tasks config (res_file # rs) =
     (case rbind (rbind (j_slot ''resource_server'' config) j_get_string) (\<lambda>server.
            rbind (j_get_string res_file) (\<lambda>f. Inr (server, f))) of
        Inl e \<Rightarrow> ([], Some e)
      | Inr (server, f) \<Rightarrow>
          (let (ts, e) = resource_tasks config rs in ((server @ ''/'' @ f, f) # ts, e)))"

definition fetch :: "launch_env \<Rightarrow> string \<Rightarrow> string \<times> string \<Rightarrow> disk_files \<Rightarrow> disk_files" where
  "fetch env server t files =
     (case http_get env server (fst t) of
        None \<Rightarrow> files
      | Some body \<Rightarrow> if writable env (snd t) then files(snd t \<mapsto> body) else files)"

text \<open>
  A pool without threads never runs a task, and waiting for one then does not end. Its destructor
  lets the threads finish the queue first.
\<close>

definition download_resources :: "launch_env \<Rightarrow> json \<Rightarrow> disk_files \<Rightarrow> (disk_files \<times> unit result) outcome" where
  "download_resources env config files =
     (case j_slot ''resources'' config of
        Inl e \<Rightarrow> Returns (files, Inl e)
      | Inr resources \<Rightarrow>
          (let (ts, e) = resource_tasks config (j_elems resources);
               server = (case rbind (j_slot ''resource_server'' config) j_get_string of Inl _ \<Rightarrow> [] | Inr s \<Rightarrow> s);
               done = (if hardware_concurrency env = 0 then files else fold (fetch env server) ts files)
           in case e of
                Some e \<Rightarrow> Returns (done, Inl e)
              | None \<Rightarrow>
                  if ts \<noteq> [] \<and> hardware_concurrency env = 0 then Deadlocks
                  else if list_all (\<lambda>t. http_get env server (fst t) \<noteq> None) ts then Returns (done, Inr ())
                  else Returns (done, Inl (Throw ''Failed to download some resources.''))))"

section \<open>Checks whose answers are not used\<close>

definition check_dependencies :: "launch_env \<Rightarrow> bool" where
  "check_dependencies env \<longleftrightarrow> process_runs env ''redis-server'' \<and> process_runs env ''mysqld''"

definition check_config_file :: "launch_env \<Rightarrow> bool" where
  "check_config_file env =
     (if \<not> config_exists env then False
      else case config_file env of
        Some (Some config) \<Rightarrow>
          (case j_find ''port'' config of
             None \<Rightarrow> False
           | Some p \<Rightarrow> (case j_get_int p of Inl _ \<Rightarrow> False | Inr port \<Rightarrow> \<not> (port < 0 \<or> port > 65535)))
      | _ \<Rightarrow> False)"

text \<open>\<open>made\<close>: the directory can be created. The second answer is the first name that is no string.\<close>

definition check_modules :: "(string \<Rightarrow> bool) \<Rightarrow> bool \<Rightarrow> string \<Rightarrow> json \<Rightarrow> bool result" where
  "check_modules exists made modules_dir module_list =
     (if \<not> exists modules_dir \<and> \<not> made then Inr False
      else foldl (\<lambda>r m. rbind r (\<lambda>all_found. rbind (j_get_string m) (\<lambda>n.
             Inr (all_found \<and> exists (modules_dir @ ''/'' @ n))))) (Inr True) (j_elems module_list))"

section \<open>The server's thread\<close>

text \<open>
  The thread \<open>start_server\<close> creates, the one \<open>read_server_output\<close> detaches, and calls of \<open>stop\<close> from
  outside. \<open>SEval\<close> is the evaluation of the predicate of \<open>_server_cv.wait\<close>.
\<close>

datatype server_thread = SLoop | SEval | SSleep | SEnd

record server_state =
  thread :: server_thread
  running :: bool
  requested :: bool
  reading :: bool

inductive server_step :: "server_state \<Rightarrow> server_state \<Rightarrow> bool" where
  loop_again: "thread s = SLoop \<Longrightarrow> \<not> requested s \<Longrightarrow> server_step s (s\<lparr>thread := SEval\<rparr>)"
| loop_end: "thread s = SLoop \<Longrightarrow> requested s \<Longrightarrow> server_step s (s\<lparr>thread := SEnd\<rparr>)"
| predicate_true: "thread s = SEval \<Longrightarrow> running s \<or> requested s \<Longrightarrow> server_step s (s\<lparr>thread := SLoop\<rparr>)"
| predicate_false: "thread s = SEval \<Longrightarrow> \<not> running s \<Longrightarrow> \<not> requested s \<Longrightarrow> server_step s (s\<lparr>thread := SSleep\<rparr>)"
| spurious_wake: "thread s = SSleep \<Longrightarrow> server_step s (s\<lparr>thread := SEval\<rparr>)"
| reader_starts: "server_step s (s\<lparr>running := True, reading := True\<rparr>)"
| output_ends: "reading s \<Longrightarrow>
    server_step s (s\<lparr>running := False, reading := False,
      thread := (if thread s = SSleep then SEval else thread s)\<rparr>)"
| stop_called: "server_step s (s\<lparr>requested := True, thread := (if thread s = SSleep then SEval else thread s)\<rparr>)"

inductive quiet_run :: "server_state \<Rightarrow> server_state \<Rightarrow> bool" for s where
  quiet_refl: "quiet_run s s"
| quiet_more: "quiet_run s t \<Longrightarrow> server_step t u \<Longrightarrow> \<not> requested u \<Longrightarrow> quiet_run s u"

inductive_cases server_stepE: "server_step s t"

lemma server_step_end: "server_step s t \<Longrightarrow> thread t = SEnd \<Longrightarrow> thread s = SEnd \<or> requested s"
  by (auto elim!: server_stepE split: if_splits)

lemma quiet_run_no_end: "quiet_run s t \<Longrightarrow> thread s \<noteq> SEnd \<Longrightarrow> \<not> requested s \<Longrightarrow> thread t \<noteq> SEnd \<and> \<not> requested t"
  by (induction rule: quiet_run.induct) (auto dest: server_step_end)

section \<open>The run of the launcher\<close>

definition start_server :: "launch_env \<Rightarrow> json \<Rightarrow> unit result" where
  "start_server env config =
     rbind (rbind (j_slot ''server_command'' config) j_get_string) (\<lambda>cmd.
       if popen env cmd then Inr () else Inl (Throw ''Failed to execute server command: ''))"

text \<open>
  \<open>stop_server\<close> writes to a pipe that is open for reading, which changes nothing, and
  \<open>wait_for_server_to_exit\<close> joins the thread of \<open>start_server\<close>.
\<close>

definition wait_for_server_to_exit :: "launcher \<Rightarrow> launcher outcome" where
  "wait_for_server_to_exit l =
     (if stop_requested l then Returns (l\<lparr>server_running := False\<rparr>) else Deadlocks)"

text \<open>What \<open>run\<close> does before the server is started, with the configuration it leaves.\<close>

definition resources_ready :: "launch_env \<Rightarrow> json \<Rightarrow> disk_files \<Rightarrow> (disk_files \<times> json result) outcome" where
  "resources_ready env config files =
     (case check_resources env files config of
        Inl e \<Rightarrow> Returns (files, Inl e)
      | Inr (config', found) \<Rightarrow>
          if found then Returns (files, Inr config')
          else (case download_resources env config' files of
                  Returns (files', r) \<Rightarrow> Returns (files', rbind r (\<lambda>_. Inr config'))
                | Waits \<Rightarrow> Waits
                | Deadlocks \<Rightarrow> Deadlocks))"

definition run :: "launch_env \<Rightarrow> launcher \<Rightarrow> disk_files \<Rightarrow> (disk_files \<times> launcher result) outcome" where
  "run env l files =
     (case resources_ready env (l_config l) files of
        Returns (files, Inl e) \<Rightarrow> Returns (files, Inl e)
      | Returns (files, Inr config) \<Rightarrow>
          (let _ = check_dependencies env; _ = check_config_file env
           in case start_server env config of
                Inl e \<Rightarrow> Returns (files, Inl e)
              | Inr _ \<Rightarrow>
                  (case wait_for_server_to_exit (l\<lparr>l_config := config, server_running := True\<rparr>) of
                     Returns l \<Rightarrow> Returns (files, Inr l)
                   | Waits \<Rightarrow> Waits
                   | Deadlocks \<Rightarrow> Deadlocks))
      | Waits \<Rightarrow> Waits
      | Deadlocks \<Rightarrow> Deadlocks)"

definition request_stop :: "launcher \<Rightarrow> launcher" where
  "request_stop l = l\<lparr>stop_requested := True\<rparr>"

text \<open>The exit status; errors that are no exceptions leave the program otherwise.\<close>

definition main :: "launch_env \<Rightarrow> string list \<Rightarrow> disk_files \<Rightarrow> (disk_files \<times> int result) outcome" where
  "main env args files =
     (if length args < 2 then Returns (files, Inr 1)
      else case ServerLauncher env of
        Inl _ \<Rightarrow> Returns (files, Inr 1)
      | Inr l \<Rightarrow>
          (case run env l files of
             Returns (files, Inl (Throw w)) \<Rightarrow> Returns (files, Inr 1)
           | Returns (files, Inl e) \<Rightarrow> Returns (files, Inl e)
           | Returns (files, Inr l) \<Rightarrow>
               (let _ = (if server_running l then request_stop l else l) in Returns (files, Inr 0))
           | Waits \<Rightarrow> Waits
           | Deadlocks \<Rightarrow> Deadlocks))"

section \<open>What a start comes to\<close>

lemma check_each_cases:
  "check_each env files rs = Inr True \<longleftrightarrow> rs = []"
  "check_each env files rs = Inl e \<Longrightarrow> \<exists>w. e = Throw w"
  by (cases rs; cases "hd rs"; auto split: if_splits option.splits)+

lemma check_each_present:
  "calculate_sha256 env files f = Some v \<Longrightarrow> check_each env files (JStr f # rs) = Inl (Throw ''type_error.305'')"
  by (auto simp: calculate_sha256_def split: option.splits)

lemma j_slot_throws: "j_slot k j = Inl e \<Longrightarrow> \<exists>w. e = Throw w"
  by (cases j) auto

lemma j_put_throws: "j_put k v j = Inl e \<Longrightarrow> \<exists>w. e = Throw w"
  by (cases j) auto

lemma j_get_string_throws: "j_get_string j = Inl e \<Longrightarrow> \<exists>w. e = Throw w"
  by (cases j) auto

lemma resource_tasks_throws: "snd (resource_tasks config rs) = Some e \<Longrightarrow> \<exists>w. e = Throw w"
proof (induction rs)
  case (Cons r rs)
  then show ?case
    by (auto simp: rbind_Inl_iff split: sum.splits prod.splits dest: j_slot_throws j_get_string_throws)
qed simp

lemma resources_ready_throws:
  assumes "resources_ready env config files = Returns (files', Inl e)"
  shows "\<exists>w. e = Throw w"
proof -
  have "download_resources env c files = Returns (files', Inl e) \<Longrightarrow> \<exists>w. e = Throw w" for c
    by (auto simp: download_resources_def Let_def split: sum.splits prod.splits option.splits if_splits
        dest: j_slot_throws dest!: resource_tasks_throws [of c "j_elems _" e] arg_cong [of _ _ snd])
  then show ?thesis using assms
    by (auto simp: resources_ready_def check_resources_def rbind_Inl_iff split: sum.splits prod.splits outcome.splits
        if_splits dest: j_slot_throws j_put_throws check_each_cases(2))
qed

lemma start_server_throws: "start_server env config = Inl e \<Longrightarrow> \<exists>w. e = Throw w"
  by (auto simp: start_server_def rbind_Inl_iff split: if_splits dest: j_slot_throws j_get_string_throws)


definition plain_env :: launch_env where
  "plain_env = \<lparr>config_file = Some (Some (JObj [(''resource_server'', JStr ''h''), (''resources'', JArr [JStr ''a'', JStr ''b'']),
       (''server_command'', JStr ''server'')])), config_exists = True, readable = (\<lambda>_. True), writable = (\<lambda>_. True),
     http_get = (\<lambda>_ u. Some (u @ ''!'')), sha256 = (\<lambda>c. [of_nat (length c)]), hardware_concurrency = 4,
     process_runs = (\<lambda>_. True), popen = (\<lambda>_. True)\<rparr>"

definition plain_config :: json where
  "plain_config = JObj [(''resource_server'', JStr ''h''), (''resources'', JArr [JStr ''a'', JStr ''b'']),
     (''server_command'', JStr ''server'')]"

lemma plain_ready: "resources_ready plain_env plain_config (\<lambda>_. None) =
    Returns ([''a'' \<mapsto> ''h/a!'', ''b'' \<mapsto> ''h/b!''], Inr plain_config)"
  by (simp add: resources_ready_def check_resources_def download_resources_def fetch_def plain_env_def plain_config_def
      Let_def)


lemma resource_tasks_names:
  "resource_tasks config rs = (ts, None) \<Longrightarrow> map (\<lambda>t. JStr (snd t)) ts = rs"
proof (induction rs arbitrary: ts)
  case (Cons r rs)
  then show ?case
    by (cases r) (auto simp: Let_def rbind_Inr_iff split: sum.splits prod.splits)
qed simp

lemma fetch_keeps: "files f \<noteq> None \<Longrightarrow> fold (fetch env server) ts files f \<noteq> None"
  by (induction ts arbitrary: files) (auto simp: fetch_def split: option.splits)

lemma fetch_all:
  "list_all (\<lambda>t. http_get env server (fst t) \<noteq> None \<and> writable env (snd t)) ts \<Longrightarrow> t \<in> set ts \<Longrightarrow>
     fold (fetch env server) ts files (snd t) \<noteq> None"
proof (induction ts arbitrary: files)
  case (Cons a ts)
  then have "fetch env server a files (snd a) \<noteq> None" by (auto simp: fetch_def)
  with Cons fetch_keeps [of "fetch env server a files" "snd a" env server ts] show ?case by (cases "t = a") simp_all
qed simp

text \<open>The resources count as complete only if none are listed. A launcher that had to download them and
  could, cannot be started a second time: the check then throws at the first resource, which is a name
  and has no hash.\<close>

theorem resources_checked:
  "((\<exists>config'. check_resources env files config = Inr (config', True)) \<longleftrightarrow>
      (\<exists>rs. j_slot ''resources'' config = Inr rs \<and> j_elems rs = [])) \<and>
   (download_resources env config files = Returns (files', Inr ()) \<and> j_slot ''resources'' config = Inr (JArr (r # rs)) \<and>
      (\<forall>f. readable env f \<and> writable env f) \<longrightarrow>
    check_resources env files' config = Inl (Throw ''type_error.305''))"
proof (intro conjI impI)
  have put: "j_slot ''resources'' config = Inr v \<Longrightarrow> \<exists>c. j_put ''resources'' v config = Inr c" for v
    using j_put_ok_iff_slot [of "''resources''" v config] by blast
  show "(\<exists>config'. check_resources env files config = Inr (config', True)) \<longleftrightarrow>
      (\<exists>rs. j_slot ''resources'' config = Inr rs \<and> j_elems rs = [])"
    using put by (fastforce simp: check_resources_def rbind_Inr_iff check_each_cases(1))
next
  assume a: "download_resources env config files = Returns (files', Inr ()) \<and>
    j_slot ''resources'' config = Inr (JArr (r # rs)) \<and> (\<forall>f. readable env f \<and> writable env f)"
  obtain ts e where t: "resource_tasks config (r # rs) = (ts, e)" by (cases "resource_tasks config (r # rs)")
  define server where "server = (case rbind (j_slot ''resource_server'' config) j_get_string of Inl _ \<Rightarrow> [] | Inr s \<Rightarrow> s)"
  from a t have e: "e = None" and d: "hardware_concurrency env = 0 \<longrightarrow> ts = []"
    and ok: "list_all (\<lambda>t. http_get env server (fst t) \<noteq> None) ts"
    and f: "files' = (if hardware_concurrency env = 0 then files else fold (fetch env server) ts files)"
    by (auto simp: download_resources_def Let_def server_def simp del: resource_tasks.simps
        split: option.splits if_splits)
  obtain c where c: "j_put ''resources'' (JArr (r # rs)) config = Inr c"
    using a j_put_ok_iff_slot [of "''resources''" "JArr (r # rs)" config] by blast
  from resource_tasks_names t e have "map (\<lambda>t. JStr (snd t)) ts = r # rs" by blast
  then obtain u ts' where u: "ts = u # ts'" "r = JStr (snd u)" by (cases ts) auto
  have "files' (snd u) \<noteq> None"
    using fetch_all [of env server ts u files] ok a u d f by (simp add: list_all_iff)
  then obtain v where "calculate_sha256 env files' (snd u) = Some v"
    using a by (auto simp: calculate_sha256_def Let_def)
  from check_each_present [OF this] u(2) c a
  show "check_resources env files' config = Inl (Throw ''type_error.305'')"
    by (auto simp: check_resources_def)
qed

lemma resources_checked_witness:
  "check_resources plain_env [''a'' \<mapsto> ''h/a!'', ''b'' \<mapsto> ''h/b!''] plain_config = Inl (Throw ''type_error.305'')"
proof -
  have "download_resources plain_env plain_config (\<lambda>_. None) = Returns ([''a'' \<mapsto> ''h/a!'', ''b'' \<mapsto> ''h/b!''], Inr ())"
    by (simp add: download_resources_def fetch_def plain_env_def plain_config_def Let_def)
  moreover have "j_slot ''resources'' plain_config = Inr (JArr [JStr ''a'', JStr ''b''])"
    by (simp add: plain_config_def)
  ultimately show ?thesis
    by (intro resources_checked [THEN conjunct2, rule_format]) (simp add: plain_env_def)
qed

end
