(* ===== verification/Solvers.thy ===== *)
theory Solvers
  imports Logs Regex
begin

text \<open>
  The two plate solvers: \<open>src/src/components/api/astrometry.cpp\<close> runs \<open>solve-field\<close>,
  \<open>src/src/components/api/astap.cpp\<close> runs \<open>astap\<close>. Starting a command, reading a FITS header and the
  text of a number are arguments. A finite \<open>double\<close> is the rational number it denotes.
\<close>

section \<open>Astrometry: the command\<close>

definition show_int :: "int \<Rightarrow> string" where
  "show_int i = (if i < 0 then CHR ''-'' # show_nat (nat (- i)) else show_nat (nat i))"

record solve_args =
  image :: string
  ra :: string
  dec :: string
  radius :: double
  downsample :: int
  depth :: "int list"
  scale_low :: double
  scale_high :: double
  width :: int
  height :: int
  scale_units :: string
  overwrite :: bool
  no_plot :: bool
  verify :: bool
  debug :: bool
  resort :: bool
  continue :: bool
  no_tweak :: bool

definition quoted :: "string \<Rightarrow> string" where
  "quoted s = ''\"'' @ s @ ''\"''"

definition make_command :: "(double \<Rightarrow> string) \<Rightarrow> solve_args \<Rightarrow> string result" where
  "make_command num a =
     (if image a = [] then Inl (Throw ''Image file is empty'')
      else if length (depth a) = 1 then Inl OutOfBounds
      else Inr (''/usr/local/astrometry/bin/solve-field '' @ quoted (image a) @
        (if ra a \<noteq> [] then '' --ra '' @ quoted (ra a) else []) @
        (if dec a \<noteq> [] then '' --dec '' @ quoted (dec a) else []) @
        (if radius a > 0 then '' --radius '' @ num (radius a) else []) @
        (if downsample a \<noteq> 1 then '' --downsample '' @ show_int (downsample a) else []) @
        (if depth a \<noteq> [] then '' --depth '' @ show_int (depth a ! 0) @ '','' @ show_int (depth a ! 1) else []) @
        (if scale_low a > 0 then '' --scale-low '' @ num (scale_low a) else []) @
        (if scale_high a > 0 then '' --scale-high '' @ num (scale_high a) else []) @
        (if width a > 0 then '' --width '' @ show_int (width a) else []) @
        (if height a > 0 then '' --height '' @ show_int (height a) else []) @
        (if scale_units a \<noteq> [] then '' --scale-units '' @ quoted (scale_units a) else []) @
        (if overwrite a then '' --overwrite'' else []) @
        (if no_plot a then '' --no-plot'' else []) @
        (if verify a then '' --verify'' else []) @
        (if debug a then '' --debug'' else []) @
        (if resort a then '' --resort'' else []) @
        (if continue a then '' --continue'' else []) @
        (if no_tweak a then '' --no-tweak'' else [])))"

datatype command_status = SUCCESS | FAILED | TIMEOUT

text \<open>What \<open>pclose\<close> answers: the exit status of the command, or \<open>None\<close> if it did not exit by itself.\<close>

definition status_of :: "int option \<Rightarrow> command_status" where
  "status_of s = (case s of Some n \<Rightarrow> if n = 0 then SUCCESS else FAILED | None \<Rightarrow> TIMEOUT)"

text \<open>
  The deleter of the \<open>std::unique_ptr\<close> that holds the pipe is a null pointer to a function. It is
  called at the end of the scope, whenever there is a pipe.
\<close>

definition leave_scope :: "'p option \<Rightarrow> 'a \<Rightarrow> 'a result" where
  "leave_scope pipe r = (case pipe of None \<Rightarrow> Inr r | Some _ \<Rightarrow> Inl NullDeref)"

definition execute_command ::
    "(string \<Rightarrow> (string \<times> int option) option) \<Rightarrow> string \<Rightarrow> (command_status \<times> string) result" where
  "execute_command popen command =
     (case popen command of
        None \<Rightarrow> Inl (Throw ''Failed to open pipe'')
      | Some (out, status) \<Rightarrow> leave_scope (Some (out, status)) (status_of status, out))"

section \<open>Astrometry: the answer\<close>

record solve_result =
  r_ra :: string
  r_dec :: string
  r_fov_x :: double
  r_fov_y :: double
  r_rotation :: double

text \<open>A line is split at its first colon and blank; only letters and digits of the key are kept.\<close>

definition token :: "string \<Rightarrow> string \<times> string" where
  "token line =
     (let (key, value) = (case str_find '': '' line of
        Some pos \<Rightarrow> (take pos line, drop (pos + 2) line)
      | None \<Rightarrow> (line, []))
      in (filter alnum key, value))"

definition tokens_of :: "string \<Rightarrow> string \<Rightarrow> string option" where
  "tokens_of out = fold (\<lambda>l m. m(fst (token l) \<mapsto> snd (token l))) (lines_of out) (\<lambda>_. None)"

text \<open>\<open>stod\<close>: \<open>None\<close> where it throws.\<close>

definition read_double :: "(string \<Rightarrow> double option) \<Rightarrow> string \<Rightarrow> double result" where
  "read_double stod s = (case stod s of None \<Rightarrow> Inl (Throw ''stod'') | Some d \<Rightarrow> Inr d)"

definition parse_output :: "(string \<Rightarrow> double option) \<Rightarrow> string \<Rightarrow> solve_result result" where
  "parse_output stod out =
     (let tokens = tokens_of out;
          (a, d) = (case tokens ''FieldcenterRAHMSDecDMS'' of
             None \<Rightarrow> ([], [])
           | Some v \<Rightarrow> (case str_find '','' v of None \<Rightarrow> ([], []) | Some pos \<Rightarrow> (take pos v, drop (pos + 1) v)))
      in rbind (case tokens ''Fieldsize'' of
             None \<Rightarrow> Inr (0, 0)
           | Some v \<Rightarrow> (case str_find ''x'' v of
               None \<Rightarrow> Inr (0, 0)
             | Some pos \<Rightarrow> rbind (read_double stod (take pos v)) (\<lambda>x.
                 rbind (read_double stod (drop (pos + 1) v)) (\<lambda>y. Inr (x, y)))))
         (\<lambda>(x, y). rbind (case tokens ''Fieldrotationangleupisdegrees'' of
             None \<Rightarrow> Inr 0 | Some v \<Rightarrow> read_double stod v)
         (\<lambda>rot. Inr \<lparr>r_ra = a, r_dec = d, r_fov_x = x, r_fov_y = y, r_rotation = rot\<rparr>)))"

definition result_json :: "solve_result \<Rightarrow> json" where
  "result_json r =
     (let put = (\<lambda>b k v m. if b then obj_put k v m else m);
          m = put (r_rotation r \<noteq> 0) ''rotation'' (JFloat (r_rotation r))
             (put (r_fov_y r > 0) ''fov_y'' (JFloat (r_fov_y r))
             (put (r_fov_x r > 0) ''fov_x'' (JFloat (r_fov_x r))
             (put (r_dec r \<noteq> []) ''dec'' (JStr (r_dec r))
             (put (r_ra r \<noteq> []) ''ra'' (JStr (r_ra r)) []))))
      in if m = [] then JObj [(''error_message'', JStr ''Solve failed'')] else JObj m)"

definition solve ::
    "(string \<Rightarrow> (string \<times> int option) option) \<Rightarrow> (string \<Rightarrow> double option) \<Rightarrow> (double \<Rightarrow> string) \<Rightarrow> solve_args \<Rightarrow> json result" where
  "solve popen stod num a =
     (case rbind (make_command num a) (\<lambda>command.
            rbind (execute_command popen command) (\<lambda>(status, out).
              case status of
                SUCCESS \<Rightarrow> parse_output stod out
              | FAILED \<Rightarrow> Inl (Throw ''Command execution failed'')
              | TIMEOUT \<Rightarrow> Inl (Throw ''Command execution timed out''))) of
        Inl (Throw w) \<Rightarrow> Inr (JObj [(''error_message'', JStr w)])
      | Inl e \<Rightarrow> Inl e
      | Inr r \<Rightarrow> Inr (result_json r))"

section \<open>ASTAP: running the command\<close>

text \<open>
  \<open>runs\<close> gives what a command prints and after how many seconds it ends, \<open>None\<close> for never;
  \<open>can_launch\<close> says whether the n-th attempt to create a thread succeeds.
\<close>

record astap_env =
  is_executable :: "string \<Rightarrow> bool"
  image_exists :: "string \<Rightarrow> bool"
  image_accessible :: "string \<Rightarrow> bool"
  can_launch :: "nat \<Rightarrow> bool"
  runs :: "string \<Rightarrow> (string \<times> nat option) option"
  fits_open :: "string \<Rightarrow> bool"
  fits_close :: "string \<Rightarrow> bool"
  fits_key :: "string \<Rightarrow> string \<Rightarrow> double"
  number_text :: "double \<Rightarrow> string"

definition IsSubstring :: "string \<Rightarrow> string \<Rightarrow> bool" where
  "IsSubstring str sub \<longleftrightarrow> str_find sub str \<noteq> None"

definition execute_shell :: "astap_env \<Rightarrow> string \<Rightarrow> string \<times> nat option" where
  "execute_shell env command = (case runs env command of None \<Rightarrow> ([], Some 0) | Some r \<Rightarrow> r)"

text \<open>The attempt that succeeds, counted from \<open>n\<close>.\<close>

fun async_retry :: "astap_env \<Rightarrow> nat \<Rightarrow> nat \<Rightarrow> nat result" where
  "async_retry env n 0 = Inl (Throw ''Exceeded maximum attempts'')"
| "async_retry env n (Suc k) =
     (if can_launch env n then Inr n
      else if k = 0 then Inl (Throw ''system_error'')
      else async_retry env (Suc n) k)"

text \<open>Asking once a second whether the command has ended: whether it ended in time.\<close>

function poll :: "nat option \<Rightarrow> int \<Rightarrow> nat \<Rightarrow> bool" where
  "poll ends timeout k =
     (if (case ends of None \<Rightarrow> False | Some d \<Rightarrow> d \<le> k) then True
      else if int k > timeout then False
      else poll ends timeout (Suc k))"
  by auto
termination
  by (relation "measure (\<lambda>(ends, timeout, k). nat (timeout + 1 - int k))") auto

declare poll.simps [simp del]

definition astap_command :: "astap_env \<Rightarrow> string \<Rightarrow> double \<Rightarrow> double \<Rightarrow> double \<Rightarrow> bool \<Rightarrow> string \<Rightarrow> string" where
  "astap_command env command r d fov update img =
     command @ (if r \<noteq> 0 then '' -ra '' @ number_text env r else []) @
     (if d \<noteq> 0 then '' -spd '' @ number_text env (d + 90) else []) @
     (if fov \<noteq> 0 then '' -fov '' @ number_text env fov else []) @
     (if img \<noteq> [] then '' -f '' @ img else []) @
     (if update then '' -update '' else [])"

definition arguments_ok :: "astap_env \<Rightarrow> double \<Rightarrow> double \<Rightarrow> double \<Rightarrow> string \<Rightarrow> bool" where
  "arguments_ok env r d fov img \<longleftrightarrow>
     \<not> (r < 0 \<or> r > 360) \<and> \<not> (d < - 90 \<or> d > 90) \<and> \<not> (fov \<le> 0 \<or> fov > 180) \<and>
     (img \<noteq> [] \<longrightarrow> image_exists env img \<and> image_accessible env img)"

text \<open>
  The answer and how long the call took after the thread was created. Leaving the function destroys the
  future of \<open>std::async\<close>, which waits for the command even where the time is over.
\<close>

definition execute_astap_command ::
    "astap_env \<Rightarrow> string \<Rightarrow> double \<Rightarrow> double \<Rightarrow> double \<Rightarrow> int \<Rightarrow> bool \<Rightarrow> string \<Rightarrow> (string \<times> nat) result outcome" where
  "execute_astap_command env command r d fov timeout update img =
     (if \<not> arguments_ok env r d fov img then Returns (Inr ([], 0))
      else case async_retry env 0 3 of
        Inl e \<Rightarrow> Returns (Inl e)
      | Inr _ \<Rightarrow>
          (let (out, ends) = execute_shell env (astap_command env command r d fov update img)
           in case ends of
                None \<Rightarrow> Waits
              | Some t \<Rightarrow> Returns (Inr (if poll ends timeout 1 then out else [], t))))"

section \<open>ASTAP: the answer\<close>

definition read_astap_result :: "astap_env \<Rightarrow> string \<Rightarrow> (string \<times> string) list" where
  "read_astap_result env img =
     (if \<not> fits_open env img then [(''message'', ''Error: cannot open FITS file '' @ img)]
      else
        (let data_get_flag = False; key = fits_key env img
         in if \<not> fits_close env img then [(''message'', ''Error: failed to close FITS file '' @ img)]
            else if data_get_flag then
              [(''message'', ''Solve success''), (''ra'', number_text env (key ''CRVAL1'')),
               (''dec'', number_text env (key ''CRVAL2'')), (''rotation'', number_text env (key ''CROTA1''))] @
              (if key ''XPIXSZ'' > 0 \<and> key ''YPIXSZ'' > 0
               then [(''focal_length'', number_text env
                  ((key ''XPIXSZ'' / key ''CDELT1'' * 206.625 + key ''YPIXSZ'' / key ''CDELT2'' * 206.625) / 2))]
               else [])
            else [(''message'', ''Solve failed'')]))"

definition run_astap ::
    "astap_env \<Rightarrow> double \<Rightarrow> double \<Rightarrow> double \<Rightarrow> int \<Rightarrow> bool \<Rightarrow> string \<Rightarrow> (string \<times> string) list result outcome" where
  "run_astap env r d fov timeout update img =
     (if \<not> is_executable env ''/usr/bin/astap'' \<and> \<not> is_executable env ''/usr/local/bin/astap''
      then Returns (Inr [(''message'', ''No solver found!'')])
      else case execute_astap_command env ''astap'' r d fov timeout update img of
        Returns x \<Rightarrow> Returns (rbind x (\<lambda>(out, t).
          if IsSubstring out ''Solution found:'' then Inr (read_astap_result env img)
          else Inr [(''message'', ''Failed to solve the image'')]))
      | Waits \<Rightarrow> Waits
      | Deadlocks \<Rightarrow> Deadlocks)"

section \<open>What a caller gets\<close>

lemma make_command_cases:
  "make_command num a = Inl e \<Longrightarrow> (e = Throw ''Image file is empty'' \<and> image a = []) \<or> (e = OutOfBounds \<and> length (depth a) = 1)"
  by (auto simp: make_command_def split: if_splits)

lemma execute_command_fails:
  "execute_command popen c = Inl (Throw ''Failed to open pipe'') \<and> popen c = None \<or>
   execute_command popen c = Inl NullDeref \<and> popen c \<noteq> None"
  by (auto simp: execute_command_def leave_scope_def split: option.splits)

text \<open>No solver ever reports a position. \<open>solve-field\<close>: once its command is started, the program jumps
  to a null pointer when it leaves the function; otherwise the answer is an error message. \<open>astap\<close>: the
  flag that the header was read is never set, so even an image that was solved is reported as failed.\<close>

theorem no_position_reported:
  "(make_command num a = Inr c \<and> popen c \<noteq> None \<longrightarrow> solve popen stod num a = Inl NullDeref) \<and>
   (solve popen stod num a = Inr j \<longrightarrow> (\<exists>w. j = JObj [(''error_message'', JStr w)])) \<and>
   (run_astap env r d fov timeout update img = Returns (Inr m) \<longrightarrow>
     (\<exists>w. m = [(''message'', w)] \<and> w \<noteq> ''Solve success''))"
proof (intro conjI impI)
  have s: "make_command num a = Inr c \<Longrightarrow> solve popen stod num a =
      (if popen c = None then Inr (JObj [(''error_message'', JStr ''Failed to open pipe'')]) else Inl NullDeref)" for c
    using execute_command_fails [of popen c] by (auto simp: solve_def)
  show "solve popen stod num a = Inl NullDeref" if "make_command num a = Inr c \<and> popen c \<noteq> None"
    using that s by simp
  show "\<exists>w. j = JObj [(''error_message'', JStr w)]" if j: "solve popen stod num a = Inr j"
  proof (cases "make_command num a")
    case (Inl e)
    with j make_command_cases [OF Inl] show ?thesis by (auto simp: solve_def)
  next
    case (Inr c)
    with j s show ?thesis by (auto split: if_splits)
  qed
  show "\<exists>w. m = [(''message'', w)] \<and> w \<noteq> ''Solve success''"
    if "run_astap env r d fov timeout update img = Returns (Inr m)"
  proof -
    have r: "\<exists>w. read_astap_result env img = [(''message'', w)] \<and> w \<noteq> ''Solve success''"
      by (simp add: read_astap_result_def Let_def)
    from that show ?thesis
    proof (cases "\<not> is_executable env ''/usr/bin/astap'' \<and> \<not> is_executable env ''/usr/local/bin/astap''")
      case True
      with that show ?thesis by (simp add: run_astap_def) force
    next
      case False
      with that r show ?thesis
        by (auto simp: run_astap_def rbind_Inr_iff split: outcome.splits if_splits)
    qed
  qed
qed

definition observatory :: astap_env where
  "observatory = \<lparr>is_executable = (\<lambda>f. f = ''/usr/bin/astap''), image_exists = (\<lambda>_. True),
     image_accessible = (\<lambda>_. True), can_launch = (\<lambda>_. True), runs = (\<lambda>_. Some (''Solution found: M42'', Some 40)),
     fits_open = (\<lambda>_. True), fits_close = (\<lambda>_. True), fits_key = (\<lambda>_ _. 1), number_text = (\<lambda>_. ''1'')\<rparr>"

definition m42 :: solve_args where
  "m42 = \<lparr>image = ''m42.fits'', ra = [], dec = [], radius = 0, downsample = 1, depth = [], scale_low = 0, scale_high = 0,
     width = 0, height = 0, scale_units = [], overwrite = True, no_plot = False, verify = False, debug = False,
     resort = False, continue = False, no_tweak = False\<rparr>"

lemma no_position_reported_witness:
  "solve (\<lambda>_. Some (''Field size: 1 x 1'', Some 0)) (\<lambda>_. Some 1) (\<lambda>_. ''1'') m42 = Inl NullDeref"
proof -
  have "make_command (\<lambda>_. ''1'') m42 = Inr ''/usr/local/astrometry/bin/solve-field \"m42.fits\" --overwrite''"
    by (simp add: make_command_def m42_def quoted_def)
  then show ?thesis
    by (intro no_position_reported [THEN conjunct1, rule_format]) simp
qed

lemma poll_iff: "poll (Some t) timeout k \<longleftrightarrow> int t \<le> max (int k) (timeout + 1)"
proof (induction "Some t" timeout k rule: poll.induct)
  case (1 timeout k)
  then show ?case by (subst poll.simps) auto
qed

text \<open>The timeout of \<open>astap\<close> saves no time: the call takes as long as the command, and does not return
  from one that does not end. A command that takes more than a second longer than allowed has its
  output dropped. Starting its thread is tried three times.\<close>

theorem astap_timeout:
  assumes "arguments_ok env r d fov img"
    "execute_shell env (astap_command env command r d fov update img) = (out, ends)"
  shows "execute_astap_command env command r d fov timeout update img =
    (if \<not> can_launch env 0 \<and> \<not> can_launch env 1 \<and> \<not> can_launch env 2 then Returns (Inl (Throw ''system_error''))
     else case ends of
       None \<Rightarrow> Waits
     | Some t \<Rightarrow> Returns (Inr (if int t \<le> max 1 (timeout + 1) then out else [], t)))"
  using assms by (simp add: execute_astap_command_def poll_iff numeral_eq_Suc split: option.split)

lemma astap_timeout_witness:
  "execute_astap_command observatory ''astap'' 83 22 1 30 True ''m42.fits'' = Returns (Inr ([], 40))"
proof -
  have "arguments_ok observatory 83 22 1 ''m42.fits''" by (simp add: arguments_ok_def observatory_def)
  moreover have "execute_shell observatory (astap_command observatory ''astap'' 83 22 1 True ''m42.fits'') =
      (''Solution found: M42'', Some 40)"
    by (simp add: execute_shell_def observatory_def)
  ultimately show ?thesis using astap_timeout [of observatory 83 22 1 "''m42.fits''" "''astap''" True] by (simp add: observatory_def)
qed

text \<open>What \<open>solve-field\<close> prints has other keys than the ones looked for.\<close>

lemma real_output_keys:
  "fst (token ''Field center: (RA H:M:S, Dec D:M:S) = (05:34:31.9, +22:00:52.1).'') = ''Fieldcenter''"
  "fst (token ''Field rotation angle: up is 178.3 degrees E of N'') = ''Fieldrotationangle''"
  by code_simp+

end
