(* ===== verification/ModCompiler.thy ===== *)
theory ModCompiler
  imports Json Strings
begin

text \<open>
  The compiler of modules in \<open>src/src/components/module/compiler.cpp\<close> and \<open>compiler.hpp\<close>, in its
  version for Linux. Starting a shell command, the file with the options and the file system are
  arguments. (The calls of \<open>RunShellCommand\<close> hand over a stream where the declaration has a string.)
\<close>

section \<open>Operations\<close>

text \<open>\<open>options_file\<close>: \<open>None\<close> if it cannot be opened, \<open>Some None\<close> if its text does not parse.\<close>

record compile_env =
  dir_exists :: bool
  dir_created :: bool
  options_file :: "json option option"
  shell :: "string \<Rightarrow> string \<Rightarrow> int option"

type_synonym module_cache = "string \<Rightarrow> string option"

text \<open>\<open>fclose\<close> releases the pipe, and \<open>pclose\<close> then uses it. Without a pipe the answer is \<open>-1\<close>.\<close>

definition RunShellCommand :: "compile_env \<Rightarrow> string \<Rightarrow> string \<Rightarrow> int result" where
  "RunShellCommand env command input =
     (case shell env command input of None \<Rightarrow> Inr (- 1) | Some status \<Rightarrow> Inl Dangling)"

text \<open>\<open>None\<close>: the options are no good and nothing is compiled.\<close>

definition compile_options :: "compile_env \<Rightarrow> string option" where
  "compile_options env =
     (case options_file env of
        None \<Rightarrow> Some ''-shared -fPIC -x c++ ''
      | Some None \<Rightarrow> None
      | Some (Some j) \<Rightarrow>
          if j_contains ''optimization_level'' j \<and> j_contains ''cplus_version'' j \<and> j_contains ''warnings'' j then
            (case rbind (rbind (j_slot ''optimization_level'' j) j_get_string) (\<lambda>a.
                  rbind (rbind (j_slot ''cplus_version'' j) j_get_string) (\<lambda>b.
                  rbind (rbind (j_slot ''warnings'' j) j_get_string) (\<lambda>c.
                    Inr (a @ '' '' @ b @ '' '' @ c @ '' '')))) of
               Inl _ \<Rightarrow> None
             | Inr opts \<Rightarrow> Some opts)
          else None)"

definition CompileToSharedLibrary ::
    "compile_env \<Rightarrow> string \<Rightarrow> string \<Rightarrow> string \<Rightarrow> module_cache \<Rightarrow> (module_cache \<times> bool) result" where
  "CompileToSharedLibrary env code moduleName functionName cache =
     (if code = [] \<or> moduleName = [] \<or> functionName = [] then Inr (cache, False)
      else if cache (moduleName @ ''::'' @ functionName) \<noteq> None then Inr (cache, True)
      else if \<not> dir_exists env \<and> \<not> dir_created env then Inr (cache, False)
      else case compile_options env of
        None \<Rightarrow> Inr (cache, False)
      | Some opts \<Rightarrow>
          (let out = ''modules/global/'' @ moduleName @ ''.so''
           in rbind (RunShellCommand env ''g++ -fsyntax-only -x c++ -'' code) (\<lambda>syntax.
              if syntax \<noteq> 0 then Inr (cache, False)
              else rbind (RunShellCommand env (''g++ '' @ opts @ '' - '' @ '' -o '' @ out) code) (\<lambda>exitCode.
                if exitCode \<noteq> 0 then Inr (cache, False)
                else Inr (cache(moduleName @ ''::'' @ functionName \<mapsto> out), False)))))"

text \<open>\<open>None\<close>: the file cannot be opened or created. The answer and the destination's contents.\<close>

definition CopyFile :: "string option \<Rightarrow> bool \<Rightarrow> bool \<times> string option" where
  "CopyFile source creates =
     (case source of
        None \<Rightarrow> (False, None)
      | Some contents \<Rightarrow> if creates then (True, Some contents) else (False, None))"

section \<open>Nothing is ever compiled\<close>

text \<open>A history of calls, each with what it meets; the answers up to the first call that does not return.\<close>

fun compile_all ::
    "(compile_env \<times> string \<times> string \<times> string) list \<Rightarrow> module_cache \<Rightarrow> (module_cache \<times> bool list) result" where
  "compile_all [] cache = Inr (cache, [])"
| "compile_all ((env, code, m, f) # cs) cache =
     rbind (CompileToSharedLibrary env code m f cache) (\<lambda>(cache', b).
     rbind (compile_all cs cache') (\<lambda>(cache'', bs). Inr (cache'', b # bs)))"

lemma compile_empty_cache:
  "CompileToSharedLibrary env code m f (\<lambda>_. None) = Inr (cache', b) \<Longrightarrow> cache' = (\<lambda>_. None) \<and> \<not> b"
  by (auto simp: CompileToSharedLibrary_def RunShellCommand_def Let_def split: if_splits option.splits)

text \<open>No call ever answers true: a module is never in the cache, since a command that can be started
  makes the program use a pipe it has closed. Such a call is undefined, whatever the command does.\<close>

theorem nothing_compiled:
  "(compile_all cs (\<lambda>_. None) = Inr (cache, bs) \<longrightarrow> cache = (\<lambda>_. None) \<and> True \<notin> set bs) \<and>
   (code \<noteq> [] \<and> m \<noteq> [] \<and> f \<noteq> [] \<and> dir_exists env \<and> compile_options env \<noteq> None \<and>
      shell env ''g++ -fsyntax-only -x c++ -'' code \<noteq> None \<longrightarrow>
    CompileToSharedLibrary env code m f (\<lambda>_. None) = Inl Dangling)"
proof (intro conjI impI)
  show "cache = (\<lambda>_. None)" "True \<notin> set bs" if "compile_all cs (\<lambda>_. None) = Inr (cache, bs)"
    using that by (induction cs arbitrary: bs) (auto simp: rbind_Inr_iff dest!: compile_empty_cache)
qed (auto simp: CompileToSharedLibrary_def RunShellCommand_def Let_def)

definition linux_env :: compile_env where
  "linux_env = \<lparr>dir_exists = True, dir_created = True, options_file = None, shell = (\<lambda>_ _. Some 0)\<rparr>"

lemma nothing_compiled_witness: "CompileToSharedLibrary linux_env ''int x;'' ''m'' ''f'' (\<lambda>_. None) = Inl Dangling"
  by (rule nothing_compiled [THEN conjunct2, rule_format]) (simp add: linux_env_def compile_options_def)

end
