(* ===== verification/Images.thy ===== *)
theory Images
  imports Prelude
begin

text \<open>
  The operations on whole images of \<open>src/src/components/image/image.cpp\<close> that compute with integers.
  An image is what \<open>CImg<unsigned char>\<close> of \<open>src/libs/cimg/CImg.h\<close> holds: four dimensions and one
  buffer, in which pixels are found by their offset, without a check. What a new buffer holds before
  it is written, reading a file and the FITS library are arguments.
\<close>

section \<open>Images\<close>

record cimg =
  width :: nat
  height :: nat
  depth :: nat
  spectrum :: nat
  data :: "byte list"

definition wf_img :: "cimg \<Rightarrow> bool" where
  "wf_img im \<longleftrightarrow> length (data im) = width im * height im * depth im * spectrum im \<and>
     width im * height im < 2 ^ 31 \<and> (width im = 0 \<longleftrightarrow> height im = 0) \<and>
     (width im = 0 \<longleftrightarrow> depth im = 0) \<and> (width im = 0 \<longleftrightarrow> spectrum im = 0) \<and>
     length (data im) \<le> 16 * 1024 * 1024 * 1024"

definition empty_img :: cimg where
  "empty_img = \<lparr>width = 0, height = 0, depth = 0, spectrum = 0, data = []\<rparr>"

text \<open>With two coordinates the offset is computed in 32 bits, with more in 64.\<close>

definition offset2 :: "cimg \<Rightarrow> nat \<Rightarrow> nat \<Rightarrow> nat" where
  "offset2 im x y = (x + y * width im) mod 2 ^ 32"

definition offset4 :: "cimg \<Rightarrow> nat \<Rightarrow> nat \<Rightarrow> nat \<Rightarrow> nat \<Rightarrow> nat" where
  "offset4 im x y z c =
     (x + y * width im + z * width im * height im + c * width im * height im * depth im) mod 2 ^ 64"

definition load_px :: "cimg \<Rightarrow> nat \<Rightarrow> byte result" where
  "load_px im i = (if i < length (data im) then Inr (data im ! i) else Inl OutOfBounds)"

definition store_px :: "nat \<Rightarrow> byte \<Rightarrow> cimg \<Rightarrow> cimg result" where
  "store_px i v im = (if i < length (data im) then Inr (im\<lparr>data := (data im)[i := v]\<rparr>) else Inl OutOfBounds)"

text \<open>\<open>cimg_forXY\<close>: the rows one after the other.\<close>

definition forXY :: "nat \<Rightarrow> nat \<Rightarrow> (nat \<times> nat) list" where
  "forXY w h = concat (map (\<lambda>y. map (\<lambda>x. (x, y)) [0..<w]) [0..<h])"

section \<open>Operations\<close>

definition swap_px :: "nat \<Rightarrow> nat \<Rightarrow> cimg \<Rightarrow> cimg result" where
  "swap_px i j im =
     rbind (load_px im i) (\<lambda>a. rbind (load_px im j) (\<lambda>b. rbind (store_px i b im) (store_px j a)))"

definition flip :: "int \<Rightarrow> cimg \<Rightarrow> cimg result" where
  "flip direction im =
     (if direction = 0 then
        rfold (\<lambda>(x, y) im. swap_px (offset4 im x y 0 0) (offset4 im (width im - 1 - x) y 0 0) im)
          (forXY (width im) (height im)) im
      else if direction = 1 then
        rfold (\<lambda>(x, y) im. swap_px (offset4 im x y 0 0) (offset4 im x (height im - 1 - y) 0 0) im)
          (forXY (width im) (height im)) im
      else Inr im)"

definition compute_histogram :: "cimg \<Rightarrow> int list result" where
  "compute_histogram im =
     rfold (\<lambda>(x, y) hist. rbind (load_px im (offset4 im x y 0 0)) (\<lambda>v.
         Inr (hist[unat v := hist ! unat v + 1])))
       (forXY (width im) (height im)) (replicate 256 0)"

text \<open>
  The sums are \<open>int\<close>s. A negative ratio gives negative sizes, which are huge as \<open>unsigned\<close>;
  \<open>junk\<close> is what the buffer of the new image holds.
\<close>

definition new_image :: "byte list \<Rightarrow> nat \<Rightarrow> nat \<Rightarrow> nat \<Rightarrow> nat \<Rightarrow> cimg result" where
  "new_image junk w h d s =
     (if w * h * d * s = 0 then Inr empty_img
      else if 16 * 1024 * 1024 * 1024 < w * h * d * s then Inl (Throw ''CImg<unsigned char>::safe_size()'')
      else Inr \<lparr>width = w, height = h, depth = d, spectrum = s,
        data = map (\<lambda>i. if i < length junk then junk ! i else 0) [0..<w * h * d * s]\<rparr>)"

definition block :: "cimg \<Rightarrow> nat \<Rightarrow> nat \<Rightarrow> nat \<Rightarrow> (nat \<times> nat) list" where
  "block im ratio x y =
     concat (map (\<lambda>i. concat (map (\<lambda>j.
       let px = x * ratio + i; py = y * ratio + j
       in if px < width im \<and> py < height im then [(px, py)] else []) [0..<ratio])) [0..<ratio])"

definition block_sum :: "cimg \<Rightarrow> nat \<Rightarrow> nat \<Rightarrow> nat \<Rightarrow> nat \<Rightarrow> nat result" where
  "block_sum im ratio x y c =
     rbind (rfold (\<lambda>(px, py) s. rbind (load_px im (offset4 im px py 0 c)) (\<lambda>v. Inr (s + unat v)))
         (block im ratio x y) 0) (\<lambda>s.
     if s < 2 ^ 31 then Inr s else Inl IntOverflow)"

text \<open>One channel of a pixel of the compressed image.\<close>

definition compress_channel ::
    "cimg \<Rightarrow> nat \<Rightarrow> nat \<Rightarrow> nat \<Rightarrow> nat \<Rightarrow> cimg \<Rightarrow> cimg result" where
  "compress_channel im ratio x y c new_img =
     rbind (block_sum im ratio x y c) (\<lambda>s.
     if length (block im ratio x y) = 0 then Inl DivByZero
     else store_px (offset4 new_img x y 0 c) (of_nat (s div length (block im ratio x y))) new_img)"

definition compress_pixel :: "cimg \<Rightarrow> nat \<Rightarrow> nat \<times> nat \<Rightarrow> cimg \<Rightarrow> cimg result" where
  "compress_pixel im ratio xy new_img = (case xy of (x, y) \<Rightarrow>
     rbind (compress_channel im ratio x y 0 new_img) (\<lambda>new_img.
     if 1 < spectrum im then
       rbind (compress_channel im ratio x y 1 new_img) (compress_channel im ratio x y 2)
     else Inr new_img))"

definition compress_image :: "byte list \<Rightarrow> int \<Rightarrow> cimg \<Rightarrow> cimg result" where
  "compress_image junk compress_ratio im =
     (if compress_ratio = 0 then Inl DivByZero
      else let k = nat \<bar>compress_ratio\<bar>;
               new_width = (if 0 < compress_ratio then int (width im div k) else - int (width im div k));
               new_height = (if 0 < compress_ratio then int (height im div k) else - int (height im div k))
           in rbind (new_image junk (nat (new_width mod 2 ^ 32)) (nat (new_height mod 2 ^ 32)) 1 (spectrum im)) (\<lambda>new_img.
              rfold (compress_pixel im k) (forXY (width new_img) (height new_img)) new_img))"

text \<open>\<open>get_crop\<close> with the boundary condition the program uses: what lies outside is black.\<close>

definition at0 :: "cimg \<Rightarrow> int \<Rightarrow> int \<Rightarrow> int \<Rightarrow> int \<Rightarrow> byte" where
  "at0 im x y z c =
     (if 0 \<le> x \<and> x < int (width im) \<and> 0 \<le> y \<and> y < int (height im) \<and>
         0 \<le> z \<and> z < int (depth im) \<and> 0 \<le> c \<and> c < int (spectrum im)
      then data im ! offset4 im (nat x) (nat y) (nat z) (nat c) else 0)"

definition extent :: "int \<Rightarrow> int \<Rightarrow> nat" where
  "extent a b = nat ((1 + max a b - min a b) mod 2 ^ 32)"

definition get_crop ::
    "int \<Rightarrow> int \<Rightarrow> int \<Rightarrow> int \<Rightarrow> int \<Rightarrow> int \<Rightarrow> int \<Rightarrow> int \<Rightarrow> cimg \<Rightarrow> cimg result" where
  "get_crop x0 y0 z0 c0 x1 y1 z1 c1 im =
     (if data im = [] then Inl (Throw ''[instance('')
      else let w = extent x0 x1; h = extent y0 y1; d = extent z0 z1; s = extent c0 c1
           in rbind (new_image [] w h d s) (\<lambda>res. Inr (res\<lparr>data := map (\<lambda>i.
                at0 im (min x0 x1 + int (i mod w)) (min y0 y1 + int (i div w mod h))
                  (min z0 z1 + int (i div (w * h) mod d)) (min c0 c1 + int (i div (w * h * d))))
                [0..<length (data res)]\<rparr>)))"

definition in_int :: "int \<Rightarrow> bool" where
  "in_int i \<longleftrightarrow> - (2 ^ 31) \<le> i \<and> i < 2 ^ 31"

definition crop_image :: "int \<Rightarrow> int \<Rightarrow> int \<Rightarrow> int \<Rightarrow> cimg \<Rightarrow> cimg result" where
  "crop_image x y w h im =
     (if \<not> (in_int (x + w) \<and> in_int (x + w - 1) \<and> in_int (y + h) \<and> in_int (y + h - 1)) then Inl IntOverflow
      else get_crop x y 0 0 (x + w - 1) (y + h - 1) (int (depth im) - 1) (int (spectrum im) - 1) im)"

definition get_channel :: "int \<Rightarrow> cimg \<Rightarrow> cimg result" where
  "get_channel c im =
     get_crop 0 0 0 c (int (width im) - 1) (int (height im) - 1) (int (depth im) - 1) c im"

text \<open>The three results are objects of their own, not the image itself.\<close>

definition split_color_image :: "cimg \<Rightarrow> (cimg \<times> cimg \<times> cimg) result" where
  "split_color_image im =
     rbind (get_channel 0 im) (\<lambda>r. rbind (get_channel 1 im) (\<lambda>g. rbind (get_channel 2 im) (\<lambda>b. Inr (r, g, b))))"

text \<open>Half the sum, rounded away from zero, is computed exactly in \<open>double\<close>.\<close>

definition overlay_image :: "cimg \<Rightarrow> cimg \<Rightarrow> cimg result" where
  "overlay_image img2 img1 =
     (let w = min (width img1) (width img2); h = min (height img1) (height img2)
      in rfold (\<lambda>(x, y) im.
           if x < w \<and> y < h then
             rbind (load_px im (offset2 im x y)) (\<lambda>a. rbind (load_px img2 (offset2 img2 x y)) (\<lambda>b.
               store_px (offset2 im x y) (of_nat ((unat a + unat b + 1) div 2)) im))
           else Inr im) (forXY (width img1) (height img1)) img1)"

text \<open>The sum of the differences, exact in \<open>double\<close>; what is made of it is left out.\<close>

definition sum_diff :: "cimg \<Rightarrow> cimg \<Rightarrow> nat result" where
  "sum_diff img1 img2 =
     (let w = min (width img1) (width img2); h = min (height img1) (height img2)
      in rfold (\<lambda>(x, y) s.
           if x < w \<and> y < h then
             rbind (load_px img1 (offset2 img1 x y)) (\<lambda>a. rbind (load_px img2 (offset2 img2 x y)) (\<lambda>b.
               Inr (s + nat \<bar>int (unat a) - int (unat b)\<bar>)))
           else Inr s) (forXY (width img1) (height img1)) 0)"

text \<open>
  Stars are searched in the image of one channel made of the file; the loop over \<open>stars.spectrum()\<close>
  runs once, so the only direction is along the row. Radii are such that positions fit into an \<open>int\<close>.
\<close>

definition threshold :: "byte \<Rightarrow> cimg \<Rightarrow> cimg" where
  "threshold v im = im\<lparr>data := map (\<lambda>p. if v \<le> p then 1 else 0) (data im)\<rparr>"

definition is_star :: "cimg \<Rightarrow> nat \<Rightarrow> nat \<Rightarrow> nat \<Rightarrow> bool result" where
  "is_star binary x y r =
     (if width binary \<le> x + r then Inr False
      else rbind (load_px binary (offset2 binary (x + r) y)) (\<lambda>v. Inr (v = 0)))"

definition detect_stars :: "int \<Rightarrow> nat \<Rightarrow> cimg \<Rightarrow> nat result" where
  "detect_stars v max_radius gray =
     (let binary = threshold (of_int v) gray
      in rfold (\<lambda>(x, y) count.
           rbind (load_px binary (offset2 binary x y)) (\<lambda>p.
             if p = 0 then
               rfold (\<lambda>r count. rbind (is_star binary x y r) (\<lambda>b. Inr (if b then count + 1 else count)))
                 [1..<Suc max_radius] count
             else Inr count)) (forXY (width binary) (height binary)) 0)"

definition bit_depth :: "cimg \<Rightarrow> int" where
  "bit_depth im = int (depth im)"

text \<open>
  A FITS file that was opened: the number of axes, the sizes the library wrote of the three it was asked
  for, and the pixels it delivers, if it does.
\<close>

record fits =
  naxis :: nat
  naxes :: "nat list"
  pixels :: "byte list option"

definition convert_fits_to_cimg :: "fits \<Rightarrow> cimg \<Rightarrow> (cimg \<times> bool) result" where
  "convert_fits_to_cimg f im =
     (if 2 ^ 31 \<le> width im * height im then Inl IntOverflow else case pixels f of
     None \<Rightarrow> Inr (im, False)
   | Some buffer \<Rightarrow>
       rbind (rfold (\<lambda>(x, y) im.
           if y * width im + x < length buffer then store_px (offset2 im x y) (buffer ! (y * width im + x)) im
           else Inl Uninitialised) (forXY (width im) (height im)) im) (\<lambda>im. Inr (im, True)))"

definition read_fits_image :: "byte list \<Rightarrow> (string \<Rightarrow> fits option) \<Rightarrow> string \<Rightarrow> cimg \<Rightarrow> (cimg \<times> bool) result" where
  "read_fits_image junk open_file filename im = (case open_file filename of
     None \<Rightarrow> Inr (im, False)
   | Some f \<Rightarrow>
       if naxis f = 3 \<and> length (naxes f) < 3 then Inl Uninitialised
       else if naxis f = 3 \<and> naxes f ! 2 \<noteq> 1 then Inr (im, False)
       else if length (naxes f) < 2 then Inl Uninitialised
       else rbind (new_image junk (naxes f ! 0) (naxes f ! 1) 1 1) (\<lambda>im.
            rbind (convert_fits_to_cimg f im) (\<lambda>(im, ok). Inr (im, True))))"

text \<open>Loading a file throws where it cannot; \<open>read_image\<close> catches that and the image stays empty.\<close>

definition read_color_image :: "(string \<Rightarrow> cimg option) \<Rightarrow> string \<Rightarrow> (cimg \<times> bool) result" where
  "read_color_image load filename = (case load filename of
     None \<Rightarrow> Inl (Throw ''[instance('')
   | Some im \<Rightarrow> Inr (im, spectrum im \<noteq> 1))"

definition read_image :: "(string \<Rightarrow> bool) \<Rightarrow> (string \<Rightarrow> cimg option) \<Rightarrow> string \<Rightarrow> cimg" where
  "read_image exists load filename =
     (if exists filename then (case load filename of None \<Rightarrow> empty_img | Some im \<Rightarrow> im) else empty_img)"

section \<open>Positions and offsets\<close>

lemma set_forXY [simp]: "set (forXY w h) = {..<w} \<times> {..<h}"
  by (auto simp: forXY_def)

lemma forXY_offsets: "map (\<lambda>xy. fst xy + snd xy * w) (forXY w h) = [0..<w * h]"
proof (induction h)
  case (Suc h)
  have "forXY w (Suc h) = forXY w h @ map (\<lambda>x. (x, h)) [0..<w]" by (simp add: forXY_def)
  moreover have "map (\<lambda>x. x + h * w) [0..<w] = [w * h..<w * Suc h]"
    using map_add_upt [of "h * w" w] by (simp add: mult.commute add.commute)
  moreover have "[0..<w * Suc h] = [0..<w * h] @ [w * h..<w * Suc h]"
    using upt_add_eq_append [of 0 "w * h" w] by (simp add: add.commute)
  ultimately show ?case using Suc by (simp add: comp_def)
qed (simp add: forXY_def)

lemma index_less: "x < w \<Longrightarrow> y < h \<Longrightarrow> x + y * w < w * h" for x y w h :: nat
proof -
  assume "x < w" "y < h"
  then have "Suc y * w \<le> h * w" by (intro mult_le_mono1) simp
  with \<open>x < w\<close> show ?thesis by (simp add: mult.commute)
qed

text \<open>Where a pixel of an image is found.\<close>

lemma wf_offset4:
  assumes "wf_img im" "x < width im" "y < height im" "z < depth im" "c < spectrum im"
  shows "offset4 im x y z c = x + y * width im + z * (width im * height im) + c * (width im * height im * depth im)"
    and "offset4 im x y z c < length (data im)"
proof -
  let ?w = "width im" and ?h = "height im" and ?d = "depth im" and ?s = "spectrum im"
  let ?o = "x + y * ?w + z * (?w * ?h) + c * (?w * ?h * ?d)"
  have "x + y * ?w < ?w * ?h" using assms by (intro index_less)
  then have "x + y * ?w + z * (?w * ?h) < (?w * ?h) * ?d" using assms by (intro index_less)
  then have l: "?o < (?w * ?h * ?d) * ?s" using assms by (intro index_less)
  moreover have "(?w * ?h * ?d) * ?s = length (data im)" using assms(1) by (simp add: wf_img_def)
  ultimately have "?o < length (data im)" by simp
  moreover have "length (data im) < 2 ^ 64" using assms(1) by (simp add: wf_img_def)
  ultimately show "offset4 im x y z c = ?o" "offset4 im x y z c < length (data im)"
    by (simp_all add: offset4_def mult.assoc)
qed

lemma wf_first:
  assumes "wf_img im" "x < width im"
  shows "0 < depth im \<and> 0 < spectrum im"
  using assms by (auto simp: wf_img_def)

lemma wf_offset:
  assumes "wf_img im" "x < width im" "y < height im"
  shows "offset4 im x y 0 0 = x + y * width im" "x + y * width im < length (data im)"
  using wf_offset4 [OF assms, of 0 0] wf_first [OF assms(1,2)] by auto

text \<open>An image of the same shape, with other pixels.\<close>

definition same_shape :: "cimg \<Rightarrow> cimg \<Rightarrow> bool" where
  "same_shape im jm \<longleftrightarrow> width jm = width im \<and> height jm = height im \<and> depth jm = depth im \<and>
     spectrum jm = spectrum im \<and> length (data jm) = length (data im)"

lemma same_shape_refl [simp]: "same_shape im im"
  by (simp add: same_shape_def)

lemma same_shape_data [simp]: "same_shape im (jm\<lparr>data := xs\<rparr>) \<longleftrightarrow>
    width jm = width im \<and> height jm = height im \<and> depth jm = depth im \<and> spectrum jm = spectrum im \<and>
    length xs = length (data im)"
  by (auto simp: same_shape_def)

lemma same_shape_offset4 [simp]: "same_shape im jm \<Longrightarrow> offset4 jm = offset4 im"
  by (simp add: offset4_def same_shape_def fun_eq_iff)

lemma same_shape_wf: "same_shape im jm \<Longrightarrow> wf_img im \<Longrightarrow> wf_img jm"
  unfolding same_shape_def wf_img_def by (elim conjE, intro conjI) simp_all

section \<open>Flipping\<close>

definition swap_at :: "(nat \<Rightarrow> nat) \<Rightarrow> nat \<Rightarrow> 'a list \<Rightarrow> 'a list" where
  "swap_at r p xs = xs[p := xs ! r p, r p := xs ! p]"

lemma length_swap_at [simp]: "length (swap_at r p xs) = length xs"
  by (simp add: swap_at_def)

lemma length_fold_swap_at [simp]: "length (fold (swap_at r) ps xs) = length xs"
  by (induction ps arbitrary: xs) auto

lemma nth_swap_at:
  "p < length xs \<Longrightarrow> r p < length xs \<Longrightarrow> swap_at r p xs ! j =
     (if j = r p then xs ! p else if j = p then xs ! r p else xs ! j)"
  by (auto simp: swap_at_def nth_list_update)

text \<open>Every position is exchanged with its mirror image exactly where only one of the two was visited.\<close>

lemma nth_fold_swap_at:
  assumes r: "\<And>p. p < length xs \<Longrightarrow> r p < length xs \<and> r (r p) = p"
  shows "distinct ps \<Longrightarrow> set ps \<subseteq> {..<length xs} \<Longrightarrow> j < length xs \<Longrightarrow>
    fold (swap_at r) ps xs ! j = (if (j \<in> set ps) \<noteq> (r j \<in> set ps) then xs ! r j else xs ! j)"
proof (induction ps arbitrary: j rule: rev_induct)
  case (snoc p ps)
  let ?ys = "fold (swap_at r) ps xs"
  have p: "p < length xs" "p \<notin> set ps" "r p < length xs" "r (r p) = p"
    using snoc.prems r [of p] by auto
  have j: "r j = p \<longleftrightarrow> j = r p" "r (r j) = j"
    using r [of j] snoc.prems(3) p by auto
  have ih: "i < length xs \<Longrightarrow> ?ys ! i = (if (i \<in> set ps) \<noteq> (r i \<in> set ps) then xs ! r i else xs ! i)" for i
    using snoc.IH snoc.prems by simp
  have step: "fold (swap_at r) (ps @ [p]) xs ! j =
      (if j = r p then ?ys ! p else if j = p then ?ys ! r p else ?ys ! j)"
    using p by (simp add: nth_swap_at)
  consider "j = p" | "j = r p" "j \<noteq> p" | "j \<noteq> p" "j \<noteq> r p" by blast
  then show ?case
  proof cases
    case 3
    with j ih [OF snoc.prems(3)] step show ?thesis by simp
  qed (use p j ih [of p] ih [of "r p"] step in \<open>simp_all\<close>)
qed simp

lemma fold_swap_at_id:
  assumes "\<And>p. p < length xs \<Longrightarrow> r p < length xs \<and> r (r p) = p \<and> (r p < n \<longleftrightarrow> p < n)" "n \<le> length xs"
  shows "fold (swap_at r) [0..<n] xs = xs"
proof (rule nth_equalityI)
  fix j assume "j < length (fold (swap_at r) [0..<n] xs)"
  then have j: "j < length xs" by simp
  have "set [0..<n] \<subseteq> {..<length xs}" using assms(2) by auto
  with j nth_fold_swap_at [of xs r "[0..<n]" j] assms(1)
  have "fold (swap_at r) [0..<n] xs ! j = (if (j < n) \<noteq> (r j < n) then xs ! r j else xs ! j)" by simp
  with assms(1) [OF j] show "fold (swap_at r) [0..<n] xs ! j = xs ! j" by simp
qed simp

lemma swap_px_at:
  assumes "p < length (data im)" "q < length (data im)"
  shows "swap_px p q im = Inr (im\<lparr>data := (data im)[p := data im ! q, q := data im ! p]\<rparr>)"
  using assms by (simp add: swap_px_def load_px_def store_px_def)

lemma flip_loop:
  assumes wf: "wf_img im"
    and r: "\<And>p. p < length (data im) \<Longrightarrow> r p < length (data im) \<and> r (r p) = p \<and>
      (r p < width im * height im \<longleftrightarrow> p < width im * height im)"
    and f: "\<And>x y jm. x < width im \<Longrightarrow> y < height im \<Longrightarrow> same_shape im jm \<Longrightarrow>
      f (x, y) jm = swap_px (x + y * width im) (r (x + y * width im)) jm"
  shows "rfold f (forXY (width im) (height im)) im = Inr im"
proof -
  let ?o = "\<lambda>xy. fst xy + snd xy * width im"
  let ?g = "\<lambda>xy jm. jm\<lparr>data := swap_at r (?o xy) (data jm)\<rparr>"
  have "rfold f (forXY (width im) (height im)) im = Inr (fold ?g (forXY (width im) (height im)) im) \<and>
      same_shape im (fold ?g (forXY (width im) (height im)) im)"
  proof (rule rfold_fold)
    fix xy jm assume "xy \<in> set (forXY (width im) (height im))" and s: "same_shape im jm"
    then obtain x y where xy: "xy = (x, y)" "x < width im" "y < height im" by auto
    with wf have o: "x + y * width im < length (data im)" by (simp add: wf_offset(2))
    from s have l: "length (data jm) = length (data im)" by (simp add: same_shape_def)
    from r [OF o] o l have "swap_px (x + y * width im) (r (x + y * width im)) jm =
        Inr (jm\<lparr>data := swap_at r (x + y * width im) (data jm)\<rparr>)"
      by (subst swap_px_at) (simp_all add: swap_at_def)
    then have "f xy jm = Inr (?g xy jm)" using f [OF xy(2,3) s] xy(1) by simp
    moreover from s have "same_shape im (?g xy jm)" by (simp add: same_shape_def)
    ultimately show "f xy jm = Inr (?g xy jm) \<and> same_shape im (?g xy jm)" ..
  qed simp
  moreover have "fold ?g ps jm = jm\<lparr>data := fold (swap_at r) (map ?o ps) (data jm)\<rparr>" for ps and jm :: cimg
    by (induction ps arbitrary: jm) auto
  moreover have "width im * height im \<le> length (data im)"
    using wf by (cases "width im = 0") (auto simp: wf_img_def)
  with r have "fold (swap_at r) [0..<width im * height im] (data im) = data im"
    by (intro fold_swap_at_id) auto
  ultimately show ?thesis by (simp add: forXY_offsets)
qed

lemma mirror_divmod:
  fixes w :: nat assumes "x < w"
  shows "(x + y * w) div w = y" "(x + y * w) mod w = x"
  using assms by auto

text \<open>A mirror image on the first channel, along one of the axes.\<close>

definition mirrored :: "cimg \<Rightarrow> (nat \<times> nat \<Rightarrow> nat \<times> nat) \<Rightarrow> nat \<Rightarrow> nat" where
  "mirrored im m p =
     (if p < width im * height im then
        fst (m (p mod width im, p div width im)) + snd (m (p mod width im, p div width im)) * width im
      else p)"

lemma mirrored_offset:
  "x < width im \<Longrightarrow> y < height im \<Longrightarrow>
     mirrored im m (x + y * width im) = fst (m (x, y)) + snd (m (x, y)) * width im"
  by (simp add: mirrored_def index_less mirror_divmod)

lemma mirrored_involution:
  assumes "wf_img im" and m: "\<And>x y. x < width im \<Longrightarrow> y < height im \<Longrightarrow>
      fst (m (x, y)) < width im \<and> snd (m (x, y)) < height im \<and> m (m (x, y)) = (x, y)"
    and p: "p < length (data im)"
  shows "mirrored im m p < length (data im) \<and> mirrored im m (mirrored im m p) = p \<and>
    (mirrored im m p < width im * height im \<longleftrightarrow> p < width im * height im)"
proof (cases "p < width im * height im")
  case True
  let ?x = "p mod width im" and ?y = "p div width im"
  from True have "0 < width im" by (cases "width im = 0") auto
  with True have xy: "?x < width im" "?y < height im"
    by (auto simp: less_mult_imp_div_less mult.commute)
  obtain a b where ab: "m (?x, ?y) = (a, b)" by (cases "m (?x, ?y)")
  with m [OF xy] have lt: "a < width im" "b < height im" and inv: "m (a, b) = (?x, ?y)" by auto
  have "mirrored im m p = a + b * width im" using True ab by (simp add: mirrored_def)
  moreover have "mirrored im m (a + b * width im) = p"
    using mirrored_offset [OF lt, of m] inv by simp
  moreover have "a + b * width im < width im * height im" using lt by (rule index_less)
  moreover have "width im * height im \<le> length (data im)"
    using assms(1) by (cases "width im = 0") (auto simp: wf_img_def)
  ultimately show ?thesis using True by simp
qed (use p in \<open>simp add: mirrored_def\<close>)

lemma flip_mirrored:
  assumes "wf_img im" and m: "\<And>x y. x < width im \<Longrightarrow> y < height im \<Longrightarrow>
      fst (m (x, y)) < width im \<and> snd (m (x, y)) < height im \<and> m (m (x, y)) = (x, y)"
    and f: "\<And>x y jm. x < width im \<Longrightarrow> y < height im \<Longrightarrow> same_shape im jm \<Longrightarrow>
      f (x, y) jm = swap_px (offset4 im x y 0 0) (offset4 im (fst (m (x, y))) (snd (m (x, y))) 0 0) jm"
  shows "rfold f (forXY (width im) (height im)) im = Inr im"
proof (rule flip_loop [OF assms(1), of "mirrored im m"])
  fix x y jm assume xy: "x < width im" "y < height im" and s: "same_shape im jm"
  from m [OF xy] show "f (x, y) jm = swap_px (x + y * width im) (mirrored im m (x + y * width im)) jm"
    by (simp add: f [OF xy s] mirrored_offset [OF xy] wf_offset(1) [OF assms(1)] xy)
qed (rule mirrored_involution [OF assms(1) m])

lemma flip_horizontal:
  assumes "wf_img im"
  shows "rfold (\<lambda>(x, y) jm. swap_px (offset4 jm x y 0 0) (offset4 jm (width jm - 1 - x) y 0 0) jm)
      (forXY (width im) (height im)) im = Inr im"
proof (rule flip_mirrored [OF assms, where m = "\<lambda>xy. (width im - 1 - fst xy, snd xy)"])
  fix x y jm assume s: "same_shape im jm"
  from s have w: "width jm = width im" by (simp add: same_shape_def)
  from s have o: "offset4 jm = offset4 im" by (rule same_shape_offset4)
  show "(case (x, y) of (x, y) \<Rightarrow> \<lambda>jm. swap_px (offset4 jm x y 0 0) (offset4 jm (width jm - 1 - x) y 0 0) jm) jm =
      swap_px (offset4 im x y 0 0) (offset4 im (fst (width im - 1 - fst (x, y), snd (x, y)))
        (snd (width im - 1 - fst (x, y), snd (x, y))) 0 0) jm" by (simp only: o w prod.case fst_conv snd_conv)
qed auto

lemma flip_vertical:
  assumes "wf_img im"
  shows "rfold (\<lambda>(x, y) jm. swap_px (offset4 jm x y 0 0) (offset4 jm x (height jm - 1 - y) 0 0) jm)
      (forXY (width im) (height im)) im = Inr im"
proof (rule flip_mirrored [OF assms, where m = "\<lambda>xy. (fst xy, height im - 1 - snd xy)"])
  fix x y jm assume s: "same_shape im jm"
  from s have w: "height jm = height im" by (simp add: same_shape_def)
  from s have o: "offset4 jm = offset4 im" by (rule same_shape_offset4)
  show "(case (x, y) of (x, y) \<Rightarrow> \<lambda>jm. swap_px (offset4 jm x y 0 0) (offset4 jm x (height jm - 1 - y) 0 0) jm) jm =
      swap_px (offset4 im x y 0 0) (offset4 im (fst (fst (x, y), height im - 1 - snd (x, y)))
        (snd (fst (x, y), height im - 1 - snd (x, y))) 0 0) jm" by (simp only: o w prod.case fst_conv snd_conv)
qed auto

lemma flip_nothing: "wf_img im \<Longrightarrow> flip direction im = Inr im"
  unfolding flip_def by (simp only: flip_horizontal flip_vertical split: if_split) simp

section \<open>Histogram\<close>

text \<open>The first channel is the front of the buffer.\<close>

lemma first_channel:
  assumes "wf_img im"
  shows "map (\<lambda>xy. data im ! (fst xy + snd xy * width im)) (forXY (width im) (height im)) =
    take (width im * height im) (data im)"
proof -
  have "width im * height im \<le> length (data im)"
    using assms by (cases "width im = 0") (auto simp: wf_img_def)
  then have "map ((!) (data im)) [0..<width im * height im] = take (width im * height im) (data im)"
    by (intro nth_equalityI) auto
  then show ?thesis unfolding forXY_offsets [symmetric] by (simp add: comp_def)
qed

definition tally :: "nat list \<Rightarrow> int list \<Rightarrow> int list" where
  "tally vs h = fold (\<lambda>v h. h[v := h ! v + 1]) vs h"

lemma tally_nth:
  "\<forall>v \<in> set vs. v < length h \<Longrightarrow> k < length h \<Longrightarrow> tally vs h ! k = h ! k + int (count_list vs k)"
  by (induction vs arbitrary: h) (auto simp: tally_def nth_list_update)

lemma length_tally [simp]: "length (tally vs h) = length h"
  unfolding tally_def by (induction vs arbitrary: h) auto

lemma sum_list_increment: "v < length h \<Longrightarrow> sum_list (h[v := h ! v + 1]) = sum_list h + (1 :: int)"
proof (induction h arbitrary: v)
  case (Cons a h)
  then show ?case by (cases v) auto
qed simp

lemma histogram_tally:
  assumes "wf_img im"
  shows "compute_histogram im =
    Inr (tally (map unat (take (width im * height im) (data im))) (replicate 256 0))"
proof -
  let ?v = "\<lambda>xy. unat (data im ! (fst xy + snd xy * width im))"
  let ?g = "\<lambda>xy h. h[?v xy := h ! ?v xy + 1]"
  have "compute_histogram im = Inr (fold ?g (forXY (width im) (height im)) (replicate 256 0)) \<and> True"
    unfolding compute_histogram_def
  proof (rule rfold_fold [where I = "\<lambda>_. True"])
    fix xy and h :: "int list" assume "xy \<in> set (forXY (width im) (height im))"
    then obtain x y where xy: "xy = (x, y)" "x < width im" "y < height im" by auto
    with assms show "(case xy of (x, y) \<Rightarrow> \<lambda>hist. rbind (load_px im (offset4 im x y 0 0)) (\<lambda>v.
        Inr (hist[unat v := hist ! unat v + 1]))) h = Inr (?g xy h) \<and> True"
      by (simp add: wf_offset load_px_def)
  qed simp
  moreover have "fold ?g ps h = tally (map ?v ps) h" for ps h
    by (simp add: tally_def fold_map comp_def)
  moreover have "map ?v (forXY (width im) (height im)) = map unat (take (width im * height im) (data im))"
    unfolding first_channel [OF assms, symmetric] by simp
  ultimately show ?thesis by simp
qed

lemma histogram_counts:
  assumes "wf_img im"
  shows "\<exists>hist. compute_histogram im = Inr hist \<and> length hist = 256 \<and>
    (\<forall>v. hist ! unat v = int (count_list (take (width im * height im) (data im)) v)) \<and>
    sum_list hist = int (width im * height im)"
proof -
  let ?vs = "map unat (take (width im * height im) (data im))"
  have b: "unat (v :: byte) < 256" for v using unsigned_less [of v] by simp
  have c: "count_list (map unat (vs :: byte list)) (unat v) = count_list vs v" for vs v
    by (induction vs) (auto simp: word_unat_eq_iff)
  have n: "tally ?vs (replicate 256 0) ! unat v = int (count_list (take (width im * height im) (data im)) v)" for v
    using b by (subst tally_nth) (auto simp: c)
  have "sum_list (tally vs h) = sum_list h + int (length vs)" if "\<forall>v \<in> set vs. v < length h" for vs h
    using that by (induction vs arbitrary: h) (auto simp: tally_def sum_list_increment)
  from this [of ?vs "replicate 256 0"] b have "sum_list (tally ?vs (replicate 256 0)) = int (length ?vs)"
    by (auto simp: sum_list_replicate)
  moreover have "width im * height im \<le> length (data im)"
    using assms by (cases "width im = 0") (auto simp: wf_img_def)
  ultimately show ?thesis using n histogram_tally [OF assms] by simp
qed

section \<open>Compressing\<close>

text \<open>Blocks lie inside the image.\<close>

definition whole_block :: "nat \<Rightarrow> nat \<Rightarrow> nat \<Rightarrow> (nat \<times> nat) list" where
  "whole_block k x y = concat (map (\<lambda>i. map (\<lambda>j. (x * k + i, y * k + j)) [0..<k]) [0..<k])"

lemma block_inside: "x < w div k \<Longrightarrow> i < k \<Longrightarrow> x * k + i < w" for x w k i :: nat
proof -
  assume "x < w div k" "i < k"
  then have "Suc x * k \<le> (w div k) * k" by (intro mult_le_mono1) simp
  also have "\<dots> \<le> w" by simp
  finally show ?thesis using \<open>i < k\<close> by simp
qed

lemma block_whole:
  assumes "x < width im div k" "y < height im div k"
  shows "block im k x y = whole_block k x y"
proof -
  have "concat (map (\<lambda>j. let px = x * k + i; py = y * k + j
       in if px < width im \<and> py < height im then [(px, py)] else []) [0..<k]) =
      map (\<lambda>j. (x * k + i, y * k + j)) [0..<k]" if "i < k" for i
  proof -
    have "map (\<lambda>j. let px = x * k + i; py = y * k + j
       in if px < width im \<and> py < height im then [(px, py)] else []) [0..<k] =
      map (\<lambda>j. [(x * k + i, y * k + j)]) [0..<k]"
      by (rule map_cong) (use assms that in \<open>auto simp: Let_def block_inside\<close>)
    then show ?thesis by (simp only: concat_map_singleton)
  qed
  then show ?thesis unfolding block_def whole_block_def
    by (intro arg_cong [where f = concat] map_cong) auto
qed

lemma length_whole_block: "length (whole_block k x y) = k * k"
  by (simp add: whole_block_def length_concat comp_def sum_list_triv)

lemma set_whole_block: "set (whole_block k x y) = {(x * k + i, y * k + j) | i j. i < k \<and> j < k}"
  by (auto simp: whole_block_def)

definition pixel_of :: "cimg \<Rightarrow> nat \<Rightarrow> nat \<Rightarrow> nat \<Rightarrow> nat \<Rightarrow> byte" where
  "pixel_of im x y z c = data im ! offset4 im x y z c"

definition block_total :: "cimg \<Rightarrow> nat \<Rightarrow> nat \<Rightarrow> nat \<Rightarrow> nat \<Rightarrow> nat" where
  "block_total im k x y c = (\<Sum>i<k. \<Sum>j<k. unat (pixel_of im (x * k + i) (y * k + j) 0 c))"

lemma sum_list_concat_map: "sum_list (concat xss) = sum_list (map sum_list xss)" for xss :: "nat list list"
  by (induction xss) auto

lemma sum_list_whole_block:
  "sum_list (map (\<lambda>p. f (fst p) (snd p)) (whole_block k x y)) = (\<Sum>i<k. \<Sum>j<k. f (x * k + i) (y * k + j))"
  for f :: "nat \<Rightarrow> nat \<Rightarrow> nat"
  by (simp add: whole_block_def map_concat sum_list_concat_map comp_def interv_sum_list_conv_sum_set_nat
      atLeast0LessThan)

lemma block_total_less: "block_total im k x y c \<le> 255 * (k * k)"
proof -
  have u: "unat v \<le> 255" for v :: byte
  proof -
    have "unat v < 256" using unsigned_less [of v] by simp
    then show ?thesis by simp
  qed
  have "block_total im k x y c \<le> (\<Sum>i<k. \<Sum>j<k. 255)"
    unfolding block_total_def by (intro sum_mono u)
  then show ?thesis by (simp add: algebra_simps)
qed

lemma block_sum_total:
  assumes "wf_img im" "x < width im div k" "y < height im div k" "c < spectrum im" "255 * (k * k) < 2 ^ 31"
  shows "block_sum im k x y c = Inr (block_total im k x y c)"
proof -
  let ?g = "\<lambda>p s. s + unat (pixel_of im (fst p) (snd p) 0 c)"
  have "rfold (\<lambda>(px, py) s. rbind (load_px im (offset4 im px py 0 c)) (\<lambda>v. Inr (s + unat v)))
      (block im k x y) 0 = Inr (fold ?g (block im k x y) 0) \<and> True"
  proof (rule rfold_fold [where I = "\<lambda>_. True"])
    fix p and s :: nat assume "p \<in> set (block im k x y)"
    then obtain i j where p: "p = (x * k + i, y * k + j)" "i < k" "j < k"
      using assms by (auto simp: block_whole set_whole_block)
    then have l: "x * k + i < width im" "y * k + j < height im" using assms by (auto simp: block_inside)
    have "0 < depth im" using wf_first [OF assms(1) l(1)] by simp
    from wf_offset4(2) [OF assms(1) l this assms(4)] p(1)
    show "(case p of (px, py) \<Rightarrow> \<lambda>s. rbind (load_px im (offset4 im px py 0 c)) (\<lambda>v. Inr (s + unat v))) s =
        Inr (?g p s) \<and> True" by (simp add: load_px_def pixel_of_def)
  qed simp
  moreover have "fold ?g ps s = s + sum_list (map (\<lambda>p. unat (pixel_of im (fst p) (snd p) 0 c)) ps)" for ps s
    by (induction ps arbitrary: s) auto
  moreover have "block im k x y = whole_block k x y" using assms by (simp add: block_whole)
  moreover have "sum_list (map (\<lambda>p. unat (pixel_of im (fst p) (snd p) 0 c)) (whole_block k x y)) =
      block_total im k x y c"
    unfolding block_total_def by (rule sum_list_whole_block)
  moreover have "block_total im k x y c < 2 ^ 31"
    using block_total_less [of im k x y c] assms(5) by simp
  ultimately show ?thesis by (simp add: block_sum_def)
qed

text \<open>Different coordinates are different places in the buffer.\<close>

lemma radix_decode:
  fixes w h d :: nat
  assumes "x < w" "y < h" "z < d"
  shows "(x + y * w + z * (w * h) + c * (w * h * d)) mod w = x"
    and "(x + y * w + z * (w * h) + c * (w * h * d)) div w mod h = y"
    and "(x + y * w + z * (w * h) + c * (w * h * d)) div (w * h) mod d = z"
    and "(x + y * w + z * (w * h) + c * (w * h * d)) div (w * h * d) = c"
proof -
  let ?p = "x + y * w + z * (w * h) + c * (w * h * d)"
  have p: "?p = x + w * (y + h * (z + d * c))" by (simp add: algebra_simps)
  have 1: "?p mod w = x" "?p div w = y + h * (z + d * c)" unfolding p using assms(1) by simp_all
  then have 2: "?p div (w * h) = z + d * c" "?p div w mod h = y"
    using assms(2) by (simp_all add: div_mult2_eq)
  then have "?p div (w * h * d) = c" "?p div (w * h) mod d = z"
    using assms(3) by (simp_all add: div_mult2_eq)
  with 1 2 show "?p mod w = x" "?p div w mod h = y" "?p div (w * h) mod d = z" "?p div (w * h * d) = c" by simp_all
qed

lemma offset4_inj:
  assumes wf: "wf_img im"
    and a: "x < width im" "y < height im" "z < depth im" "c < spectrum im"
    and b: "x' < width im" "y' < height im" "z' < depth im" "c' < spectrum im"
    and eq: "offset4 im x y z c = offset4 im x' y' z' c'"
  shows "x = x' \<and> y = y' \<and> z = z' \<and> c = c'"
proof -
  have "x + y * width im + z * (width im * height im) + c * (width im * height im * depth im) =
      x' + y' * width im + z' * (width im * height im) + c' * (width im * height im * depth im)"
    using wf_offset4(1) [OF wf a] wf_offset4(1) [OF wf b] eq by simp
  with radix_decode [OF a(1-3), of c] radix_decode [OF b(1-3), of c'] show ?thesis by metis
qed

lemma pixel_of_update:
  assumes "wf_img im" "x < width im" "y < height im" "z < depth im" "c < spectrum im"
    "x' < width im" "y' < height im" "z' < depth im" "c' < spectrum im"
  shows "pixel_of (im\<lparr>data := (data im)[offset4 im x y z c := v]\<rparr>) x' y' z' c' =
    (if x' = x \<and> y' = y \<and> z' = z \<and> c' = c then v else pixel_of im x' y' z' c')"
proof -
  have "offset4 (im\<lparr>data := ds\<rparr>) = offset4 im" for ds by (simp add: offset4_def fun_eq_iff)
  then show ?thesis using assms offset4_inj [of im x' y' z' c' x y z c] wf_offset4(2) [of im x y z c]
    by (auto simp: pixel_of_def nth_list_update)
qed

lemma store_px_pixel:
  assumes "wf_img im" "x < width im" "y < height im" "z < depth im" "c < spectrum im"
  shows "\<exists>jm. store_px (offset4 im x y z c) v im = Inr jm \<and> same_shape im jm \<and>
    (\<forall>x' y' z' c'. x' < width im \<longrightarrow> y' < height im \<longrightarrow> z' < depth im \<longrightarrow> c' < spectrum im \<longrightarrow>
       pixel_of jm x' y' z' c' = (if x' = x \<and> y' = y \<and> z' = z \<and> c' = c then v else pixel_of im x' y' z' c'))"
  using wf_offset4(2) [OF assms] pixel_of_update [OF assms] by (simp add: store_px_def)

definition block_mean :: "cimg \<Rightarrow> nat \<Rightarrow> nat \<Rightarrow> nat \<Rightarrow> nat \<Rightarrow> byte" where
  "block_mean im k x y c = of_nat (block_total im k x y c div (k * k))"

text \<open>What a step of the loop leaves: the pixels in \<open>ps\<close> are done, in all channels.\<close>

definition compressed :: "cimg \<Rightarrow> nat \<Rightarrow> cimg \<Rightarrow> (nat \<times> nat \<times> nat) set \<Rightarrow> cimg \<Rightarrow> bool" where
  "compressed im k new ps jm \<longleftrightarrow> same_shape new jm \<and>
     (\<forall>x y c. (x, y, c) \<in> ps \<longrightarrow> x < width new \<longrightarrow> y < height new \<longrightarrow> c < spectrum new \<longrightarrow>
        pixel_of jm x y 0 c = block_mean im k x y c)"

lemma compress_channel_step:
  assumes wf: "wf_img im" "wf_img new" and k: "0 < k" "255 * (k * k) < 2 ^ 31"
    and new: "width new = width im div k" "height new = height im div k" "depth new = 1" "spectrum new = spectrum im"
    and xy: "x < width new" "y < height new" "c < spectrum new"
    and jm: "compressed im k new ps jm"
  shows "\<exists>jm'. compress_channel im k x y c jm = Inr jm' \<and> compressed im k new (insert (x, y, c) ps) jm'"
proof -
  from jm have s: "same_shape new jm" by (simp add: compressed_def)
  then have dims: "width jm = width new" "height jm = height new" "depth jm = depth new" "spectrum jm = spectrum new"
    by (simp_all add: same_shape_def)
  have "wf_img jm" using s wf(2) by (rule same_shape_wf)
  moreover have "x < width jm" "y < height jm" "0 < depth jm" "c < spectrum jm"
    using xy dims new by simp_all
  ultimately obtain jm' where jm': "store_px (offset4 jm x y 0 c) (block_mean im k x y c) jm = Inr jm'"
    "same_shape jm jm'"
    "\<forall>x' y' z' c'. x' < width jm \<longrightarrow> y' < height jm \<longrightarrow> z' < depth jm \<longrightarrow> c' < spectrum jm \<longrightarrow>
       pixel_of jm' x' y' z' c' =
         (if x' = x \<and> y' = y \<and> z' = 0 \<and> c' = c then block_mean im k x y c else pixel_of jm x' y' z' c')"
    using store_px_pixel [of jm x y 0 c "block_mean im k x y c"] by blast
  have "block_sum im k x y c = Inr (block_total im k x y c)"
    using wf k xy new by (intro block_sum_total) simp_all
  moreover have "length (block im k x y) = k * k"
    using xy new by (simp add: block_whole length_whole_block)
  ultimately have "compress_channel im k x y c jm = Inr jm'"
    using jm'(1) k(1) by (simp add: compress_channel_def block_mean_def)
  moreover have "same_shape new jm'" using s jm'(2) by (simp add: same_shape_def)
  moreover have "0 < depth jm" using dims new by simp
  ultimately show ?thesis using jm jm'(3) dims by (auto simp: compressed_def)
qed

lemma compressed_channels:
  assumes "compressed im k new ps jm"
    and "\<And>x y c. (x, y, c) \<in> qs \<Longrightarrow> c < spectrum new \<Longrightarrow> (x, y, c) \<in> ps"
  shows "compressed im k new qs jm"
  using assms unfolding compressed_def by meson

definition channels :: "(nat \<times> nat) list \<Rightarrow> (nat \<times> nat \<times> nat) set" where
  "channels ps = {(x, y, c). (x, y) \<in> set ps}"

lemma compress_pixel_step:
  assumes "wf_img im" "wf_img new" "0 < k" "255 * (k * k) < 2 ^ 31"
    "width new = width im div k" "height new = height im div k" "depth new = 1" "spectrum new = spectrum im"
    and sp: "spectrum im = 1 \<or> spectrum im = 3"
    and xy: "x < width new" "y < height new" and jm: "compressed im k new (channels ps) jm"
  shows "\<exists>jm'. compress_pixel im k (x, y) jm = Inr jm' \<and> compressed im k new (channels (ps @ [(x, y)])) jm'"
proof -
  note step = compress_channel_step [OF assms(1-8) xy]
  from step [of 0, OF _ jm] sp assms(8) obtain j0 where j0: "compress_channel im k x y 0 jm = Inr j0"
    "compressed im k new (insert (x, y, 0) (channels ps)) j0" by auto
  show ?thesis
  proof (cases "spectrum im = 1")
    case True
    have "compressed im k new (channels (ps @ [(x, y)])) j0"
      by (rule compressed_channels [OF j0(2)]) (use True assms(8) in \<open>auto simp: channels_def\<close>)
    with j0(1) True show ?thesis by (simp add: compress_pixel_def)
  next
    case False
    with sp have three: "spectrum im = 3" by simp
    from step [of 1, OF _ j0(2)] three assms(8) obtain j1 where j1: "compress_channel im k x y 1 j0 = Inr j1"
      "compressed im k new (insert (x, y, 1) (insert (x, y, 0) (channels ps))) j1" by auto
    from step [of 2, OF _ j1(2)] three assms(8) obtain j2 where j2: "compress_channel im k x y 2 j1 = Inr j2"
      "compressed im k new (insert (x, y, 2) (insert (x, y, 1) (insert (x, y, 0) (channels ps)))) j2" by auto
    have "compressed im k new (channels (ps @ [(x, y)])) j2"
    proof (rule compressed_channels [OF j2(2)])
      fix a b c assume "(a, b, c) \<in> channels (ps @ [(x, y)])" "c < spectrum new"
      moreover from this(2) three assms(8) have "c = 0 \<or> c = 1 \<or> c = 2" by auto
      ultimately show "(a, b, c) \<in> insert (x, y, 2) (insert (x, y, 1) (insert (x, y, 0) (channels ps)))"
        by (auto simp: channels_def)
    qed
    with j0(1) j1(1) j2(1) three show ?thesis by (simp add: compress_pixel_def)
  qed
qed

lemma new_image_smaller:
  assumes wf: "wf_img im" and "0 < k" "k \<le> width im" "k \<le> height im"
  shows "\<exists>new. new_image junk (width im div k) (height im div k) 1 (spectrum im) = Inr new \<and> wf_img new \<and>
    width new = width im div k \<and> height new = height im div k \<and> depth new = 1 \<and> spectrum new = spectrum im"
proof -
  let ?w = "width im div k" and ?h = "height im div k"
  from assms have pos: "0 < ?w" "0 < ?h" by (simp_all add: div_greater_zero_iff)
  from wf have s: "0 < spectrum im" "0 < depth im" using wf_first [OF wf, of 0] assms by auto
  have m: "?w * ?h \<le> width im * height im" by (intro mult_le_mono) simp_all
  have "?w * ?h * 1 * spectrum im \<le> (width im * height im) * depth im * spectrum im"
    using m s by (intro mult_le_mono) simp_all
  also have "\<dots> \<le> 16 * 1024 * 1024 * 1024" using wf by (simp add: wf_img_def mult.assoc)
  finally have "?w * ?h * 1 * spectrum im \<le> 16 * 1024 * 1024 * 1024" .
  moreover have "?w * ?h < 2 ^ 31" using m wf by (simp add: wf_img_def)
  ultimately show ?thesis using pos s by (simp add: new_image_def wf_img_def not_less)
qed

lemma new_sizes_fit:
  assumes wf: "wf_img im" and k: "0 < k" "k \<le> width im" "k \<le> height im"
  shows "nat (int (width im div k) mod 2 ^ 32) = width im div k"
    and "nat (int (height im div k) mod 2 ^ 32) = height im div k"
proof -
  have "width im * height im < 2 ^ 31" using wf by (simp add: wf_img_def)
  moreover have "width im div k \<le> width im * height im" "height im div k \<le> width im * height im"
    using k div_le_dividend [of "width im" k] div_le_dividend [of "height im" k]
    by (auto intro: le_trans [of _ "width im"] le_trans [of _ "height im"])
  ultimately have "width im div k < 2 ^ 31" "height im div k < 2 ^ 31" by (blast intro: le_less_trans)+
  then have "width im div k < 2 ^ 32" "height im div k < 2 ^ 32" by simp_all
  then show "nat (int (width im div k) mod 2 ^ 32) = width im div k"
    "nat (int (height im div k) mod 2 ^ 32) = height im div k"
    by (simp_all flip: zdiv_int)
qed

lemma compress_means:
  assumes wf: "wf_img im" and k: "0 < k" "k \<le> width im" "k \<le> height im" "255 * (k * k) < 2 ^ 31"
    and sp: "spectrum im = 1 \<or> spectrum im = 3"
  shows "\<exists>out. compress_image junk (int k) im = Inr out \<and> wf_img out \<and>
    width out = width im div k \<and> height out = height im div k \<and> depth out = 1 \<and> spectrum out = spectrum im \<and>
    (\<forall>x < width out. \<forall>y < height out. \<forall>c < spectrum out. pixel_of out x y 0 c = block_mean im k x y c)"
proof -
  from new_image_smaller [OF wf k(1-3)] obtain new where
    new: "new_image junk (width im div k) (height im div k) 1 (spectrum im) = Inr new" "wf_img new"
    "width new = width im div k" "height new = height im div k" "depth new = 1" "spectrum new = spectrum im" by blast
  have "\<exists>out. rfold (compress_pixel im k) (forXY (width new) (height new)) new = Inr out \<and>
      compressed im k new (channels (forXY (width new) (height new))) out"
  proof (rule rfold_prefix)
    show "compressed im k new (channels []) new" by (simp add: compressed_def channels_def)
    fix ps p qs jm
    assume split: "forXY (width new) (height new) = ps @ p # qs" and jm: "compressed im k new (channels ps) jm"
    obtain x y where p: "p = (x, y)" by (cases p)
    have "p \<in> set (forXY (width new) (height new))" unfolding split by simp
    with p have "x < width new" "y < height new" by auto
    from compress_pixel_step [OF wf new(2) k(1,4) new(3-6) sp this jm] p
    show "\<exists>jm'. compress_pixel im k p jm = Inr jm' \<and> compressed im k new (channels (ps @ [p])) jm'" by simp
  qed
  then obtain out where out: "rfold (compress_pixel im k) (forXY (width new) (height new)) new = Inr out"
    "compressed im k new (channels (forXY (width new) (height new))) out" by blast
  note fit = new_sizes_fit [OF wf k(1-3)]
  from k new(1,3,4) out(1) fit have "compress_image junk (int k) im = Inr out"
    by (simp add: compress_image_def)
  moreover from out(2) have "same_shape new out" by (simp add: compressed_def)
  then have "wf_img out" "width out = width new" "height out = height new" "depth out = depth new"
    "spectrum out = spectrum new" using new(2) same_shape_wf [of new out] by (auto simp: same_shape_def)
  moreover have "pixel_of out x y 0 c = block_mean im k x y c"
    if "x < width new" "y < height new" "c < spectrum new" for x y c
    using out(2) that by (auto simp: compressed_def channels_def)
  ultimately show ?thesis using new(3-6) by simp
qed

section \<open>Cropping\<close>

lemma at0_pixel:
  "x < width im \<Longrightarrow> y < height im \<Longrightarrow> z < depth im \<Longrightarrow> c < spectrum im \<Longrightarrow>
     at0 im (int x) (int y) (int z) (int c) = pixel_of im x y z c"
  by (simp add: at0_def pixel_of_def)

text \<open>A crop is the translated image, black where it reaches outside.\<close>

lemma get_crop_pixels:
  assumes "data im \<noteq> []"
    and ext: "w = extent x0 x1" "h = extent y0 y1" "d = extent z0 z1" "s = extent c0 c1"
    and pos: "0 < w" "0 < h" "0 < d" "0 < s" and size: "w * h * d * s \<le> 16 * 1024 * 1024 * 1024" "w * h < 2 ^ 31"
  shows "\<exists>out. get_crop x0 y0 z0 c0 x1 y1 z1 c1 im = Inr out \<and> wf_img out \<and>
    width out = w \<and> height out = h \<and> depth out = d \<and> spectrum out = s \<and>
    (\<forall>x < w. \<forall>y < h. \<forall>z < d. \<forall>c < s. pixel_of out x y z c =
       at0 im (min x0 x1 + int x) (min y0 y1 + int y) (min z0 z1 + int z) (min c0 c1 + int c))"
proof -
  let ?f = "\<lambda>i. at0 im (min x0 x1 + int (i mod w)) (min y0 y1 + int (i div w mod h))
                  (min z0 z1 + int (i div (w * h) mod d)) (min c0 c1 + int (i div (w * h * d)))"
  let ?out = "\<lparr>width = w, height = h, depth = d, spectrum = s, data = map ?f [0..<w * h * d * s]\<rparr>"
  have "get_crop x0 y0 z0 c0 x1 y1 z1 c1 im = Inr ?out"
    using assms(1) pos size(1) by (simp add: get_crop_def Let_def new_image_def not_less flip: ext)
  moreover have wf: "wf_img ?out" using pos size by (simp add: wf_img_def)
  moreover have "pixel_of ?out x y z c =
      at0 im (min x0 x1 + int x) (min y0 y1 + int y) (min z0 z1 + int z) (min c0 c1 + int c)"
    if "x < w" "y < h" "z < d" "c < s" for x y z c
    using wf_offset4 [OF wf, of x y z c] that radix_decode [OF that(1-3), of c] by (simp add: pixel_of_def)
  ultimately show ?thesis by (intro exI [of _ ?out]) simp
qed

lemma extent_up: "0 \<le> b - a \<Longrightarrow> b - a < 2 ^ 32 - 1 \<Longrightarrow> extent a b = nat (1 + b - a)"
  by (simp add: extent_def max_def min_def)

lemma extent_self: "extent a a = 1"
  by (simp add: extent_def)

lemma crop_translates:
  assumes wf: "wf_img im" and ne: "data im \<noteq> []" and w: "1 \<le> w" and h: "1 \<le> h"
    and r: "in_int x" "in_int y" "in_int (x + w)" "in_int (y + h)"
    and d: "int (depth im) < 2 ^ 31" "int (spectrum im) < 2 ^ 31"
    and size: "nat w * nat h * depth im * spectrum im \<le> 16 * 1024 * 1024 * 1024" "nat w * nat h < 2 ^ 31"
  shows "\<exists>out. crop_image x y w h im = Inr out \<and> wf_img out \<and> width out = nat w \<and> height out = nat h \<and>
    depth out = depth im \<and> spectrum out = spectrum im \<and>
    (\<forall>i < nat w. \<forall>j < nat h. \<forall>z < depth im. \<forall>c < spectrum im.
       pixel_of out i j z c = at0 im (x + int i) (y + int j) (int z) (int c))"
proof -
  from ne wf have pos: "0 < depth im" "0 < spectrum im" by (cases "width im = 0"; auto simp: wf_img_def)+
  have e: "extent x (x + w - 1) = nat w" "extent y (y + h - 1) = nat h"
    "extent 0 (int (depth im) - 1) = depth im" "extent 0 (int (spectrum im) - 1) = spectrum im"
    using r w h d pos by (simp_all add: extent_def in_int_def max_def min_def)
  have "crop_image x y w h im =
      get_crop x y 0 0 (x + w - 1) (y + h - 1) (int (depth im) - 1) (int (spectrum im) - 1) im"
    using r w h by (simp add: crop_image_def in_int_def)
  moreover have "min x (x + w - 1) = x" "min y (y + h - 1) = y" "min 0 (int (depth im) - 1) = 0"
    "min 0 (int (spectrum im) - 1) = 0" using w h pos by auto
  ultimately show ?thesis
    using get_crop_pixels [OF ne e(1) [symmetric] e(2) [symmetric] e(3) [symmetric] e(4) [symmetric]] pos w h size
    by simp
qed

text \<open>Sizes below one are taken to the other side: nothing is cropped to two pixels.\<close>

lemma crop_nothing:
  assumes "w \<le> 0" "- (2 ^ 31) \<le> w"
  shows "extent x (x + w - 1) = nat (2 - w)"
  using assms by (simp add: extent_def max_def min_def)

lemma split_channels:
  assumes wf: "wf_img im" and ne: "data im \<noteq> []" and small: "depth im < 2 ^ 31" "spectrum im < 2 ^ 31"
    and size: "width im * height im * depth im \<le> 16 * 1024 * 1024 * 1024"
  shows "\<exists>out. get_channel (int c) im = Inr out \<and> width out = width im \<and> height out = height im \<and>
    depth out = depth im \<and> spectrum out = 1 \<and>
    (\<forall>x < width im. \<forall>y < height im. \<forall>z < depth im. pixel_of out x y z 0 =
       (if c < spectrum im then pixel_of im x y z c else 0))"
proof -
  from ne wf have pos: "0 < width im" "0 < height im" "0 < depth im"
    by (cases "width im = 0"; auto simp: wf_img_def)+
  have lt: "width im * height im < 2 ^ 31" using wf by (simp add: wf_img_def)
  with pos have "width im < 2 ^ 31" "height im < 2 ^ 31"
    by (metis le_less_trans mult_le_mono1 nat_mult_1 Suc_leI One_nat_def mult.commute)+
  then have e: "extent 0 (int (width im) - 1) = width im" "extent 0 (int (height im) - 1) = height im"
    "extent 0 (int (depth im) - 1) = depth im" "extent (int c) (int c) = 1"
    using pos small by (simp_all add: extent_def max_def min_def)
  have m: "min 0 (int (width im) - 1) = 0" "min 0 (int (height im) - 1) = 0" "min 0 (int (depth im) - 1) = 0"
    using pos by auto
  have a: "at0 im (int x) (int y) (int z) (int c) = (if c < spectrum im then pixel_of im x y z c else 0)"
    if "x < width im" "y < height im" "z < depth im" for x y z
    using that by (simp add: at0_def pixel_of_def)
  show ?thesis
    using get_crop_pixels [OF ne e(1) [symmetric] e(2) [symmetric] e(3) [symmetric] e(4) [symmetric]] pos size lt
    by (auto simp: get_channel_def m a)
qed

section \<open>Overlaying\<close>

lemma distinct_forXY: "distinct (forXY w h)"
proof -
  have "distinct (map (\<lambda>xy. fst xy + snd xy * w) (forXY w h))" by (simp add: forXY_offsets)
  then show ?thesis by (simp add: distinct_map)
qed

lemma wf_offset2:
  assumes "wf_img im" "x < width im" "y < height im"
  shows "offset2 im x y = offset4 im x y 0 0"
proof -
  have "x + y * width im < width im * height im" using assms by (intro index_less)
  then show ?thesis using assms(1) wf_offset(1) [OF assms] by (simp add: offset2_def wf_img_def)
qed

lemma load_px_pixel:
  assumes "wf_img im" "x < width im" "y < height im"
  shows "load_px im (offset2 im x y) = Inr (pixel_of im x y 0 0)"
  using wf_offset [OF assms] by (simp add: wf_offset2 [OF assms] load_px_def pixel_of_def)

definition middle :: "byte \<Rightarrow> byte \<Rightarrow> byte" where
  "middle a b = of_nat ((unat a + unat b + 1) div 2)"

definition overlaid :: "cimg \<Rightarrow> cimg \<Rightarrow> (nat \<times> nat) set \<Rightarrow> cimg \<Rightarrow> bool" where
  "overlaid img1 img2 ps jm \<longleftrightarrow> same_shape img1 jm \<and>
     (\<forall>x y z c. x < width img1 \<longrightarrow> y < height img1 \<longrightarrow> z < depth img1 \<longrightarrow> c < spectrum img1 \<longrightarrow>
        pixel_of jm x y z c =
          (if (x, y) \<in> ps \<and> z = 0 \<and> c = 0 \<and> x < width img2 \<and> y < height img2
           then middle (pixel_of img1 x y 0 0) (pixel_of img2 x y 0 0) else pixel_of img1 x y z c))"

lemma overlay_step:
  assumes wf: "wf_img img1" "wf_img img2" and xy: "x < width img1" "y < height img1" "(x, y) \<notin> ps"
    and jm: "overlaid img1 img2 ps jm" and inside: "x < width img2" "y < height img2"
  shows "\<exists>jm'. rbind (load_px jm (offset2 jm x y)) (\<lambda>a. rbind (load_px img2 (offset2 img2 x y)) (\<lambda>b.
      store_px (offset2 jm x y) (of_nat ((unat a + unat b + 1) div 2)) jm)) = Inr jm' \<and>
    overlaid img1 img2 (insert (x, y) ps) jm'"
proof -
  let ?v = "middle (pixel_of img1 x y 0 0) (pixel_of img2 x y 0 0)"
  from jm have s: "same_shape img1 jm" by (simp add: overlaid_def)
  then have dims: "width jm = width img1" "height jm = height img1" "depth jm = depth img1" "spectrum jm = spectrum img1"
    by (simp_all add: same_shape_def)
  have wfj: "wf_img jm" using s wf(1) by (rule same_shape_wf)
  have first: "0 < depth img1" "0 < spectrum img1" using wf_first [OF wf(1) xy(1)] by auto
  with jm xy have old: "pixel_of jm x y 0 0 = pixel_of img1 x y 0 0" by (simp add: overlaid_def)
  have j: "x < width jm" "y < height jm" "0 < depth jm" "0 < spectrum jm" using xy first dims by simp_all
  obtain jm' where jm': "store_px (offset4 jm x y 0 0) ?v jm = Inr jm'" "same_shape jm jm'"
    "\<forall>x' y' z' c'. x' < width jm \<longrightarrow> y' < height jm \<longrightarrow> z' < depth jm \<longrightarrow> c' < spectrum jm \<longrightarrow>
       pixel_of jm' x' y' z' c' = (if x' = x \<and> y' = y \<and> z' = 0 \<and> c' = 0 then ?v else pixel_of jm x' y' z' c')"
    using store_px_pixel [OF wfj j, of ?v] by blast
  have "overlaid img1 img2 (insert (x, y) ps) jm'"
    unfolding overlaid_def
  proof (intro conjI allI impI)
    show "same_shape img1 jm'" using s jm'(2) by (simp add: same_shape_def)
    fix x' y' z' c' assume r: "x' < width img1" "y' < height img1" "z' < depth img1" "c' < spectrum img1"
    with jm have "pixel_of jm x' y' z' c' =
        (if (x', y') \<in> ps \<and> z' = 0 \<and> c' = 0 \<and> x' < width img2 \<and> y' < height img2
         then middle (pixel_of img1 x' y' 0 0) (pixel_of img2 x' y' 0 0) else pixel_of img1 x' y' z' c')"
      by (simp add: overlaid_def)
    moreover have "pixel_of jm' x' y' z' c' =
        (if x' = x \<and> y' = y \<and> z' = 0 \<and> c' = 0 then ?v else pixel_of jm x' y' z' c')"
      using jm'(3) r dims by simp
    ultimately show "pixel_of jm' x' y' z' c' =
        (if (x', y') \<in> insert (x, y) ps \<and> z' = 0 \<and> c' = 0 \<and> x' < width img2 \<and> y' < height img2
         then middle (pixel_of img1 x' y' 0 0) (pixel_of img2 x' y' 0 0) else pixel_of img1 x' y' z' c')"
      using inside by auto
  qed
  moreover have "load_px jm (offset4 jm x y 0 0) = Inr (pixel_of img1 x y 0 0)"
    using load_px_pixel [OF wfj j(1,2)] wf_offset2 [OF wfj j(1,2)] old by simp
  with jm'(1) have "rbind (load_px jm (offset2 jm x y)) (\<lambda>a. rbind (load_px img2 (offset2 img2 x y)) (\<lambda>b.
      store_px (offset2 jm x y) (of_nat ((unat a + unat b + 1) div 2)) jm)) = Inr jm'"
    by (simp add: load_px_pixel [OF wf(2) inside] wf_offset2 [OF wfj j(1,2)] middle_def)
  ultimately show ?thesis by blast
qed

lemma overlay_pixels:
  assumes wf: "wf_img img1" "wf_img img2"
  shows "\<exists>out. overlay_image img2 img1 = Inr out \<and> overlaid img1 img2 UNIV out"
proof -
  let ?w = "min (width img1) (width img2)" and ?h = "min (height img1) (height img2)"
  have "\<exists>out. overlay_image img2 img1 = Inr out \<and>
      overlaid img1 img2 (set (forXY (width img1) (height img1))) out"
    unfolding overlay_image_def Let_def
  proof (rule rfold_prefix)
    show "overlaid img1 img2 (set []) img1" by (simp add: overlaid_def)
    fix ps p qs jm
    assume split: "forXY (width img1) (height img1) = ps @ p # qs" and jm: "overlaid img1 img2 (set ps) jm"
    obtain x y where p: "p = (x, y)" by (cases p)
    have "p \<in> set (forXY (width img1) (height img1))" unfolding split by simp
    with p have xy: "x < width img1" "y < height img1" by auto
    have new: "(x, y) \<notin> set ps" using distinct_forXY [of "width img1" "height img1"] unfolding split p by auto
    show "\<exists>jm'. (case p of (x, y) \<Rightarrow> \<lambda>im. if x < ?w \<and> y < ?h
        then rbind (load_px im (offset2 im x y)) (\<lambda>a. rbind (load_px img2 (offset2 img2 x y)) (\<lambda>b.
               store_px (offset2 im x y) (of_nat ((unat a + unat b + 1) div 2)) im))
        else Inr im) jm = Inr jm' \<and> overlaid img1 img2 (set (ps @ [p])) jm'"
    proof (cases "x < width img2 \<and> y < height img2")
      case True
      with overlay_step [OF wf xy new jm] xy show ?thesis by (simp add: p)
    next
      case False
      with jm have "overlaid img1 img2 (insert (x, y) (set ps)) jm" by (auto simp: overlaid_def)
      with False show ?thesis by (auto simp: p)
    qed
  qed
  then show ?thesis by (auto simp: overlaid_def)
qed

lemma middle_same: "middle a a = a"
  by (simp add: middle_def)

lemma middle_comm: "middle a b = middle b a"
  by (simp add: middle_def add.commute)

lemma middle_between:
  assumes "a \<le> b"
  shows "a \<le> middle a b \<and> middle a b \<le> b"
proof -
  have ab: "unat a \<le> unat b" using assms by (simp add: word_le_nat_alt)
  have "unat b < 256" using unsigned_less [of b] by simp
  with ab have "unat (middle a b) = (unat a + unat b + 1) div 2"
    by (simp add: middle_def unat_of_nat)
  with ab show ?thesis by (auto simp: word_le_nat_alt)
qed

section \<open>Stars\<close>

definition dark :: "byte \<Rightarrow> cimg \<Rightarrow> nat \<Rightarrow> nat \<Rightarrow> bool" where
  "dark v im x y \<longleftrightarrow> pixel_of im x y 0 0 < v"

definition dark_pairs :: "byte \<Rightarrow> cimg \<Rightarrow> nat \<Rightarrow> nat \<Rightarrow> nat \<Rightarrow> nat" where
  "dark_pairs v im max_radius x y =
     (if dark v im x y
      then length (filter (\<lambda>r. x + r < width im \<and> dark v im (x + r) y) [1..<Suc max_radius]) else 0)"

lemma threshold_wf: "wf_img im \<Longrightarrow> wf_img (threshold v im)"
  by (rule same_shape_wf) (simp_all add: threshold_def same_shape_def)

lemma threshold_px:
  assumes "wf_img im" "x < width im" "y < height im"
  shows "load_px (threshold v im) (offset2 (threshold v im) x y) = Inr (if dark v im x y then 0 else 1)"
proof -
  have "offset2 (threshold v im) x y = offset2 im x y" by (simp add: offset2_def threshold_def)
  moreover have "(if v \<le> p then 1 else 0) = (if p < v then 0 else 1 :: byte)" for p
    by (cases "v \<le> p") (simp_all add: leD)
  ultimately show ?thesis using wf_offset [OF assms]
    by (simp add: wf_offset2 [OF assms] load_px_def threshold_def dark_def pixel_of_def)
qed

lemma star_along_row:
  assumes "wf_img im" "y < height im"
  shows "is_star (threshold v im) x y r = Inr (x + r < width im \<and> dark v im (x + r) y)"
proof (cases "x + r < width im")
  case True
  with threshold_px [OF assms(1) _ assms(2), of "x + r" v] show ?thesis
    by (simp add: is_star_def) (simp add: threshold_def)
qed (simp add: is_star_def threshold_def)

lemma stars_at:
  assumes "wf_img im" "y < height im"
  shows "rfold (\<lambda>r n. rbind (is_star (threshold v im) x y r) (\<lambda>b. Inr (if b then n + 1 else n))) rs n =
    Inr (n + length (filter (\<lambda>r. x + r < width im \<and> dark v im (x + r) y) rs))"
  by (induction rs arbitrary: n) (auto simp: star_along_row [OF assms])

lemma stars_counted:
  assumes "wf_img im"
  shows "detect_stars i max_radius im =
    Inr (\<Sum>p\<leftarrow>forXY (width im) (height im). dark_pairs (of_int i) im max_radius (fst p) (snd p))"
proof -
  let ?v = "of_int i :: byte"
  let ?b = "threshold ?v im"
  let ?g = "\<lambda>p n. n + dark_pairs ?v im max_radius (fst p) (snd p)"
  have dims: "width ?b = width im" "height ?b = height im" by (simp_all add: threshold_def)
  have "detect_stars i max_radius im = Inr (fold ?g (forXY (width im) (height im)) 0) \<and> True"
    unfolding detect_stars_def Let_def dims
  proof (rule rfold_fold [where I = "\<lambda>_. True"])
    fix p and n :: nat assume "p \<in> set (forXY (width im) (height im))"
    then obtain x y where p: "p = (x, y)" "x < width im" "y < height im" by auto
    show "(case p of (x, y) \<Rightarrow> \<lambda>count. rbind (load_px ?b (offset2 ?b x y)) (\<lambda>p.
        if p = 0 then rfold (\<lambda>r count. rbind (is_star ?b x y r) (\<lambda>b. Inr (if b then count + 1 else count)))
           [1..<Suc max_radius] count
        else Inr count)) n = Inr (?g p n) \<and> True"
      using p by (simp only: prod.case threshold_px [OF assms p(2,3)] stars_at [OF assms p(3)])
        (simp add: dark_pairs_def)
  qed simp
  moreover have "fold ?g ps n = n + (\<Sum>p\<leftarrow>ps. dark_pairs ?v im max_radius (fst p) (snd p))" for ps n
    by (induction ps arbitrary: n) auto
  ultimately show ?thesis by simp
qed

section \<open>FITS files\<close>

definition fits_accepted :: "fits \<Rightarrow> bool" where
  "fits_accepted f \<longleftrightarrow> length (naxes f) = 3 \<and> \<not> (naxis f = 3 \<and> naxes f ! 2 \<noteq> 1)"

lemma convert_pixels:
  assumes "wf_img im" "depth im = 1" "spectrum im = 1" "pixels f = Some buffer"
    "length buffer = width im * height im"
  shows "convert_fits_to_cimg f im = Inr (im\<lparr>data := buffer\<rparr>, True)"
proof -
  let ?n = "width im * height im"
  let ?g = "\<lambda>p im. im\<lparr>data := (data im)[fst p + snd p * width im := buffer ! (fst p + snd p * width im)]\<rparr>"
  have len: "length (data im) = ?n" using assms by (simp add: wf_img_def)
  have run: "rfold (\<lambda>(x, y) im.
           if y * width im + x < length buffer then store_px (offset2 im x y) (buffer ! (y * width im + x)) im
           else Inl Uninitialised) (forXY (width im) (height im)) im =
      Inr (fold ?g (forXY (width im) (height im)) im) \<and> same_shape im (fold ?g (forXY (width im) (height im)) im)"
  proof (rule rfold_fold)
    fix p jm assume "p \<in> set (forXY (width im) (height im))" and s: "same_shape im jm"
    then obtain x y where p: "p = (x, y)" "x < width im" "y < height im" by auto
    from s have dims: "width jm = width im" "height jm = height im" "length (data jm) = length (data im)"
      by (simp_all add: same_shape_def)
    have wfj: "wf_img jm" using s assms(1) by (rule same_shape_wf)
    have "x + y * width im < ?n" using p(2,3) by (rule index_less)
    moreover have "offset2 jm x y = x + y * width im"
      using wf_offset2 [OF wfj] wf_offset(1) [OF wfj] p(2,3) dims by simp
    moreover have "same_shape im (?g p jm)" using s by (simp add: same_shape_def)
    ultimately show "(case p of (x, y) \<Rightarrow> \<lambda>im.
           if y * width im + x < length buffer then store_px (offset2 im x y) (buffer ! (y * width im + x)) im
           else Inl Uninitialised) jm = Inr (?g p jm) \<and> same_shape im (?g p jm)"
      using assms(5) dims len p(1) by (simp add: store_px_def add.commute)
  qed simp
  have "fold ?g ps jm = jm\<lparr>data := fold (\<lambda>i d. d[i := buffer ! i]) (map (\<lambda>p. fst p + snd p * width im) ps) (data jm)\<rparr>"
    if "width jm = width im" for ps and jm :: cimg
    using that by (induction ps arbitrary: jm) auto
  moreover have "fold (\<lambda>i d. d[i := buffer ! i]) [0..<m] d = take m buffer @ drop m d"
    if "m \<le> ?n" "length d = ?n" for m d
    using that assms(5)
    by (induction m) (auto simp: take_Suc_conv_app_nth list_update_append Cons_nth_drop_Suc [symmetric])
  from this [of ?n "data im"] len assms(5)
  have "fold (\<lambda>i d. d[i := buffer ! i]) [0..<?n] (data im) = buffer" by simp
  ultimately have all: "fold ?g (forXY (width im) (height im)) im = im\<lparr>data := buffer\<rparr>"
    by (simp add: forXY_offsets)
  from run have loop: "rfold (\<lambda>(x, y) im.
           if y * width im + x < length buffer then store_px (offset2 im x y) (buffer ! (y * width im + x)) im
           else Inl Uninitialised) (forXY (width im) (height im)) im = Inr (im\<lparr>data := buffer\<rparr>)"
    unfolding all by (rule conjunct1)
  have "?n < 2 ^ 31" using assms(1) by (simp add: wf_img_def)
  with loop show ?thesis by (simp add: convert_fits_to_cimg_def assms(4))
qed

text \<open>Whether pixels could be read does not matter for the answer.\<close>

lemma fits_answer:
  assumes "read_fits_image junk open_file filename im = Inr (out, ok)" "open_file filename = Some f"
  shows "ok \<longleftrightarrow> \<not> (naxis f = 3 \<and> naxes f ! 2 \<noteq> 1)"
  using assms by (auto simp: read_fits_image_def rbind_Inr_iff split: if_splits)

lemma fits_pixels:
  assumes f: "open_file filename = Some f" "pixels f = Some buffer" "length (naxes f) = 2"
    and d: "naxis f = 2" "0 < naxes f ! 0" "0 < naxes f ! 1" "naxes f ! 0 * naxes f ! 1 < 2 ^ 31"
    "length buffer = naxes f ! 0 * naxes f ! 1"
  shows "\<exists>out. read_fits_image junk open_file filename im = Inr (out, True) \<and> data out = buffer \<and>
    width out = naxes f ! 0 \<and> height out = naxes f ! 1"
proof -
  obtain new where new: "new_image junk (naxes f ! 0) (naxes f ! 1) 1 1 = Inr new" "wf_img new"
    "width new = naxes f ! 0" "height new = naxes f ! 1" "depth new = 1" "spectrum new = 1"
    using d by (auto simp: new_image_def wf_img_def)
  have "convert_fits_to_cimg f new = Inr (new\<lparr>data := buffer\<rparr>, True)"
    using new f(2) d(5) by (intro convert_pixels) simp_all
  with new(1,3,4) f d(1) show ?thesis by (simp add: read_fits_image_def)
qed

lemma fits_unreadable:
  assumes "open_file filename = Some f" "pixels f = None" "2 \<le> length (naxes f)" "naxis f = 2"
    "new_image junk (naxes f ! 0) (naxes f ! 1) 1 1 = Inr new" "width new * height new < 2 ^ 31"
  shows "read_fits_image junk open_file filename im = Inr (new, True)"
  using assms by (simp add: read_fits_image_def convert_fits_to_cimg_def)

text \<open>Ratios and images the loop is not made for.\<close>

lemma compress_zero: "compress_image junk 0 im = Inl DivByZero"
  by (simp add: compress_image_def)

lemma compress_negative:
  assumes wf: "wf_img im" and k: "0 < k" "k \<le> width im" "k \<le> height im"
  shows "compress_image junk (- int k) im = Inl (Throw ''CImg<unsigned char>::safe_size()'')"
proof -
  let ?w = "width im div k" and ?h = "height im div k"
  have pos: "0 < ?w" "0 < ?h" using k by (simp_all add: div_greater_zero_iff)
  have "width im * height im < 2 ^ 31" using wf by (simp add: wf_img_def)
  moreover have "?w \<le> width im * height im" "?h \<le> width im * height im"
    using k div_le_dividend [of "width im" k] div_le_dividend [of "height im" k]
    by (auto intro: le_trans [of _ "width im"] le_trans [of _ "height im"])
  ultimately have lt: "?w < 2 ^ 31" "?h < 2 ^ 31" by (blast intro: le_less_trans)+
  have u: "2 ^ 31 \<le> nat ((- int n) mod 2 ^ 32)" if "0 < n" "n < 2 ^ 31" for n
  proof -
    have "(- int n) mod 2 ^ 32 = 2 ^ 32 - int n"
      using that by (subst zmod_zminus1_eq_if) simp
    with that show ?thesis by simp
  qed
  have "2 ^ 31 * 2 ^ 31 \<le> nat ((- int ?w) mod 2 ^ 32) * nat ((- int ?h) mod 2 ^ 32)"
    using u [OF pos(1) lt(1)] u [OF pos(2) lt(2)] by (rule mult_le_mono)
  moreover have "0 < spectrum im" using wf k by (auto simp: wf_img_def)
  ultimately have "2 ^ 31 * 2 ^ 31 * 1 \<le>
      nat ((- int ?w) mod 2 ^ 32) * nat ((- int ?h) mod 2 ^ 32) * spectrum im"
    by (metis Suc_leI mult_le_mono One_nat_def)
  moreover have "0 < nat ((- int ?w) mod 2 ^ 32)" "0 < nat ((- int ?h) mod 2 ^ 32)"
    using less_le_trans [OF _ u [OF pos(1) lt(1)], of 0] less_le_trans [OF _ u [OF pos(2) lt(2)], of 0] by simp_all
  ultimately have "new_image junk (nat ((- int ?w) mod 2 ^ 32)) (nat ((- int ?h) mod 2 ^ 32)) 1 (spectrum im) =
      Inl (Throw ''CImg<unsigned char>::safe_size()'')"
    using \<open>0 < spectrum im\<close> by (simp add: new_image_def)
  with k(1) show ?thesis by (simp add: compress_image_def)
qed

lemma forXY_Cons: "0 < w \<Longrightarrow> 0 < h \<Longrightarrow> \<exists>r. forXY w h = (0, 0) # r"
  by (simp add: forXY_def upt_conv_Cons)

lemma block_sum_outside:
  assumes "wf_img im" "spectrum im = 2" "depth im = 1" "0 < k" "k \<le> width im" "k \<le> height im"
  shows "block_sum im k 0 0 2 = Inl OutOfBounds"
proof -
  have l: "length (data im) = width im * height im * 2" using assms by (simp add: wf_img_def)
  moreover have "length (data im) \<le> 16 * 1024 * 1024 * 1024"
    using assms(1) unfolding wf_img_def by blast
  ultimately have "offset4 im 0 0 0 2 = length (data im)"
    using assms(3) by (simp add: offset4_def mult.commute)
  moreover have "0 < width im div k" "0 < height im div k" using assms by (simp_all add: div_greater_zero_iff)
  then have "block im k 0 0 = whole_block k 0 0" by (rule block_whole)
  moreover obtain r where "whole_block k 0 0 = (0, 0) # r"
    using assms(4) by (auto simp: whole_block_def upt_conv_Cons)
  ultimately show ?thesis by (simp add: block_sum_def load_px_def)
qed

lemma compress_two_channels:
  assumes wf: "wf_img im" and k: "0 < k" "k \<le> width im" "k \<le> height im" "255 * (k * k) < 2 ^ 31"
    and sp: "spectrum im = 2" "depth im = 1"
  shows "compress_image junk (int k) im = Inl OutOfBounds"
proof -
  from new_image_smaller [OF wf k(1-3)] obtain new where
    new: "new_image junk (width im div k) (height im div k) 1 (spectrum im) = Inr new" "wf_img new"
    "width new = width im div k" "height new = height im div k" "depth new = 1" "spectrum new = spectrum im" by blast
  have pos: "0 < width new" "0 < height new" using k new by (simp_all add: div_greater_zero_iff)
  note step = compress_channel_step [OF wf new(2) k(1,4) new(3-6) pos]
  have "compressed im k new {} new" by (simp add: compressed_def)
  from step [of 0, OF _ this] sp new(6) obtain j0 where j0: "compress_channel im k 0 0 0 new = Inr j0"
    "compressed im k new {(0, 0, 0)} j0" by auto
  from step [of 1, OF _ j0(2)] sp new(6) obtain j1 where j1: "compress_channel im k 0 0 1 j0 = Inr j1" by auto
  have "compress_pixel im k (0, 0) new = Inl OutOfBounds"
    using j0(1) j1 block_sum_outside [OF wf sp k(1-3)] sp
    by (simp add: compress_pixel_def compress_channel_def [of im k 0 0 2])
  moreover obtain r where "forXY (width new) (height new) = (0, 0) # r" using forXY_Cons [OF pos] by blast
  ultimately show ?thesis using new(1) new_sizes_fit [OF wf k(1-3)] k(1)
    by (simp add: compress_image_def new(3,4))
qed

section \<open>Properties\<close>

text \<open>C32. Flipping leaves every image as it is, in both directions: the loop runs over all pixels and
  exchanges each with its mirror image, so that every pair is exchanged twice.\<close>

theorem flip_changes_nothing: "wf_img im \<Longrightarrow> flip direction im = Inr im"
  by (rule flip_nothing)

lemma flip_changes_nothing_witness:
  "flip 0 \<lparr>width = 2, height = 1, depth = 1, spectrum = 1, data = [3, 4]\<rparr> =
    Inr \<lparr>width = 2, height = 1, depth = 1, spectrum = 1, data = [3, 4]\<rparr>"
  by (rule flip_changes_nothing) (simp add: wf_img_def)



end
