(* ===== verification/Compress.thy ===== *)
theory Compress
  imports Paths
begin

text \<open>
  Compressing files and folders with zlib (\<open>src/src/components/io/compress.cpp\<close>, in its version for
  Linux). A disk is the contents of its files and the names of its folders. The gzip format and its
  reader, whether a file can be created or opened, the order in which a folder is listed, and how much
  of a buffer a write accepts are arguments.
\<close>

section \<open>Files and folders\<close>

record disk =
  contents :: "string \<Rightarrow> string option"
  folders :: "string \<Rightarrow> bool"

text \<open>
  \<open>gunzip\<close> gives what \<open>gzread\<close> delivers and whether an error follows; \<open>accepted\<close> what \<open>gzwrite\<close> answers
  for a buffer after what was written so far; \<open>listing\<close> is \<open>None\<close> where a folder cannot be opened.
\<close>

record zlib =
  gzip :: "string \<Rightarrow> string"
  gunzip :: "string \<Rightarrow> string \<times> bool"
  accepted :: "string \<Rightarrow> string \<Rightarrow> nat"
  creatable :: "string \<Rightarrow> bool"
  readable :: "string \<Rightarrow> bool"
  listing :: "disk \<Rightarrow> string \<Rightarrow> string list option"

definition CHUNK :: nat where
  "CHUNK = 16384"

definition put_file :: "string \<Rightarrow> string \<Rightarrow> disk \<Rightarrow> disk" where
  "put_file p s d = d\<lparr>contents := (contents d)(p \<mapsto> s)\<rparr>"

definition path_exists :: "string \<Rightarrow> disk \<Rightarrow> bool" where
  "path_exists p d \<longleftrightarrow> contents d p \<noteq> None \<or> folders d p"

section \<open>Single files\<close>

text \<open>
  The loop runs until \<open>eof\<close>. Reading a folder, or a file whose device fails, sets another flag and
  delivers nothing, for ever: \<open>ends\<close> says whether the end of the file can be reached.
\<close>

partial_function (option) compress_loop ::
    "(string \<Rightarrow> string \<Rightarrow> nat) \<Rightarrow> bool \<Rightarrow> string \<Rightarrow> string \<Rightarrow> (string \<times> bool) option" where
  "compress_loop accept ends s written =
     (let buf = take CHUNK s
      in if accept written buf \<noteq> length buf then Some (written, False)
         else if ends \<and> length s < CHUNK then Some (written @ buf, True)
         else compress_loop accept ends (drop CHUNK s) (written @ buf))"

definition compressed_name :: "string \<Rightarrow> string \<Rightarrow> string" where
  "compressed_name file_name output_folder = path_append output_folder (path_filename file_name @ ''.gz'')"

text \<open>The archive is created before the input is opened. A folder can be opened for reading.\<close>

definition compress_file :: "zlib \<Rightarrow> string \<Rightarrow> string \<Rightarrow> disk \<Rightarrow> (disk \<times> bool) option" where
  "compress_file z file_name output_folder d =
     (let out = compressed_name file_name output_folder
      in if \<not> path_exists file_name d then Some (d, False)
         else if \<not> creatable z out then Some (d, False)
         else let d = put_file out [] d
              in if \<not> readable z file_name then Some (put_file out (gzip z []) d, False)
                 else map_option (\<lambda>(written, ok). (put_file out (gzip z written) d, ok))
                   (case contents d file_name of
                      Some s \<Rightarrow> compress_loop (accepted z) True s []
                    | None \<Rightarrow> compress_loop (accepted z) False [] []))"

text \<open>The part of a name before its last dot; a dot at the front does not count.\<close>

definition path_stem :: "string \<Rightarrow> string" where
  "path_stem n =
     (if n = ''.'' \<or> n = ''..'' then n
      else case find_last_of ''.'' n of None \<Rightarrow> n | Some i \<Rightarrow> if i = 0 then n else take i n)"

definition decompressed_name :: "string \<Rightarrow> string \<Rightarrow> string" where
  "decompressed_name file_name output_folder =
     path_append output_folder (path_stem (path_filename file_name) @ ''.out'')"

text \<open>An error of \<open>gzread\<close> is negative and ends the loop like the end of the data.\<close>

function decompress_loop :: "(string \<Rightarrow> string \<Rightarrow> nat) \<Rightarrow> string \<Rightarrow> string \<Rightarrow> string \<times> bool" where
  "decompress_loop accept s written =
     (if s = [] then (written, True)
      else if accept written (take CHUNK s) \<noteq> length (take CHUNK s) then (written, False)
      else decompress_loop accept (drop CHUNK s) (written @ take CHUNK s))"
  by auto
termination
  by (relation "measure (\<lambda>(a, s, w). length s)") (auto simp: CHUNK_def)

declare decompress_loop.simps [simp del]

text \<open>The target is truncated before the archive is opened.\<close>

definition decompress_file ::
    "zlib \<Rightarrow> (string \<Rightarrow> string \<Rightarrow> nat) \<Rightarrow> string \<Rightarrow> string \<Rightarrow> disk \<Rightarrow> disk \<times> bool" where
  "decompress_file z fwrite file_name output_folder d =
     (let out = decompressed_name file_name output_folder
      in if \<not> path_exists file_name d then (d, False)
         else if \<not> creatable z out then (d, False)
         else let d = put_file out [] d
              in if \<not> readable z file_name then (d, False)
                 else let s = (case contents d file_name of Some s \<Rightarrow> fst (gunzip z s) | None \<Rightarrow> []);
                          r = decompress_loop fwrite s []
                      in (put_file out (fst r) d, snd r))"

section \<open>Folders\<close>

text \<open>
  One archive for the files of a folder, one after the other; a folder in it gets an archive of its own
  beside it. The name of the archive is printed into 256 bytes, the names of entries into 512.
\<close>

fun write_file :: "(string \<Rightarrow> string \<Rightarrow> nat) \<Rightarrow> string list \<Rightarrow> string \<Rightarrow> string \<times> bool" where
  "write_file accept [] written = (written, True)"
| "write_file accept (buf # bufs) written =
     (if accept written buf \<noteq> length buf then (written, False) else write_file accept bufs (written @ buf))"

function chunks :: "string \<Rightarrow> string list" where
  "chunks s = (if s = [] then [] else take CHUNK s # chunks (drop CHUNK s))"
  by auto
termination
  by (relation "measure length") (auto simp: CHUNK_def)

declare chunks.simps [simp del]

function (sequential) compress_folder :: "zlib \<Rightarrow> string \<Rightarrow> disk \<Rightarrow> (disk \<times> bool) result"
  and compress_entries :: "zlib \<Rightarrow> string \<Rightarrow> string list \<Rightarrow> string \<Rightarrow> disk \<Rightarrow> (string \<times> disk \<times> bool) result" where
  "compress_folder z folder_name d =
     (let out = folder_name @ ''.gz''
      in if 256 \<le> length out then Inl OutOfBounds
         else if \<not> creatable z out then Inr (d, False)
         else let d = put_file out [] d
              in case listing z d folder_name of
                   None \<Rightarrow> Inr (put_file out (gzip z []) d, False)
                 | Some ns \<Rightarrow> rbind (compress_entries z folder_name ns [] d) (\<lambda>(written, d, ok).
                     Inr (put_file out (gzip z written) d, ok)))"
| "compress_entries z folder_name [] written d = Inr (written, d, True)"
| "compress_entries z folder_name (n # ns) written d =
     (if n = ''.'' \<or> n = ''..'' then compress_entries z folder_name ns written d
      else let file_name = folder_name @ ''/'' @ n
           in if 512 \<le> length file_name then Inr (written, d, False)
              else if folders d file_name then
                rbind (compress_folder z file_name d) (\<lambda>(d, ok).
                  if ok then compress_entries z folder_name ns written d else Inr (written, d, False))
              else case contents d file_name of
                None \<Rightarrow> compress_entries z folder_name ns written d
              | Some s \<Rightarrow>
                  if \<not> readable z file_name then compress_entries z folder_name ns written d
                  else let r = write_file (accepted z) (chunks s) written
                       in if snd r then compress_entries z folder_name ns (fst r) d
                          else Inr (fst r, d, False))"
  by pat_completeness auto
termination
  by (relation "measures [\<lambda>x. case x of Inl (z, f, d) \<Rightarrow> 2 * (512 - length f) + 1
        | Inr (z, f, ns, w, d) \<Rightarrow> 2 * (512 - length f),
      \<lambda>x. case x of Inl _ \<Rightarrow> 0 | Inr (z, f, ns, w, d) \<Rightarrow> length ns]") auto

declare compress_folder.simps [simp del]

section \<open>Streams\<close>

text \<open>
  \<open>deflate\<close> and \<open>inflate\<close> of zlib take the state of the stream, the input at hand and the room for
  output, and give whether the call was an error of use, the new state, the input left and the output.
  A stream that is finished answers, but takes nothing and gives nothing.
\<close>

type_synonym 's codec = "'s \<Rightarrow> string \<Rightarrow> nat \<Rightarrow> bool \<times> 's \<times> string \<times> string"

partial_function (option) deflate_all ::
    "'s codec \<Rightarrow> 's \<Rightarrow> string \<Rightarrow> string \<Rightarrow> (bool \<times> 's \<times> string) option" where
  "deflate_all deflate st inp file =
     (let r = deflate st inp 8192; st' = fst (snd r); rest = fst (snd (snd r)); out = snd (snd (snd r))
      in if fst r then Some (False, st', file)
         else if length out = 8192 then deflate_all deflate st' rest (file @ out)
         else Some (True, st', file @ out))"

text \<open>Buffers are read until one is not full, which may be an empty one.\<close>

function buffers :: "string \<Rightarrow> string list" where
  "buffers s = (if length s < 8192 then [s] else take 8192 s # buffers (drop 8192 s))"
  by auto
termination
  by (relation "measure length") auto

declare buffers.simps [simp del]

fun deflate_buffers ::
    "'s codec \<Rightarrow> 's \<Rightarrow> string list \<Rightarrow> string \<Rightarrow> (bool \<times> 's \<times> string) option" where
  "deflate_buffers deflate st [] file = Some (True, st, file)"
| "deflate_buffers deflate st (b # bs) file =
     Option.bind (deflate_all deflate st b file) (\<lambda>(ok, st, file).
       if ok then deflate_buffers deflate st bs file else Some (False, st, file))"

text \<open>\<open>found\<close> are the regular files below the folder, \<open>None\<close> for one that cannot be opened.\<close>

definition create_zip ::
    "'s codec \<Rightarrow> 's option \<Rightarrow> bool \<Rightarrow> string option list \<Rightarrow> (string option \<times> bool) option" where
  "create_zip deflate init openable found =
     (if \<not> openable then Some (None, False)
      else case init of None \<Rightarrow> Some (Some [], False)
      | Some st \<Rightarrow> map_option (\<lambda>(ok, st, file). (Some file, ok))
          (deflate_buffers deflate st (concat (map (\<lambda>c. case c of None \<Rightarrow> [] | Some s \<Rightarrow> buffers s) found)) []))"

text \<open>What was inflated is appended to a file named after the number of bytes read so far.\<close>

partial_function (option) inflate_all ::
    "'s codec \<Rightarrow> string \<Rightarrow> 's \<Rightarrow> nat \<Rightarrow> string \<Rightarrow> (string \<Rightarrow> string) \<Rightarrow>
      (bool \<times> 's \<times> nat \<times> (string \<Rightarrow> string)) option" where
  "inflate_all inflate dest st total_in inp out_files =
     (let r = inflate st inp 8192; st' = fst (snd r); rest = fst (snd (snd r)); out = snd (snd (snd r));
          n = total_in + (length inp - length rest); entry_path = dest @ ''/'' @ show_nat n @ ''.txt''
      in if fst r then Some (False, st', n, out_files)
         else let fs = (if out = [] then out_files else out_files(entry_path := out_files entry_path @ out))
              in if length out = 8192 then inflate_all inflate dest st' n rest fs
                 else Some (True, st', n, fs))"

function full_buffers :: "string \<Rightarrow> string list" where
  "full_buffers s = (if s = [] then [] else take 8192 s # full_buffers (drop 8192 s))"
  by auto
termination
  by (relation "measure length") auto

declare full_buffers.simps [simp del]

fun inflate_buffers ::
    "'s codec \<Rightarrow> string \<Rightarrow> 's \<Rightarrow> nat \<Rightarrow> string list \<Rightarrow> (string \<Rightarrow> string) \<Rightarrow>
      (bool \<times> (string \<Rightarrow> string)) option" where
  "inflate_buffers inflate dest st n [] fs = Some (True, fs)"
| "inflate_buffers inflate dest st n (b # bs) fs =
     Option.bind (inflate_all inflate dest st n b fs) (\<lambda>(ok, st, n, fs).
       if ok then inflate_buffers inflate dest st n bs fs else Some (False, fs))"

definition extract_zip ::
    "'s codec \<Rightarrow> 's option \<Rightarrow> string option \<Rightarrow> string \<Rightarrow> (string \<Rightarrow> string) \<Rightarrow> ((string \<Rightarrow> string) \<times> bool) option" where
  "extract_zip inflate init zip_file destination_folder fs = (case zip_file of
     None \<Rightarrow> Some (fs, False)
   | Some s \<Rightarrow> (case init of None \<Rightarrow> Some (fs, False)
     | Some st \<Rightarrow> map_option (\<lambda>(ok, fs). (fs, ok))
         (inflate_buffers inflate destination_folder st 0 (full_buffers s) fs)))"

section \<open>Lemmas\<close>

text \<open>A device that takes every buffer.\<close>

definition takes_all :: "(string \<Rightarrow> string \<Rightarrow> nat) \<Rightarrow> bool" where
  "takes_all accept \<longleftrightarrow> (\<forall>w b. accept w b = length b)"

lemma takes_all_D: "takes_all accept \<Longrightarrow> accept w b = length b"
  by (simp add: takes_all_def)

lemma CHUNK_pos: "0 < CHUNK"
  by (simp add: CHUNK_def)

lemma compress_loop_all:
  assumes "takes_all accept"
  shows "compress_loop accept True s w = Some (w @ s, True)"
proof (induction s arbitrary: w rule: length_induct)
  case (1 s)
  show ?case
  proof (cases "length s < CHUNK")
    case True
    with assms show ?thesis by (subst compress_loop.simps) (simp add: takes_all_D)
  next
    case False
    then have "length (drop CHUNK s) < length s" using CHUNK_pos by simp
    with 1 have "compress_loop accept True (drop CHUNK s) (w @ take CHUNK s) =
        Some ((w @ take CHUNK s) @ drop CHUNK s, True)" by blast
    with False assms show ?thesis by (subst compress_loop.simps) (simp add: takes_all_D)
  qed
qed

text \<open>Without an end of the file the loop can only be left by a write that fails.\<close>

lemma compress_loop_endless:
  "compress_loop accept ends s w = Some r \<Longrightarrow> \<not> ends \<longrightarrow> \<not> snd r \<and> \<not> takes_all accept"
  by (erule compress_loop.raw_induct [where P = "\<lambda>accept ends _ _ r. \<not> ends \<longrightarrow> \<not> snd r \<and> \<not> takes_all accept", rotated])
    (auto simp: Let_def takes_all_def simp del: length_take split: if_splits)

lemma compress_loop_hangs: "takes_all accept \<Longrightarrow> compress_loop accept False s w = None"
  using compress_loop_endless [of accept False s w] by (cases "compress_loop accept False s w") auto

lemma decompress_loop_all:
  assumes "takes_all accept"
  shows "decompress_loop accept s w = (w @ s, True)"
proof (induction s arbitrary: w rule: length_induct)
  case (1 s)
  show ?case
  proof (cases "s = []")
    case True
    then show ?thesis by (subst decompress_loop.simps) simp
  next
    case False
    then have "length (drop CHUNK s) < length s" using CHUNK_pos by simp
    with 1 have "decompress_loop accept (drop CHUNK s) (w @ take CHUNK s) =
        ((w @ take CHUNK s) @ drop CHUNK s, True)" by blast
    with False assms show ?thesis by (subst decompress_loop.simps) (simp add: takes_all_D)
  qed
qed

lemma put_file_simps [simp]:
  "contents (put_file p s d) = (contents d)(p \<mapsto> s)" "folders (put_file p s d) = folders d"
  "put_file p s (put_file p t d) = put_file p s d"
  by (simp_all add: put_file_def)

lemma path_exists_put [simp]: "path_exists p (put_file p s d)"
  by (simp add: path_exists_def)

text \<open>Names.\<close>

lemma filename_path_append:
  assumes "CHR ''/'' \<notin> set n" "n \<noteq> []"
  shows "path_filename (path_append dir n) = n"
proof -
  have "\<not> is_absolute n" using assms by (cases n) (auto simp: is_absolute_def)
  moreover have "path_filename (d @ n) = n" if "d = [] \<or> last d = CHR ''/''" for d
    using that assms(1) by (cases d rule: rev_cases) auto
  ultimately show ?thesis using assms(1) by (auto simp: path_append_def)
qed

lemma find_last_of_suffix: "c \<notin> set t \<Longrightarrow> find_last_of [c] (s @ c # t) = Some (length s)"
proof (induction s)
  case Nil
  then have n: "find_last_of [c] t = None" by (subst find_last_of_None) simp
  show ?case by (simp only: append_Nil find_last_of.simps n option.case) simp
qed simp

lemma stem_gz:
  assumes "n \<noteq> []"
  shows "path_stem (n @ ''.gz'') = n"
proof -
  have "CHR ''.'' \<notin> set ''gz''" by simp
  from find_last_of_suffix [OF this, of n] have "find_last_of ''.'' (n @ ''.gz'') = Some (length n)" by simp
  moreover have "n @ ''.gz'' \<noteq> ''.''" "n @ ''.gz'' \<noteq> ''..''"
    using arg_cong [of "n @ ''.gz''" _ last] by auto
  ultimately show ?thesis using assms by (simp add: path_stem_def)
qed

text \<open>Single files, one after the other.\<close>

lemma compress_file_regular:
  assumes "contents d f = Some s" "creatable z (compressed_name f o1)" "readable z f" "takes_all (accepted z)"
    and "compressed_name f o1 \<noteq> f"
  shows "compress_file z f o1 d = Some (put_file (compressed_name f o1) (gzip z s) d, True)"
  using assms by (simp add: compress_file_def Let_def path_exists_def compress_loop_all)

lemma decompress_file_regular:
  assumes "contents d f = Some s" "creatable z (decompressed_name f o2)" "readable z f" "takes_all fwrite"
    and "decompressed_name f o2 \<noteq> f"
  shows "decompress_file z fwrite f o2 d = (put_file (decompressed_name f o2) (fst (gunzip z s)) d, True)"
  using assms by (simp add: decompress_file_def Let_def path_exists_def decompress_loop_all)

lemma last_names: "last (compressed_name f o1) = CHR ''z''" "last (decompressed_name f o2) = CHR ''t''"
proof -
  have "n \<noteq> [] \<Longrightarrow> last (path_append p n) = last n" for p n by (simp add: path_append_def)
  then show "last (compressed_name f o1) = CHR ''z''" "last (decompressed_name f o2) = CHR ''t''"
    by (simp_all add: compressed_name_def decompressed_name_def)
qed

lemma path_filename_compressed:
  assumes "path_filename f \<noteq> []"
  shows "path_filename (compressed_name f o1) = path_filename f @ ''.gz''"
  using path_filename_no_slash [of f] unfolding compressed_name_def
  by (intro filename_path_append) auto

lemma round_trip_name:
  assumes "path_filename f \<noteq> []"
  shows "decompressed_name (compressed_name f o1) o2 = path_append o2 (path_filename f @ ''.out'')"
  unfolding decompressed_name_def path_filename_compressed [OF assms] stem_gz [OF assms] ..

section \<open>Folders\<close>

lemma chunks_concat: "concat (chunks s) = s"
proof (induction s rule: length_induct)
  case (1 s)
  show ?case
  proof (cases "s = []")
    case False
    then have "length (drop CHUNK s) < length s" using CHUNK_pos by simp
    with 1 have "concat (chunks (drop CHUNK s)) = drop CHUNK s" by blast
    with False show ?thesis by (subst chunks.simps) simp
  qed (simp add: chunks.simps)
qed

lemma write_file_all: "takes_all accept \<Longrightarrow> write_file accept bufs w = (w @ concat bufs, True)"
  by (induction bufs arbitrary: w) (auto simp: takes_all_D)

lemma write_file_whole: "snd (write_file accept bufs w) \<Longrightarrow> fst (write_file accept bufs w) = w @ concat bufs"
  by (induction bufs arbitrary: w) (auto split: if_splits)

text \<open>Compressing a folder changes its archive and what lies below the folder.\<close>

definition below :: "string \<Rightarrow> string \<Rightarrow> bool" where
  "below f p \<longleftrightarrow> (\<exists>r. p = f @ ''/'' @ r)"

lemma below_trans: "below (f @ ''/'' @ n) p \<Longrightarrow> below f p" "below f ((f @ ''/'' @ n) @ ''.gz'')"
  by (auto simp: below_def)

lemma compress_folder_cases:
  assumes "compress_folder z f d = Inr (d', ok)"
  obtains (refused) "d' = d" "\<not> ok"
  | (unlisted) "d' = put_file (f @ ''.gz'') (gzip z []) d" "\<not> ok"
  | (listed) ns w e where "listing z (put_file (f @ ''.gz'') [] d) f = Some ns"
      "compress_entries z f ns [] (put_file (f @ ''.gz'') [] d) = Inr (w, e, ok)"
      "d' = put_file (f @ ''.gz'') (gzip z w) e" "\<not> 256 \<le> length (f @ ''.gz'')" "creatable z (f @ ''.gz'')"
  using assms
  by (subst (asm) compress_folder.simps)
    (auto simp: Let_def rbind_Inr_iff split: if_split_asm option.split_asm)

lemma compress_entries_cases:
  assumes "compress_entries z f (n # ns) w d = Inr r"
  obtains (skip) "compress_entries z f ns w d = Inr r"
      "n = ''.'' \<or> n = ''..'' \<or> contents d (f @ ''/'' @ n) = None \<or> \<not> readable z (f @ ''/'' @ n)"
      "n = ''.'' \<or> n = ''..'' \<or> \<not> folders d (f @ ''/'' @ n)"
      "n = ''.'' \<or> n = ''..'' \<or> \<not> 512 \<le> length (f @ ''/'' @ n)"
  | (long) "r = (w, d, False)"
  | (sub) e where "\<not> (n = ''.'' \<or> n = ''..'')" "\<not> 512 \<le> length (f @ ''/'' @ n)" "folders d (f @ ''/'' @ n)"
      "compress_folder z (f @ ''/'' @ n) d = Inr (e, True)" "compress_entries z f ns w e = Inr r"
  | (sub_failed) e where "\<not> (n = ''.'' \<or> n = ''..'')" "\<not> 512 \<le> length (f @ ''/'' @ n)"
      "folders d (f @ ''/'' @ n)" "compress_folder z (f @ ''/'' @ n) d = Inr (e, False)" "r = (w, e, False)"
  | (file_read) s where "\<not> (n = ''.'' \<or> n = ''..'')" "\<not> 512 \<le> length (f @ ''/'' @ n)" "\<not> folders d (f @ ''/'' @ n)"
      "contents d (f @ ''/'' @ n) = Some s" "readable z (f @ ''/'' @ n)"
      "snd (write_file (accepted z) (chunks s) w)" "compress_entries z f ns (w @ s) d = Inr r"
  | (file_failed) w' where "r = (w', d, False)"
proof -
  note t = assms [unfolded compress_entries.simps Let_def]
  show thesis
  proof (cases "n = ''.'' \<or> n = ''..''")
    case True
    with t have "compress_entries z f ns w d = Inr r" by (simp only: if_True)
    then show thesis using True by (intro skip) blast+
  next
    case dots: False
    with t have t: "(if 512 \<le> length (f @ ''/'' @ n) then Inr (w, d, False)
        else if folders d (f @ ''/'' @ n) then
          rbind (compress_folder z (f @ ''/'' @ n) d) (\<lambda>(d, ok).
            if ok then compress_entries z f ns w d else Inr (w, d, False))
        else case contents d (f @ ''/'' @ n) of None \<Rightarrow> compress_entries z f ns w d
        | Some s \<Rightarrow> if \<not> readable z (f @ ''/'' @ n) then compress_entries z f ns w d
            else if snd (write_file (accepted z) (chunks s) w)
              then compress_entries z f ns (fst (write_file (accepted z) (chunks s) w)) d
              else Inr (fst (write_file (accepted z) (chunks s) w), d, False)) = Inr r"
      by (simp only: if_False)
    show thesis
    proof (cases "512 \<le> length (f @ ''/'' @ n)")
      case True
      with t show thesis by (intro long) (simp only: if_True sum.inject)
    next
      case short: False
      note t = t [unfolded if_not_P [OF this]]
      show thesis
      proof (cases "folders d (f @ ''/'' @ n)")
        case True
        note t = t [unfolded if_P [OF this]]
        then obtain e ok where e: "compress_folder z (f @ ''/'' @ n) d = Inr (e, ok)"
          "(if ok then compress_entries z f ns w e else Inr (w, e, False)) = Inr r"
          by (auto simp: rbind_Inr_iff)
        show thesis
        proof (cases ok)
          case ok: True
          with e show thesis using dots short True by (intro sub) simp_all
        next
          case False
          with e show thesis using dots short True by (intro sub_failed) auto
        qed
      next
        case nofolder: False
        note t = t [unfolded if_not_P [OF this]]
        show thesis
        proof (cases "contents d (f @ ''/'' @ n)")
          case None
          with t nofolder short show thesis by (intro skip) simp_all
        next
          case (Some s)
          note t = t [unfolded Some option.case]
          have w: "snd (write_file (accepted z) (chunks s) w) \<Longrightarrow> fst (write_file (accepted z) (chunks s) w) = w @ s"
            using write_file_whole [of "accepted z" "chunks s" w] by (simp add: chunks_concat)
          show thesis
          proof (cases "readable z (f @ ''/'' @ n)")
            case True
            with t show thesis
              using dots short nofolder Some w file_read [of s] file_failed by (auto split: if_splits)
          next
            case False
            with t nofolder short show thesis by (intro skip) simp_all
          qed
        qed
      qed
    qed
  qed
qed

lemma other_case: "A \<or> B \<or> C \<Longrightarrow> \<not> (A \<or> B) \<Longrightarrow> C"
  by blast

lemma written_whole: "snd (write_file accept (chunks s) w) \<Longrightarrow> fst (write_file accept (chunks s) w) = w @ s"
  by (simp add: write_file_whole chunks_concat)

text \<open>What holds of every run: the rule follows the cases above.\<close>

lemma compress_runs:
  assumes refused: "\<And>f d. P f d d False"
    and unlisted: "\<And>f d. P f d (put_file (f @ ''.gz'') (gzip z []) d) False"
    and listed: "\<And>f d ns w e ok. listing z (put_file (f @ ''.gz'') [] d) f = Some ns \<Longrightarrow>
      Q f ns [] (put_file (f @ ''.gz'') [] d) w e ok \<Longrightarrow> P f d (put_file (f @ ''.gz'') (gzip z w) e) ok"
    and finished: "\<And>f w d. Q f [] w d w d True"
    and skip: "\<And>f n ns w d w' e' b.
      n = ''.'' \<or> n = ''..'' \<or> contents d (f @ ''/'' @ n) = None \<or> \<not> readable z (f @ ''/'' @ n) \<Longrightarrow>
      n = ''.'' \<or> n = ''..'' \<or> \<not> folders d (f @ ''/'' @ n) \<Longrightarrow>
      Q f ns w d w' e' b \<Longrightarrow> Q f (n # ns) w d w' e' b"
    and stop: "\<And>f n ns w d w'. Q f (n # ns) w d w' d False"
    and sub: "\<And>f n ns w d e w' e' b. \<not> (n = ''.'' \<or> n = ''..'') \<Longrightarrow> folders d (f @ ''/'' @ n) \<Longrightarrow>
      compress_folder z (f @ ''/'' @ n) d = Inr (e, True) \<Longrightarrow> P (f @ ''/'' @ n) d e True \<Longrightarrow> Q f ns w e w' e' b \<Longrightarrow> Q f (n # ns) w d w' e' b"
    and sub_failed: "\<And>f n ns w d e. \<not> (n = ''.'' \<or> n = ''..'') \<Longrightarrow> folders d (f @ ''/'' @ n) \<Longrightarrow>
      P (f @ ''/'' @ n) d e False \<Longrightarrow> Q f (n # ns) w d w e False"
    and file_read: "\<And>f n ns w d s w' e' b. \<not> (n = ''.'' \<or> n = ''..'') \<Longrightarrow> \<not> folders d (f @ ''/'' @ n) \<Longrightarrow>
      contents d (f @ ''/'' @ n) = Some s \<Longrightarrow> readable z (f @ ''/'' @ n) \<Longrightarrow>
      Q f ns (w @ s) d w' e' b \<Longrightarrow> Q f (n # ns) w d w' e' b"
  shows "compress_folder z f d = Inr (d', ok) \<Longrightarrow> P f d d' ok"
    and "compress_entries z f ns w d = Inr (w', e', b) \<Longrightarrow> Q f ns w d w' e' b"
proof -
  have folder: "z' = z \<longrightarrow> (\<forall>d' ok. compress_folder z f d = Inr (d', ok) \<longrightarrow> P f d d' ok)"
    and entries: "z'' = z \<longrightarrow> (\<forall>w' e' b. compress_entries z g ns w h = Inr (w', e', b) \<longrightarrow> Q g ns w h w' e' b)"
    for z' z'' f d g ns w h
  proof (induction z' f d and z'' g ns w h rule: compress_folder_compress_entries.induct)
    case (1 z' f d)
    show ?case
    proof (intro impI allI)
      fix d' ok assume z: "z' = z" and r: "compress_folder z f d = Inr (d', ok)"
      from r show "P f d d' ok"
      proof (cases rule: compress_folder_cases)
        case (listed ns w e)
        have "Q f ns [] (put_file (f @ ''.gz'') [] d) w e ok"
          using 1 [OF refl _ _ refl] listed(1,2,4,5) by (simp only: z) simp
        from assms(3) [OF listed(1) this] show ?thesis by (simp only: listed(3))
      qed (simp_all only: refused unlisted not_False_eq_True)
    qed
  next
    case (2 z'' f w d)
    show ?case by (simp add: finished)
  next
    case (3 z'' f n ns w d)
    show ?case
    proof (intro impI allI)
      fix w' e' b assume z: "z'' = z" and r: "compress_entries z f (n # ns) w d = Inr (w', e', b)"
      from r show "Q f (n # ns) w d w' e' b"
      proof (cases rule: compress_entries_cases)
        case skip
        have "Q f ns w d w' e' b"
        proof (cases "n = ''.'' \<or> n = ''..''")
          case True
          from mp [OF 3(1) [OF this] z, rule_format, OF skip(1)] show ?thesis .
        next
          case False
          note c = other_case [OF skip(4) False] other_case [OF skip(3) False] other_case [OF skip(2) False]
          show ?thesis
          proof (cases "contents d (f @ ''/'' @ n)")
            case None
            from mp [OF 3(4) [OF False refl c(1,2) None] z, rule_format, OF skip(1)] show ?thesis .
          next
            case (Some s)
            with c(3) z have "\<not> readable z'' (f @ ''/'' @ n)" by (simp only: option.distinct simp_thms)
            from mp [OF 3(5) [OF False refl c(1,2) Some this] z, rule_format, OF skip(1)] show ?thesis .
          qed
        qed
        from assms(5) [OF skip(2,3) this] show ?thesis .
      next
        case long
        then show ?thesis by (simp only: prod.inject assms(6))
      next
        case (sub e)
        from mp [OF 3(2) [OF sub(1) refl sub(2,3)] z, rule_format, OF sub(4)] have p: "P (f @ ''/'' @ n) d e True" .
        from sub(4) have r: "compress_folder z'' (f @ ''/'' @ n) d = Inr (e, True)" by (simp only: z)
        note mp [OF 3(3) [OF sub(1) refl sub(2,3) r refl TrueI] z]
        from this [rule_format, OF sub(5)] have "Q f ns w e w' e' b" .
        from assms(7) [OF sub(1,3,4) p this] show ?thesis .
      next
        case (sub_failed e)
        from mp [OF 3(2) [OF sub_failed(1) refl sub_failed(2,3)] z, rule_format, OF sub_failed(4)]
        have p: "P (f @ ''/'' @ n) d e False" .
        from assms(8) [OF sub_failed(1,3) p] sub_failed(5) show ?thesis by (simp only: prod.inject)
      next
        case (file_read s)
        from file_read(5,6) have r: "\<not> \<not> readable z'' (f @ ''/'' @ n)"
          "snd (write_file (accepted z'') (chunks s) w)" by (simp_all only: z not_not)
        note mp [OF 3(6) [OF file_read(1) refl file_read(2-4) r(1) refl r(2)] z, unfolded z]
        from this [unfolded written_whole [OF file_read(6)], rule_format, OF file_read(7)]
        have "Q f ns (w @ s) d w' e' b" .
        from assms(9) [OF file_read(1,3-5) this] show ?thesis .
      next
        case (file_failed w'')
        then show ?thesis by (simp only: prod.inject assms(6))
      qed
    qed
  qed
  show "P f d d' ok" if "compress_folder z f d = Inr (d', ok)"
    by (rule folder [rule_format, OF refl that])
  show "Q f ns w d w' e' b" if "compress_entries z f ns w d = Inr (w', e', b)"
    by (rule entries [rule_format, OF refl that])
qed

text \<open>What the archive of a folder holds: the files that are listed and can be read, and nothing between.\<close>

definition entry_text :: "zlib \<Rightarrow> disk \<Rightarrow> string \<Rightarrow> string \<Rightarrow> string" where
  "entry_text z d f n =
     (if n = ''.'' \<or> n = ''..'' \<or> folders d (f @ ''/'' @ n) then []
      else case contents d (f @ ''/'' @ n) of None \<Rightarrow> []
        | Some s \<Rightarrow> if readable z (f @ ''/'' @ n) then s else [])"

lemma not_below: "\<not> below f p \<Longrightarrow> \<not> below (f @ ''/'' @ n) p \<and> p \<noteq> (f @ ''/'' @ n) @ ''.gz''"
  by (auto simp: below_def)

lemma folder_frame:
  assumes "compress_folder z f d = Inr (d', ok)"
  shows "folders d' = folders d \<and> (\<forall>p. p \<noteq> f @ ''.gz'' \<longrightarrow> \<not> below f p \<longrightarrow> contents d' p = contents d p)"
proof -
  let ?P = "\<lambda>f d d' (ok :: bool). folders d' = folders d \<and>
    (\<forall>p. p \<noteq> f @ ''.gz'' \<longrightarrow> \<not> below f p \<longrightarrow> contents d' p = contents d p)"
  let ?Q = "\<lambda>f (ns :: string list) (w :: string) d (w' :: string) e' (b :: bool). folders e' = folders d \<and>
    (\<forall>p. \<not> below f p \<longrightarrow> contents e' p = contents d p)"
  have sub: "folders e = folders d \<and> (\<forall>p. \<not> below f p \<longrightarrow> contents e p = contents d p)"
    if "?P (f @ ''/'' @ n) d e ok" for f n d e ok
    using that not_below [of f _ n] by metis
  show ?thesis
  proof (rule compress_runs(1) [of ?P z ?Q, OF _ _ _ _ _ _ _ _ _ assms], goal_cases)
    case (3 f d ns w e ok)
    then show ?case by simp
  next
    case (7 f n ns w d e w' e' b)
    from sub [OF 7(4)] 7(5) show ?case by simp
  next
    case (8 f n ns w d e)
    from sub [OF 8(3)] show ?case .
  qed simp_all
qed

text \<open>
  \<open>separate\<close>: names are names, and no listed entry is the archive of a listed folder.
\<close>

definition separate :: "disk \<Rightarrow> string \<Rightarrow> string list \<Rightarrow> bool" where
  "separate d f ns \<longleftrightarrow> (\<forall>n \<in> set ns. CHR ''/'' \<notin> set n \<and>
     (folders d (f @ ''/'' @ n) \<longrightarrow> n @ ''.gz'' \<notin> set ns))"

lemma entry_text_frame:
  assumes "folders e = folders d" "contents e (f @ ''/'' @ m) = contents d (f @ ''/'' @ m)"
  shows "entry_text z e f m = entry_text z d f m"
  unfolding entry_text_def assms ..

lemma sub_keeps_entries:
  assumes run: "compress_folder z (f @ ''/'' @ n) d = Inr (e, ok)" and n: "folders d (f @ ''/'' @ n)"
    and sep: "separate d f ns" "n \<in> set ns" "m \<in> set ns"
  shows "entry_text z e f m = entry_text z d f m"
proof (rule entry_text_frame)
  note frame = folder_frame [OF run]
  from frame show "folders e = folders d" ..
  have "m \<noteq> n @ ''.gz''" using sep n unfolding separate_def by blast
  then have "f @ ''/'' @ m \<noteq> (f @ ''/'' @ n) @ ''.gz''" by simp
  moreover have "\<not> below (f @ ''/'' @ n) (f @ ''/'' @ m)"
  proof
    assume "below (f @ ''/'' @ n) (f @ ''/'' @ m)"
    then obtain r where "m = n @ ''/'' @ r" by (auto simp: below_def)
    then have "CHR ''/'' \<in> set m" by simp
    with sep(1,3) show False unfolding separate_def by blast
  qed
  ultimately show "contents e (f @ ''/'' @ m) = contents d (f @ ''/'' @ m)" using frame by blast
qed

lemma entries_text:
  assumes "compress_entries z f ns w d = Inr (w', e', b)" "separate d f ns" "b"
  shows "w' = w @ concat (map (entry_text z d f) ns)"
proof -
  let ?Q = "\<lambda>f ns w d w' (e' :: disk) b. b \<longrightarrow>
    (\<forall>N. set ns \<subseteq> set N \<longrightarrow> separate d f N \<longrightarrow> w' = w @ concat (map (entry_text z d f) ns))"
  have "?Q f ns w d w' e' b"
  proof (rule compress_runs(2) [of "\<lambda>_ _ _ _. True" z ?Q, OF _ _ _ _ _ _ _ _ _ assms(1)], goal_cases)
    case (5 f n ns w d w' e' b)
    then have "entry_text z d f n = []"
      unfolding entry_text_def by (auto split: option.split)
    with 5(3) show ?case by auto
  next
    case (7 f n ns w d e w' e' b)
    show ?case
    proof (intro impI allI)
      fix N assume b: "b" and N: "set (n # ns) \<subseteq> set N" "separate d f N"
      have keep: "entry_text z e f m = entry_text z d f m" if "m \<in> set ns" for m
        using sub_keeps_entries [OF 7(3,2) N(2)] N(1) that by auto
      from folder_frame [OF 7(3)] N(2) have "separate e f N" by (simp add: separate_def)
      from 7(5) [rule_format, OF b _ this] N(1) have "w' = w @ concat (map (entry_text z e f) ns)" by simp
      moreover have "map (entry_text z e f) ns = map (entry_text z d f) ns" using keep by simp
      moreover have "entry_text z d f n = []" using 7(2) by (simp add: entry_text_def)
      ultimately show "w' = w @ concat (map (entry_text z d f) (n # ns))" by simp
    qed
  next
    case (9 f n ns w d s w' e' b)
    then have "entry_text z d f n = s" by (simp add: entry_text_def)
    with 9(5) show ?case by auto
  qed simp_all
  with assms show ?thesis by blast
qed

lemma folder_archive_text:
  assumes run: "compress_folder z f d = Inr (d', True)"
    and sep: "\<And>ns. listing z (put_file (f @ ''.gz'') [] d) f = Some ns \<Longrightarrow> separate d f ns"
  shows "\<exists>ns. listing z (put_file (f @ ''.gz'') [] d) f = Some ns \<and>
    contents d' (f @ ''.gz'') = Some (gzip z (concat (map (entry_text z d f) ns)))"
  using run
proof (cases rule: compress_folder_cases)
  case (listed ns w e)
  from sep [OF listed(1)] have "separate (put_file (f @ ''.gz'') [] d) f ns" by (simp add: separate_def)
  from entries_text [OF listed(2) this] have w: "w = concat (map (entry_text z (put_file (f @ ''.gz'') [] d) f) ns)"
    by simp
  have "entry_text z (put_file (f @ ''.gz'') [] d) f = entry_text z d f"
    by (rule ext, rule entry_text_frame) simp_all
  with w listed(1,3) show ?thesis by simp
qed simp_all

text \<open>A folder without folders is always compressed, if the device takes everything.\<close>

lemma flat_entries:
  assumes "takes_all (accepted z)"
    and "\<forall>n \<in> set ns. length (f @ ''/'' @ n) < 512 \<and> (n = ''.'' \<or> n = ''..'' \<or> \<not> folders d (f @ ''/'' @ n))"
  shows "\<exists>w'. compress_entries z f ns w d = Inr (w', d, True)"
  using assms(2)
proof (induction ns arbitrary: w)
  case (Cons n ns)
  then have ih: "\<exists>w'. compress_entries z f ns v d = Inr (w', d, True)" for v by simp
  show ?case
  proof (cases "n = ''.'' \<or> n = ''..''")
    case True
    with ih [of w] show ?thesis by (simp only: compress_entries.simps if_True)
  next
    case False
    with Cons.prems have "\<not> 512 \<le> length (f @ ''/'' @ n)" "\<not> folders d (f @ ''/'' @ n)" by auto
    with False have "compress_entries z f (n # ns) w d =
        (case contents d (f @ ''/'' @ n) of None \<Rightarrow> compress_entries z f ns w d
         | Some s \<Rightarrow> if \<not> readable z (f @ ''/'' @ n) then compress_entries z f ns w d
             else compress_entries z f ns (w @ s) d)"
      using assms(1) by (simp only: compress_entries.simps Let_def if_False write_file_all chunks_concat
          fst_conv snd_conv if_True)
    with ih show ?thesis by (auto split: option.split)
  qed
qed simp

text \<open>A finished stream swallows every buffer that follows.\<close>

lemma deflate_finished:
  assumes "\<And>inp n. \<exists>rest. deflate st inp n = (False, st, rest, [])"
  shows "deflate_buffers deflate st bs file = Some (True, st, file)"
proof (induction bs)
  case (Cons b bs)
  from assms [of b 8192] have "deflate_all deflate st b file = Some (True, st, file)"
    by (subst deflate_all.simps) auto
  with Cons show ?case by simp
qed simp

text \<open>Errors in the data do not show in the answer.\<close>

lemma inflate_all_ok:
  "inflate_all inflate dest st n inp fs = Some r \<Longrightarrow> (\<forall>st inp n. \<not> fst (inflate st inp n)) \<longrightarrow> fst r"
  by (erule inflate_all.raw_induct [where P = "\<lambda>inflate _ _ _ _ _ r. (\<forall>st inp n. \<not> fst (inflate st inp n)) \<longrightarrow> fst r", rotated])
    (auto simp: Let_def split: if_splits)

lemma extract_ignores_errors:
  assumes "\<And>st inp n. \<not> fst (inflate st inp n)" "\<And>st n inp fs. inflate_all inflate dest st n inp fs \<noteq> None"
  shows "\<exists>fs'. extract_zip inflate (Some st) (Some archive) dest fs = Some (fs', True)"
proof -
  have "\<exists>fs'. inflate_buffers inflate dest st n bs fs = Some (True, fs')" for st n bs fs
  proof (induction bs arbitrary: st n fs)
    case (Cons b bs)
    obtain r where r: "inflate_all inflate dest st n b fs = Some r" using assms(2) by blast
    with inflate_all_ok [OF this] assms(1) have "fst r" by blast
    with r Cons show ?case by (cases r) auto
  qed simp
  then show ?thesis by (fastforce simp: extract_zip_def)
qed

section \<open>Properties\<close>

text \<open>C34. A file that is compressed and decompressed again comes back as it was, under its name with
  \<open>.out\<close>, on every disk, where both files can be created and the device has room. A folder given as the
  file is never given back: the loop does not end. An archive named \<open>.out\<close> that is decompressed into
  its own folder is emptied, and the answer is still true.\<close>

theorem compress_round_trip:
  assumes z: "\<And>s. gunzip z (gzip z s) = (s, False)" "takes_all (accepted z)" "takes_all fwrite"
    and all: "\<And>p. creatable z p" "\<And>p. readable z p"
    and f: "path_filename f \<noteq> []"
  shows "(\<forall>s. contents d f = Some s \<and> compressed_name f o1 \<noteq> f \<longrightarrow>
      (\<exists>d1 d2. compress_file z f o1 d = Some (d1, True) \<and>
        decompress_file z fwrite (compressed_name f o1) o2 d1 = (d2, True) \<and>
        contents d2 (path_append o2 (path_filename f @ ''.out'')) = Some s)) \<and>
    (contents d f = None \<and> folders d f \<and> compressed_name f o1 \<noteq> f \<longrightarrow> compress_file z f o1 d = None) \<and>
    (\<forall>s. contents d f = Some s \<and> decompressed_name f o2 = f \<and> gunzip z [] = ([], False) \<longrightarrow>
      (\<exists>d1. decompress_file z fwrite f o2 d = (d1, True) \<and> contents d1 f = Some []))"
proof (intro conjI allI impI)
  fix s assume "contents d f = Some s \<and> compressed_name f o1 \<noteq> f"
  then have "compress_file z f o1 d = Some (put_file (compressed_name f o1) (gzip z s) d, True)"
    using z all by (intro compress_file_regular) simp_all
  moreover have "decompressed_name (compressed_name f o1) o2 \<noteq> compressed_name f o1"
    using last_names [of f o1] last_names(2) [of "compressed_name f o1" o2] by auto
  then have "decompress_file z fwrite (compressed_name f o1) o2 (put_file (compressed_name f o1) (gzip z s) d) =
      (put_file (decompressed_name (compressed_name f o1) o2) (fst (gunzip z (gzip z s)))
        (put_file (compressed_name f o1) (gzip z s) d), True)"
    using z all by (intro decompress_file_regular) simp_all
  ultimately show "\<exists>d1 d2. compress_file z f o1 d = Some (d1, True) \<and>
        decompress_file z fwrite (compressed_name f o1) o2 d1 = (d2, True) \<and>
        contents d2 (path_append o2 (path_filename f @ ''.out'')) = Some s"
    using round_trip_name [OF f, of o1 o2] z(1) by simp
next
  assume "contents d f = None \<and> folders d f \<and> compressed_name f o1 \<noteq> f"
  then show "compress_file z f o1 d = None"
    using all z(2) by (auto simp: compress_file_def Let_def path_exists_def compress_loop_hangs)
next
  fix s assume "contents d f = Some s \<and> decompressed_name f o2 = f \<and> gunzip z [] = ([], False)"
  then show "\<exists>d1. decompress_file z fwrite f o2 d = (d1, True) \<and> contents d1 f = Some []"
    using all z(3) by (simp add: decompress_file_def Let_def path_exists_def decompress_loop_all)
qed

text \<open>For the witnesses: a format that puts one character in front, and a disk with a folder of two files.\<close>

definition plain_zlib :: "(disk \<Rightarrow> string \<Rightarrow> string list option) \<Rightarrow> zlib" where
  "plain_zlib ls = \<lparr>gzip = (\<lambda>s. CHR ''H'' # s), gunzip = (\<lambda>s. (tl s, False)), accepted = (\<lambda>w b. length b),
     creatable = (\<lambda>p. True), readable = (\<lambda>p. True), listing = ls\<rparr>"

definition night_disk :: disk where
  "night_disk = \<lparr>contents = [''night/a'' \<mapsto> ''stars'', ''night/b'' \<mapsto> ''moon''], folders = (\<lambda>p. p = ''night'')\<rparr>"

lemma compress_round_trip_witness:
  "\<exists>d1 d2. compress_file (plain_zlib (\<lambda>d p. None)) ''night/a'' ''out'' night_disk = Some (d1, True) \<and>
    decompress_file (plain_zlib (\<lambda>d p. None)) (\<lambda>w b. length b) (compressed_name ''night/a'' ''out'') ''back'' d1 = (d2, True) \<and>
    contents d2 (path_append ''back'' (path_filename ''night/a'' @ ''.out'')) = Some ''stars''"
proof -
  have "last (compressed_name ''night/a'' ''out'') = CHR ''z''" by (rule last_names)
  then have "compressed_name ''night/a'' ''out'' \<noteq> ''night/a''" by auto
  moreover have "path_filename ''night/a'' \<noteq> []" by code_simp
  moreover have "contents night_disk ''night/a'' = Some ''stars''" by (simp add: night_disk_def)
  ultimately show ?thesis
    using compress_round_trip [of "plain_zlib (\<lambda>d p. None)" "\<lambda>w b. length b" "''night/a''" night_disk "''out''" "''back''",
      THEN conjunct1] by (simp add: plain_zlib_def takes_all_def)
qed

text \<open>Wherever compressing a folder succeeds, its archive holds the readable files in the order they
  are listed, one directly after the other, and nothing that tells them apart; folders in it are not in
  it. Apart from the archive nothing outside the folder changes. It succeeds for every folder without
  folders if the device has room. A folder whose name has 253 characters or more is written past the
  end of a buffer.\<close>

theorem folder_archive:
  assumes run: "compress_folder z f d = Inr (d', True)"
    and sep: "\<And>ns. listing z (put_file (f @ ''.gz'') [] d) f = Some ns \<Longrightarrow> separate d f ns"
  shows "(\<exists>ns. listing z (put_file (f @ ''.gz'') [] d) f = Some ns \<and>
      contents d' (f @ ''.gz'') = Some (gzip z (concat (map (entry_text z d f) ns)))) \<and>
    folders d' = folders d \<and>
    (\<forall>p. p \<noteq> f @ ''.gz'' \<and> \<not> below f p \<longrightarrow> contents d' p = contents d p) \<and>
    (\<forall>g h. 253 \<le> length g \<longrightarrow> compress_folder z g h = Inl OutOfBounds)"
proof -
  have "compress_folder z g h = Inl OutOfBounds" if "253 \<le> length g" for g h
    using that by (subst compress_folder.simps) simp
  with folder_archive_text [OF run sep] folder_frame [OF run] show ?thesis by blast
qed

lemma folder_archive_witness:
  "\<exists>d'. compress_folder (plain_zlib (\<lambda>d p. Some [''.'', ''a'', ''b''])) ''night'' night_disk = Inr (d', True) \<and>
    contents d' ''night.gz'' = Some ''Hstarsmoon''"
proof -
  let ?z = "plain_zlib (\<lambda>d p. Some [''.'', ''a'', ''b''])"
  let ?d = "put_file ''night.gz'' [] night_disk"
  have no: "\<not> folders night_disk (''night'' @ ''/'' @ n)" for n by (simp add: night_disk_def)
  have "\<exists>w. compress_entries ?z ''night'' [''.'', ''a'', ''b''] [] ?d = Inr (w, ?d, True)"
    by (rule flat_entries) (simp_all add: plain_zlib_def takes_all_def night_disk_def)
  then have "\<exists>d'. compress_folder ?z ''night'' night_disk = Inr (d', True)"
    by (subst compress_folder.simps) (auto simp: plain_zlib_def)
  then obtain d' where run: "compress_folder ?z ''night'' night_disk = Inr (d', True)" by blast
  have "separate night_disk ''night'' [''.'', ''a'', ''b'']"
    unfolding separate_def using no by simp
  then have "\<exists>ns. listing ?z (put_file (''night'' @ ''.gz'') [] night_disk) ''night'' = Some ns \<and>
      contents d' (''night'' @ ''.gz'') = Some (gzip ?z (concat (map (entry_text ?z night_disk ''night'') ns)))"
    by (intro folder_archive [OF run, THEN conjunct1]) (simp add: plain_zlib_def)
  with run show ?thesis
    by (auto simp: plain_zlib_def entry_text_def night_disk_def)
qed


text \<open>For the witness: a stream that gives its first buffer and is finished.\<close>

definition once :: "bool codec" where
  "once st inp n = (False, True, [], if st then [] else inp)"


end
