(* ===== verification/Xml.thy ===== *)
theory Xml
  imports Json
begin

text \<open>
  Reading, changing and converting XML (\<open>src/src/components/property/xml.cpp\<close>). A document of pugixml
  is a tree of elements and texts; parsing and saving a file, the evaluation of XPath and the printing
  of JSON are arguments.
\<close>

section \<open>Trees\<close>

datatype xml =
    Element string "(string \<times> string) list" "xml list"
  | Text string

text \<open>\<open>child_value\<close>: the first text directly below; a text has nothing below it.\<close>

fun first_text :: "xml list \<Rightarrow> string option" where
  "first_text [] = None"
| "first_text (Text s # cs) = Some s"
| "first_text (Element n as xs # cs) = first_text cs"

definition text_of :: "xml list \<Rightarrow> string" where
  "text_of cs = (case first_text cs of Some s \<Rightarrow> s | None \<Rightarrow> [])"

section \<open>Conversion to JSON\<close>

definition put_attributes :: "(string \<times> string) list \<Rightarrow> (string \<times> json) list" where
  "put_attributes as = foldl (\<lambda>m (k, v). obj_put k (JStr v) m) [] as"

fun array_item :: "xml \<Rightarrow> json" where
  "array_item (Text s) = JObj [(''value'', JStr [])]"
| "array_item (Element n as cs) = JObj (obj_put ''value'' (JStr (text_of cs)) (put_attributes as))"

fun members :: "json \<Rightarrow> (string \<times> json) list" where
  "members (JObj m) = m"
| "members j = []"

text \<open>The object begins as null; assigning to a member makes it an object.\<close>

fun node_to_json :: "xml \<Rightarrow> json" where
  "node_to_json (Text s) = JNull"
| "node_to_json (Element name as cs) =
     (case map_of as ''type'' of
        Some t \<Rightarrow>
          if t = ''array'' then JObj [(name, JArr (map array_item cs))]
          else JObj [(name, JObj (obj_put ''value'' (JStr (text_of cs)) (put_attributes as)))]
      | None \<Rightarrow> foldl (\<lambda>j v. JObj (obj_put name v (members j))) JNull (map node_to_json cs))"

section \<open>Handles\<close>

text \<open>
  A node is a handle into its document. The one \<open>read_xml\<close> returns points into a document that is
  destroyed on return.
\<close>

datatype node = NullNode | Alive xml | Freed

fun child_named :: "string \<Rightarrow> xml list \<Rightarrow> xml option" where
  "child_named n [] = None"
| "child_named n (Text s # cs) = child_named n cs"
| "child_named n (Element m as xs # cs) = (if m = n then Some (Element m as xs) else child_named n cs)"

definition read_xml :: "(string \<Rightarrow> xml list option) \<Rightarrow> string \<Rightarrow> node" where
  "read_xml load_file filename = (case load_file filename of
     None \<Rightarrow> NullNode
   | Some doc \<Rightarrow> (case child_named ''root'' doc of None \<Rightarrow> NullNode | Some x \<Rightarrow> Freed))"

text \<open>A copy of the node becomes the only child of a new document; the null node adds nothing.\<close>

fun write_xml :: "(string \<Rightarrow> xml list \<Rightarrow> bool) \<Rightarrow> string \<Rightarrow> node \<Rightarrow> bool result" where
  "write_xml save_file filename NullNode = Inr (save_file filename [])"
| "write_xml save_file filename (Alive x) = Inr (save_file filename [x])"
| "write_xml save_file filename Freed = Inl Dangling"

definition validate_xml :: "(string \<Rightarrow> xml list option) \<Rightarrow> string \<Rightarrow> bool" where
  "validate_xml load_file filename \<longleftrightarrow> load_file filename \<noteq> None"

fun xml_to_json :: "(json \<Rightarrow> string result) \<Rightarrow> node \<Rightarrow> string result" where
  "xml_to_json dump NullNode = dump (JObj [([], JNull)])"
| "xml_to_json dump (Alive x) = dump (node_to_json x)"
| "xml_to_json dump Freed = Inl Dangling"

section \<open>Changing texts\<close>

fun put_text :: "string \<Rightarrow> xml list \<Rightarrow> xml list" where
  "put_text v [] = [Text v]"
| "put_text v (Text s # cs) = Text v # cs"
| "put_text v (Element n as xs # cs) = Element n as xs # put_text v cs"

text \<open>\<open>text().set\<close> at a position: the first text below the node is replaced, or one is appended.\<close>

fun set_text :: "string \<Rightarrow> nat list \<Rightarrow> xml \<Rightarrow> xml" where
  "set_text v [] (Text s) = Text v"
| "set_text v [] (Element n as cs) = Element n as (put_text v cs)"
| "set_text v (i # p) (Text s) = Text s"
| "set_text v (i # p) (Element n as cs) =
     Element n as (if i < length cs then cs[i := set_text v p (cs ! i)] else cs)"

text \<open>An attribute that is selected has no node, and setting its text does nothing.\<close>

definition modify_node ::
    "(xml \<Rightarrow> string \<Rightarrow> nat list option list) \<Rightarrow> string \<Rightarrow> string \<Rightarrow> xml \<Rightarrow> xml \<times> bool" where
  "modify_node select path value nd =
     (let nodes = select nd path
      in if nodes = [] then (nd, False)
         else (fold (\<lambda>p x. case p of None \<Rightarrow> x | Some p \<Rightarrow> set_text value p x) nodes nd, True))"

section \<open>Lemmas\<close>

text \<open>No text, no number, no list: nothing but names.\<close>

fun nulls :: "json \<Rightarrow> bool" where
  "nulls JNull = True"
| "nulls (JObj m) = list_all (\<lambda>kv. nulls (snd kv)) m"
| "nulls _ = False"

fun untyped :: "xml \<Rightarrow> bool" where
  "untyped (Text s) = True"
| "untyped (Element n as cs) = (map_of as ''type'' = None \<and> list_all untyped cs)"

lemma foldl_same_member:
  "js \<noteq> [] \<Longrightarrow> members j = [] \<or> (\<exists>v. members j = [(n, v)]) \<Longrightarrow>
     foldl (\<lambda>j v. JObj (obj_put n v (members j))) j js = JObj [(n, last js)]"
proof (induction js arbitrary: j)
  case (Cons v js)
  then have m: "obj_put n v (members j) = [(n, v)]" by auto
  show ?case
  proof (cases "js = []")
    case True
    with m show ?thesis by simp
  next
    case False
    with Cons.IH [of "JObj [(n, v)]"] m show ?thesis by simp
  qed
qed simp

lemma untyped_last_child:
  assumes "map_of as ''type'' = None" "cs \<noteq> []"
  shows "node_to_json (Element n as cs) = JObj [(n, node_to_json (last cs))]"
  using assms foldl_same_member [of "map node_to_json cs" JNull n] by (simp add: last_map)

lemma untyped_nulls: "untyped x \<Longrightarrow> nulls (node_to_json x)"
proof (induction x)
  case (Element n as cs)
  show ?case
  proof (cases "cs = []")
    case True
    with Element.prems show ?thesis by simp
  next
    case False
    then have l: "last cs \<in> set cs" by simp
    with Element.prems have "untyped (last cs)" by (simp add: list_all_iff)
    with Element.IH [OF l] untyped_last_child [of as cs n] False Element.prems show ?thesis by simp
  qed
qed simp

lemma map_of_put_attributes: "map_of (put_attributes as) = map_of (map (\<lambda>(k, v). (k, JStr v)) (rev as))"
proof (induction as rule: rev_induct)
  case (snoc p as)
  then show ?case by (cases p) (simp add: put_attributes_def)
qed (simp add: put_attributes_def)

text \<open>With a type other than \<open>array\<close> the attributes and the text are kept.\<close>

lemma typed_element:
  assumes "map_of as ''type'' = Some t" "t \<noteq> ''array''" "distinct (map fst as)" "k \<noteq> ''value''"
  shows "\<exists>m. node_to_json (Element n as cs) = JObj [(n, JObj m)] \<and>
    map_of m ''value'' = Some (JStr (text_of cs)) \<and> map_of m k = map_option JStr (map_of as k)"
proof -
  have "map_of (rev as) = map_of as" using assms(3) by (subst map_of_inject_set) (simp_all flip: rev_map)
  then have "map_of (map (\<lambda>(k, v). (k, JStr v)) (rev as)) k = map_option JStr (map_of as k)"
    by (simp add: map_of_map)
  with assms show ?thesis by (simp add: map_of_put_attributes)
qed

lemma first_text_put: "first_text (put_text v cs) = Some v"
  by (induction v cs rule: put_text.induct) auto

lemma modify_node_one:
  assumes "select (Element n as cs) path = [Some []]"
  shows "modify_node select path v (Element n as cs) = (Element n as (put_text v cs), True) \<and>
    text_of (put_text v cs) = v"
  using assms by (simp add: modify_node_def text_of_def first_text_put)

lemma modify_attribute:
  "select nd path = [None] \<Longrightarrow> modify_node select path v nd = (nd, True)"
  by (simp add: modify_node_def)

section \<open>Properties\<close>



end
