(* ===== verification/StarClusters.thy ===== *)
theory StarClusters
  imports Prelude Complex_Main "HOL-Library.Product_Lexorder"
begin

text \<open>
  Recognising stars in a thresholded image (\<open>src/src/components/image/draw.cpp\<close>): the clusters of
  white pixels and their frames. Pixel positions are \<open>int\<close>s and a frame holds \<open>float\<close>s; both are
  exact for images below \<open>2 ^ 23\<close> pixels a side, so frames are integers here, and the rectified
  frame, whose corners are halves, is rational. A \<open>std::set\<close> of positions is the increasing list of
  its elements.
\<close>

section \<open>Positions and frames\<close>

type_synonym pixel = "int \<times> int"
type_synonym frame = "int \<times> int \<times> int \<times> int"

definition offsets :: "pixel list" where
  "offsets = [(-1, -1), (0, -1), (1, -1), (-1, 0), (1, 0), (-1, 1), (0, 1), (1, 1)]"

definition shift :: "pixel \<Rightarrow> pixel \<Rightarrow> pixel" where
  "shift p d = (fst p + fst d, snd p + snd d)"

text \<open>
  One neighbour: it is found in the set of white pixels, pushed to the list, and erased. The log line
  that follows reads the erased element through a reference; it is left out.
\<close>

definition take_neighbour :: "pixel \<Rightarrow> pixel \<Rightarrow> pixel list \<times> pixel list \<Rightarrow> pixel list \<times> pixel list" where
  "take_neighbour p d st = (case st of (whitePixels, pixelsToBeProcessed) \<Rightarrow>
     if shift p d \<in> set whitePixels
     then (remove1 (shift p d) whitePixels, pixelsToBeProcessed @ [shift p d])
     else st)"

definition getAndRemoveNeighbours :: "pixel \<Rightarrow> pixel list \<times> pixel list \<Rightarrow> pixel list \<times> pixel list" where
  "getAndRemoveNeighbours p st = fold (take_neighbour p) offsets st"

definition widen :: "pixel \<Rightarrow> frame \<Rightarrow> frame" where
  "widen p f = (case f of (x1, y1, x2, y2) \<Rightarrow>
     (if fst p < x1 then fst p else x1, if snd p < y1 then snd p else y1,
      if fst p > x2 then fst p else x2, if snd p > y2 then snd p else y2))"

section \<open>The loops\<close>

lemma take_neighbour_eq:
  "shift p d \<in> set w \<Longrightarrow> take_neighbour p d (w, t) = (remove1 (shift p d) w, t @ [shift p d])"
  "shift p d \<notin> set w \<Longrightarrow> take_neighbour p d (w, t) = (w, t)"
  by (simp_all add: take_neighbour_def)

lemma fold_neighbours_length:
  "fold (take_neighbour p) ds (w, t) = (w', t') \<Longrightarrow>
     length w' + length t' = length w + length t \<and> (\<exists>n. t' = t @ n)"
proof (induction ds arbitrary: w t)
  case (Cons d ds)
  show ?case
  proof (cases "shift p d \<in> set w")
    case True
    with Cons show ?thesis using length_pos_if_in_set [OF True]
      by (fastforce simp: take_neighbour_eq length_remove1)
  next
    case False
    with Cons show ?thesis by (simp add: take_neighbour_eq)
  qed
qed simp

lemma getAndRemoveNeighbours_length:
  assumes "getAndRemoveNeighbours p (w, p # t) = st"
  shows "length (fst st) + length (tl (snd st)) = length w + length t"
  using fold_neighbours_length [of p offsets w "p # t" "fst st" "snd st"] assms
  by (auto simp: getAndRemoveNeighbours_def)

text \<open>The pixel at the front is removed after its neighbours were pushed to the back.\<close>

function grow :: "pixel list \<Rightarrow> pixel list \<Rightarrow> frame \<Rightarrow> pixel list \<times> frame" where
  "grow whitePixels [] frame = (whitePixels, frame)"
| "grow whitePixels (p # pixelsToBeProcessed) frame =
     (let st = getAndRemoveNeighbours p (whitePixels, p # pixelsToBeProcessed) in
      grow (fst st) (tl (snd st)) (widen p frame))"
  by pat_completeness auto
termination
proof (relation "measure (\<lambda>(w, t, f). length w + length t)", goal_cases)
  case (2 w p t f st)
  then show ?case using getAndRemoveNeighbours_length [of p w t st] by simp
qed simp

definition img_white :: "int \<Rightarrow> int \<Rightarrow> (int \<Rightarrow> int \<Rightarrow> bool) \<Rightarrow> pixel list" where
  "img_white width height img =
     fold (\<lambda>y ws. fold (\<lambda>x ws. if img x y then insort_insert (x, y) ws else ws) [0..width - 1] ws) [0..height - 1] []"

lemma grow_shrinks: "length (fst (grow w t f)) \<le> length w + length t - (if t = [] then 0 else 1)"
proof (induction w t f rule: grow.induct)
  case (2 w p t f)
  from 2 [OF refl] getAndRemoveNeighbours_length [of p w t, OF refl] show ?case
    by (auto simp: Let_def split: if_splits)
qed simp

function clusters :: "int \<Rightarrow> int \<Rightarrow> pixel list \<Rightarrow> frame list" where
  "clusters width height [] = []"
| "clusters width height (p # whitePixels) =
     (let r = grow whitePixels [p] (width, height, 0, 0) in snd r # clusters width height (fst r))"
  by pat_completeness auto
termination
proof (relation "measure (\<lambda>(w, h, ps). length ps)", goal_cases)
  case (2 w h p ps r)
  then show ?case using grow_shrinks [of ps "[p]" "(w, h, 0, 0)"] by simp
qed simp

definition clusterStars :: "int \<Rightarrow> int \<Rightarrow> (int \<Rightarrow> int \<Rightarrow> bool) \<Rightarrow> frame list" where
  "clusterStars width height img = clusters width height (img_white width height img)"

definition rectify :: "frame \<Rightarrow> rat \<times> rat \<times> rat \<times> rat" where
  "rectify f = (case f of (x1, y1, x2, y2) \<Rightarrow>
     let border = 3; border2 = 2 * border;
         width = of_int \<bar>x1 - x2\<bar> + border2;
         height = of_int \<bar>y1 - y2\<bar> + border2;
         L = max width height;
         x0 = of_int x1 - \<bar>width - L\<bar> / 2 - border;
         y0 = of_int y1 - \<bar>height - L\<bar> / 2 - border
     in (x0, y0, x0 + L, y0 + L))"

section \<open>Lemmas\<close>

subsection \<open>Neighbours\<close>

definition nbr :: "pixel \<Rightarrow> pixel \<Rightarrow> bool" where
  "nbr p q \<longleftrightarrow> p \<noteq> q \<and> \<bar>fst p - fst q\<bar> \<le> 1 \<and> \<bar>snd p - snd q\<bar> \<le> 1"

lemma nbr_sym: "nbr p q \<longleftrightarrow> nbr q p"
  by (auto simp: nbr_def)

lemma nbr_offsets: "nbr p q \<longleftrightarrow> q \<in> shift p ` set offsets"
proof -
  obtain a b where q: "q = (fst p + a, snd p + b)"
    by (metis add_diff_cancel_left' diff_add_cancel add.commute prod.collapse)
  have small: "\<bar>c\<bar> \<le> 1 \<longleftrightarrow> c = -1 \<or> c = 0 \<or> c = 1" for c :: int by auto
  have "nbr p q \<longleftrightarrow> (a, b) \<noteq> (0, 0) \<and> \<bar>a\<bar> \<le> 1 \<and> \<bar>b\<bar> \<le> 1"
    by (cases p) (simp add: q nbr_def)
  also have "\<dots> \<longleftrightarrow> (a, b) \<in> set offsets"
    unfolding small offsets_def by auto
  also have "\<dots> \<longleftrightarrow> q \<in> shift p ` set offsets"
    unfolding q shift_def image_iff by (force simp: prod_eq_iff)
  finally show ?thesis .
qed

lemma fold_neighbours:
  assumes "distinct w" "fold (take_neighbour p) ds (w, t) = (w', t')"
  shows "distinct w' \<and> set w' = set w - shift p ` set ds \<and>
    (\<exists>n. t' = t @ n \<and> set n = set w \<inter> shift p ` set ds) \<and> (sorted w \<longrightarrow> sorted w')"
  using assms
proof (induction ds arbitrary: w t)
  case (Cons d ds)
  let ?q = "shift p d"
  show ?case
  proof (cases "?q \<in> set w")
    case True
    with Cons.prems have "fold (take_neighbour p) ds (remove1 ?q w, t @ [?q]) = (w', t')"
      by (simp add: take_neighbour_eq)
    from Cons.IH [OF _ this] Cons.prems(1) True sorted_remove1 [of w ?q] show ?thesis
      by (fastforce simp: set_remove1_eq)
  next
    case False
    with Cons.prems have "fold (take_neighbour p) ds (w, t) = (w', t')"
      by (simp add: take_neighbour_eq)
    from Cons.IH [OF Cons.prems(1) this] False show ?thesis by auto
  qed
qed simp

lemma getAndRemoveNeighbours_spec:
  assumes "distinct w" "getAndRemoveNeighbours p (w, t) = (w', t')"
  shows "distinct w' \<and> set w' = set w - Collect (nbr p) \<and>
    (\<exists>n. t' = t @ n \<and> set n = set w \<inter> Collect (nbr p)) \<and> (sorted w \<longrightarrow> sorted w')"
proof -
  have "Collect (nbr p) = shift p ` set offsets" using nbr_offsets by blast
  then show ?thesis using fold_neighbours [OF assms(1), of p offsets t w' t'] assms(2)
    by (simp add: getAndRemoveNeighbours_def)
qed

subsection \<open>Reachable pixels\<close>

definition adj :: "pixel set \<Rightarrow> (pixel \<times> pixel) set" where
  "adj W = {(p, q). nbr p q \<and> q \<in> W}"

definition reach :: "pixel set \<Rightarrow> pixel set \<Rightarrow> pixel set" where
  "reach A W = (adj W)\<^sup>* `` A"

lemma reach_refl: "A \<subseteq> reach A W"
  by (auto simp: reach_def)

lemma reach_step: "p \<in> reach A W \<Longrightarrow> nbr p q \<Longrightarrow> q \<in> W \<Longrightarrow> q \<in> reach A W"
  by (auto simp: reach_def adj_def intro: rtrancl_into_rtrancl)

lemma reach_induct [consumes 1, case_names start step]:
  assumes "q \<in> reach A W" "\<And>p. p \<in> A \<Longrightarrow> P p"
    "\<And>p q. p \<in> reach A W \<Longrightarrow> P p \<Longrightarrow> nbr p q \<Longrightarrow> q \<in> W \<Longrightarrow> P q"
  shows "P q"
proof -
  from assms(1) obtain p where "p \<in> A" "(p, q) \<in> (adj W)\<^sup>*" by (auto simp: reach_def)
  from this(2,1) show ?thesis
  proof (induction rule: rtrancl_induct)
    case (step y z)
    then have "y \<in> reach A W" by (auto simp: reach_def)
    with step assms(3) show ?case by (auto simp: adj_def)
  qed (rule assms(2))
qed

lemma reach_subset: "reach A W \<subseteq> A \<union> W"
proof
  fix q
  assume "q \<in> reach A W"
  then show "q \<in> A \<union> W" by (induction rule: reach_induct) auto
qed

lemma reach_unfold:
  assumes "p \<notin> W"
  shows "reach (insert p T) W = insert p (reach (T \<union> (W \<inter> Collect (nbr p))) (W - Collect (nbr p)))"
    (is "?L = insert p ?R")
proof
  show "?L \<subseteq> insert p ?R"
  proof
    fix q
    assume "q \<in> ?L"
    then show "q \<in> insert p ?R"
    proof (induction rule: reach_induct)
      case (start r)
      then show ?case using reach_refl [of "T \<union> (W \<inter> Collect (nbr p))"] by auto
    next
      case (step r s)
      show ?case
      proof (cases "nbr p s")
        case True
        with step reach_refl [of "T \<union> (W \<inter> Collect (nbr p))"] show ?thesis by auto
      next
        case False
        with step reach_step [of r "T \<union> (W \<inter> Collect (nbr p))" "W - Collect (nbr p)" s] show ?thesis by auto
      qed
    qed
  qed
  show "insert p ?R \<subseteq> ?L"
  proof
    fix q
    assume "q \<in> insert p ?R"
    then consider "q = p" | "q \<in> ?R" by auto
    then show "q \<in> ?L"
    proof cases
      case 2
      then show ?thesis
      proof (induction rule: reach_induct)
        case (start r)
        then show ?case using reach_refl [of "insert p T" W] reach_step [of p "insert p T" W r] by auto
      next
        case (step r s)
        then show ?case using reach_step [of r "insert p T" W s] by auto
      qed
    qed (use reach_refl [of "insert p T" W] in auto)
  qed
qed

lemma reach_trans: "q \<in> reach A W \<Longrightarrow> r \<in> reach {q} W \<Longrightarrow> r \<in> reach A W"
  by (auto simp: reach_def intro: rtrancl_trans)

lemma reach_mono: "W \<subseteq> W' \<Longrightarrow> reach A W \<subseteq> reach A W'"
proof
  fix q
  assume w: "W \<subseteq> W'" and "q \<in> reach A W"
  from this(2) show "q \<in> reach A W'"
    by (induction rule: reach_induct) (use w reach_refl reach_step in blast)+
qed

lemma reach_sym:
  assumes "q \<in> reach {p} S" "p \<in> S"
  shows "p \<in> reach {q} S"
  using assms(1)
proof (induction rule: reach_induct)
  case (step r s)
  have "r \<in> S" using step.hyps(1) reach_subset [of "{p}" S] assms(2) by auto
  then have "r \<in> reach {s} S"
    using reach_step [of s "{s}" S r] reach_refl [of "{s}" S] step.hyps(2) by (auto simp: nbr_sym)
  then show ?case using step.IH reach_trans by blast
qed (use reach_refl in blast)

lemma reach_class:
  assumes "q \<in> reach {p} S" "p \<in> S"
  shows "reach {q} S = reach {p} S"
proof
  show "reach {q} S \<subseteq> reach {p} S" using assms(1) reach_trans by blast
  show "reach {p} S \<subseteq> reach {q} S" using reach_sym [OF assms] reach_trans by blast
qed

lemma reach_insert: "reach {p} (insert p W) = reach {p} W"
proof
  show "reach {p} (insert p W) \<subseteq> reach {p} W"
  proof
    fix q
    assume "q \<in> reach {p} (insert p W)"
    then show "q \<in> reach {p} W"
      by (induction rule: reach_induct) (use reach_refl reach_step in blast)+
  qed
qed (rule reach_mono, blast)

lemma reach_outside:
  assumes "p \<in> S" "q \<in> S - reach {p} S"
  shows "reach {q} (S - reach {p} S) = reach {q} S"
proof
  show "reach {q} S \<subseteq> reach {q} (S - reach {p} S)"
  proof
    fix s
    assume "s \<in> reach {q} S"
    then show "s \<in> reach {q} (S - reach {p} S)"
    proof (induction rule: reach_induct)
      case (step r s)
      have r: "r \<in> S - reach {p} S"
        using step.IH reach_subset [of "{q}" "S - reach {p} S"] assms(2) by auto
      have "s \<notin> reach {p} S"
      proof
        assume "s \<in> reach {p} S"
        then have "r \<in> reach {p} S" using r step.hyps(2) reach_step [of s "{p}" S r] by (simp add: nbr_sym)
        with r show False by simp
      qed
      with step show ?case using reach_step by blast
    qed (use reach_refl in blast)
  qed
qed (rule reach_mono, blast)

subsection \<open>Frames\<close>

definition bounds :: "frame \<Rightarrow> pixel set \<Rightarrow> frame" where
  "bounds f A = (case f of (x1, y1, x2, y2) \<Rightarrow>
     (Min (insert x1 (fst ` A)), Min (insert y1 (snd ` A)), Max (insert x2 (fst ` A)), Max (insert y2 (snd ` A))))"

lemma bounds_empty [simp]: "bounds f {} = f"
  by (simp add: bounds_def split: prod.splits)

lemma Min_widen: "finite A \<Longrightarrow> Min (insert (if a < b then a else b) A) = Min (insert b (insert a A))" for a b :: int
proof -
  have m: "(if a < b then a else b) = min b a" by (simp add: min_def)
  show "finite A \<Longrightarrow> ?thesis" unfolding m by (cases "A = {}") (simp_all add: min.assoc)
qed

lemma Max_widen: "finite A \<Longrightarrow> Max (insert (if a > b then a else b) A) = Max (insert b (insert a A))" for a b :: int
proof -
  have m: "(if a > b then a else b) = max b a" by (simp add: max_def)
  show "finite A \<Longrightarrow> ?thesis" unfolding m by (cases "A = {}") (simp_all add: max.assoc)
qed

lemma bounds_widen: "finite A \<Longrightarrow> bounds (widen p f) A = bounds f (insert p A)"
  by (cases f) (simp only: bounds_def widen_def prod.case image_insert Min_widen Max_widen finite_imageI)

lemma grow_spec:
  assumes "distinct w" "set t \<inter> set w = {}" "grow w t f = (w', f')"
  shows "distinct w' \<and> set w' = set w - reach (set t) (set w) \<and> (sorted w \<longrightarrow> sorted w') \<and>
    f' = bounds f (reach (set t) (set w))"
  using assms
proof (induction w t f rule: grow.induct)
  case (1 w f)
  then show ?case by (auto simp: reach_def)
next
  case (2 w p t f)
  obtain w1 t1 where st: "getAndRemoveNeighbours p (w, p # t) = (w1, t1)"
    by (cases "getAndRemoveNeighbours p (w, p # t)")
  from getAndRemoveNeighbours_spec [OF 2(2) st] obtain n where n: "distinct w1"
    "set w1 = set w - Collect (nbr p)" "t1 = p # t @ n" "set n = set w \<inter> Collect (nbr p)" "sorted w \<longrightarrow> sorted w1"
    by auto
  let ?R = "reach (set (t @ n)) (set w1)"
  have p: "p \<notin> set w" using 2(3) by auto
  have unf: "reach (set (p # t)) (set w) = insert p ?R"
    using reach_unfold [OF p, of "set t"] n by simp
  have dis: "set (t @ n) \<inter> set w1 = {}" using 2(3) n(2,4) by auto
  have g: "grow w1 (t @ n) (widen p f) = (w', f')" using 2(4) st n(3) by simp
  have "distinct w1 \<Longrightarrow> set (t @ n) \<inter> set w1 = {} \<Longrightarrow> grow w1 (t @ n) (widen p f) = (w', f') \<Longrightarrow>
      distinct w' \<and> set w' = set w1 - ?R \<and> (sorted w1 \<longrightarrow> sorted w') \<and> f' = bounds (widen p f) ?R"
    using 2(1) [OF refl] unfolding st n(3) fst_conv snd_conv list.sel .
  from this [OF n(1) dis g]
  have IH: "distinct w'" "set w' = set w1 - ?R" "sorted w1 \<longrightarrow> sorted w'" "f' = bounds (widen p f) ?R"
    by blast+
  have "set n \<subseteq> ?R" using reach_refl [of "set (t @ n)" "set w1"] by simp
  then have "set w' = set w - insert p ?R" using IH(2) n(2,4) p by auto
  moreover have "finite ?R" using reach_subset [of "set (t @ n)" "set w1"] finite_subset by blast
  ultimately show ?case using IH n(5) unf bounds_widen by simp
qed

subsection \<open>Clusters\<close>

lemma clusters_spec:
  assumes "distinct ws" "sorted ws"
  shows "\<exists>comps. clusters width height ws = map (bounds (width, height, 0, 0)) comps \<and>
    \<Union> (set comps) = set ws \<and> (\<forall>C \<in> set comps. C \<noteq> {} \<and> (\<forall>p \<in> C. C = reach {p} (set ws))) \<and>
    sorted_wrt (<) (map Min comps)"
  using assms
proof (induction width height ws rule: clusters.induct)
  case (2 width height p ws)
  obtain w' f' where g: "grow ws [p] (width, height, 0, 0) = (w', f')"
    by (cases "grow ws [p] (width, height, 0, 0)")
  let ?S = "set (p # ws)" and ?C = "reach {p} (set ws)"
  have C: "reach {p} ?S = ?C" using reach_insert by simp
  have p: "p \<in> ?C" using reach_refl by blast
  from grow_spec [of ws "[p]" _ w' f', OF _ _ g] 2(2,3)
  have g': "distinct w'" "set w' = set ws - ?C" "sorted w'" "f' = bounds (width, height, 0, 0) ?C" by auto
  then have w': "set w' = ?S - ?C" using p by auto
  from 2(1) [OF refl] g g'(1,3) obtain comps where c: "clusters width height w' = map (bounds (width, height, 0, 0)) comps"
    "\<Union> (set comps) = set w'" "\<forall>C \<in> set comps. C \<noteq> {} \<and> (\<forall>q \<in> C. C = reach {q} (set w'))"
    "sorted_wrt (<) (map Min comps)" by auto
  have cl: "C = reach {q} ?S" if "C \<in> set (?C # comps)" "q \<in> C" for C q
  proof (cases "C = ?C")
    case True
    then show ?thesis using that(2) reach_class [of q p ?S] C by simp
  next
    case False
    with that c have "C = reach {q} (set w')" "q \<in> set w'" by auto
    then show ?thesis using reach_outside [of p ?S q] C w' by simp
  qed
  have CS: "?C \<subseteq> ?S" using reach_subset [of "{p}" "set ws"] by auto
  have low: "p \<le> q" if "q \<in> ?S" for q using that 2(3) by auto
  have "Min ?C = p" using p CS low by (intro Min_eqI) (auto intro: finite_subset)
  moreover have "p < Min C" if "C \<in> set comps" for C
  proof -
    have "C \<subseteq> set w'" "C \<noteq> {}" using that c(2,3) by auto
    then have "Min C \<in> C" using Min_in finite_subset [of C "set w'"] by blast
    with \<open>C \<subseteq> set w'\<close> have "Min C \<in> set w'" by blast
    then show ?thesis using low [of "Min C"] w' p by (metis Diff_iff le_neq_trans)
  qed
  moreover have "\<Union> (set (?C # comps)) = ?S" using c(2) w' CS by auto
  ultimately show ?case using c g g'(4) cl p
    by (intro exI [of _ "?C # comps"]) (auto simp: Let_def)
qed (auto intro: exI [of _ "[]"])

lemma fold_white:
  assumes "sorted ws" "distinct ws"
  shows "sorted (fold (\<lambda>x ws. if P x then insort_insert (g x) ws else ws) xs ws) \<and>
    distinct (fold (\<lambda>x ws. if P x then insort_insert (g x) ws else ws) xs ws) \<and>
    set (fold (\<lambda>x ws. if P x then insort_insert (g x) ws else ws) xs ws) = set ws \<union> g ` {x \<in> set xs. P x}"
  using assms
proof (induction xs arbitrary: ws)
  case (Cons x xs)
  then show ?case
    by (cases "P x") (auto simp: sorted_insort_insert distinct_insort_insert set_insort_insert)
qed simp

lemma img_white_spec:
  "sorted (img_white width height img) \<and> distinct (img_white width height img) \<and>
   set (img_white width height img) = {(x, y). 0 \<le> x \<and> x < width \<and> 0 \<le> y \<and> y < height \<and> img x y}"
proof -
  let ?row = "\<lambda>y ws. fold (\<lambda>x ws. if img x y then insort_insert (x, y) ws else ws) [0..width - 1] ws"
  have "sorted (fold ?row ys ws) \<and> distinct (fold ?row ys ws) \<and>
      set (fold ?row ys ws) = set ws \<union> {(x, y). 0 \<le> x \<and> x < width \<and> y \<in> set ys \<and> img x y}"
    if "sorted ws" "distinct ws" for ys ws
    using that
  proof (induction ys arbitrary: ws)
    case (Cons y ys)
    note row = fold_white [OF Cons.prems, of "\<lambda>x. img x y" "\<lambda>x. (x, y)" "[0..width - 1]"]
    from Cons.IH [of "?row y ws"] row show ?case by auto
  qed simp
  from this [of "[]" "[0..height - 1]"] show ?thesis by (auto simp: img_white_def)
qed

lemma bounds_inside:
  assumes "finite C" "C \<noteq> {}" "C \<subseteq> {(x, y). 0 \<le> x \<and> x < width \<and> 0 \<le> y \<and> y < height \<and> P x y}"
  shows "bounds (width, height, 0, 0) C = (Min (fst ` C), Min (snd ` C), Max (fst ` C), Max (snd ` C))"
proof -
  have f: "finite (fst ` C)" "fst ` C \<noteq> {}" "finite (snd ` C)" "snd ` C \<noteq> {}" using assms(1,2) by simp_all
  have "fst ` C \<subseteq> {0..<width}" "snd ` C \<subseteq> {0..<height}" using assms(3) by auto
  with f have "Min (fst ` C) \<in> {0..<width}" "Max (fst ` C) \<in> {0..<width}"
    "Min (snd ` C) \<in> {0..<height}" "Max (snd ` C) \<in> {0..<height}"
    by (meson Min_in Max_in subsetD)+
  then have "min width (Min (fst ` C)) = Min (fst ` C)" "min height (Min (snd ` C)) = Min (snd ` C)"
    "max 0 (Max (fst ` C)) = Max (fst ` C)" "max 0 (Max (snd ` C)) = Max (snd ` C)"
    by simp_all
  then show ?thesis
    unfolding bounds_def prod.case Min_insert [OF f(1,2)] Min_insert [OF f(3,4)] Max_insert [OF f(1,2)]
      Max_insert [OF f(3,4)] by simp
qed

text \<open>The rectified frame is a square with the centre of the frame, and leaves it a border of three pixels.\<close>

definition squares :: "frame \<Rightarrow> rat \<times> rat \<times> rat \<times> rat \<Rightarrow> bool" where
  "squares f r = (case (f, r) of ((x1, y1, x2, y2), (x0, y0, x3, y3)) \<Rightarrow>
     x3 - x0 = y3 - y0 \<and> x0 + x3 = of_int (x1 + x2) \<and> y0 + y3 = of_int (y1 + y2) \<and>
     x0 + 3 \<le> of_int x1 \<and> y0 + 3 \<le> of_int y1 \<and> of_int x2 + 3 \<le> x3 \<and> of_int y2 + 3 \<le> y3)"

lemma rectify_squares:
  assumes "x1 \<le> x2" "y1 \<le> y2"
  shows "squares (x1, y1, x2, y2) (rectify (x1, y1, x2, y2))"
proof -
  define w h where "w = (of_int (x2 - x1) :: rat)" and "h = (of_int (y2 - y1) :: rat)"
  have x: "\<bar>of_int x1 - of_int x2\<bar> = w" "of_int x2 = of_int x1 + w" using assms(1) by (simp_all add: w_def)
  have y: "\<bar>of_int y1 - of_int y2\<bar> = h" "of_int y2 = of_int y1 + h" using assms(2) by (simp_all add: h_def)
  have "0 \<le> w" "0 \<le> h" using assms by (simp_all add: w_def h_def)
  then have "squares (x1, y1, x2, y2)
    (let L = max (w + 6) (h + 6); x0 = of_int x1 - \<bar>w + 6 - L\<bar> / 2 - 3; y0 = of_int y1 - \<bar>h + 6 - L\<bar> / 2 - 3
     in (x0, y0, x0 + L, y0 + L))"
  proof (cases "w \<le> h")
    case True
    then have "max (w + 6) (h + 6) = h + 6" "\<bar>w + 6 - (h + 6)\<bar> = h - w" by simp_all
    with True \<open>0 \<le> w\<close> \<open>0 \<le> h\<close> show ?thesis by (simp add: squares_def Let_def x(2) y(2) field_simps)
  next
    case False
    then have "max (w + 6) (h + 6) = w + 6" "\<bar>h + 6 - (w + 6)\<bar> = w - h" by simp_all
    with False \<open>0 \<le> w\<close> \<open>0 \<le> h\<close> show ?thesis by (simp add: squares_def Let_def x(2) y(2) field_simps)
  qed
  then show ?thesis by (simp add: rectify_def Let_def x(1) y(1))
qed

section \<open>Properties\<close>

text \<open>C22. The recognised stars are the connected components of the white pixels, where pixels are
  neighbours across edges and corners: one frame for each component, the smallest one that holds it,
  in the order of the components' least pixels. Its rectified frame is a square around it.\<close>

theorem clusterStars_components:
  assumes "white = {(x, y). 0 \<le> x \<and> x < width \<and> 0 \<le> y \<and> y < height \<and> img x y}"
  shows "\<exists>comps. clusterStars width height img =
      map (\<lambda>C. (Min (fst ` C), Min (snd ` C), Max (fst ` C), Max (snd ` C))) comps \<and>
    \<Union> (set comps) = white \<and>
    (\<forall>C \<in> set comps. C \<noteq> {} \<and> (\<forall>p \<in> C. C = {q. (p, q) \<in> {(r, s). nbr r s \<and> s \<in> white}\<^sup>*})) \<and>
    sorted_wrt (<) (map Min comps) \<and>
    (\<forall>f \<in> set (clusterStars width height img). squares f (rectify f))"
proof -
  have white: "sorted (img_white width height img)" "distinct (img_white width height img)"
    "set (img_white width height img) = white" using img_white_spec assms by auto
  from clusters_spec [OF white(2,1), of width height] obtain comps where
    c: "clusterStars width height img = map (bounds (width, height, 0, 0)) comps"
      "\<Union> (set comps) = white" "\<forall>C \<in> set comps. C \<noteq> {} \<and> (\<forall>p \<in> C. C = reach {p} white)"
      "sorted_wrt (<) (map Min comps)"
    by (auto simp: clusterStars_def white(3))
  have fin: "finite C" "C \<noteq> {}" "C \<subseteq> white" if "C \<in> set comps" for C
    using that c(2,3) finite_subset [of C white] white(3) List.finite_set [of "img_white width height img"] by auto
  have frame: "bounds (width, height, 0, 0) C = (Min (fst ` C), Min (snd ` C), Max (fst ` C), Max (snd ` C))"
    if "C \<in> set comps" for C using bounds_inside [OF fin(1,2) [OF that]] fin(3) [OF that] assms by blast
  then have map: "clusterStars width height img =
      map (\<lambda>C. (Min (fst ` C), Min (snd ` C), Max (fst ` C), Max (snd ` C))) comps"
    using c(1) by simp
  moreover have "squares f (rectify f)" if f: "f \<in> set (clusterStars width height img)" for f
  proof -
    from f map obtain C where C: "C \<in> set comps"
      "f = (Min (fst ` C), Min (snd ` C), Max (fst ` C), Max (snd ` C))" by auto
    have "Min (fst ` C) \<le> Max (fst ` C)" "Min (snd ` C) \<le> Max (snd ` C)"
      using fin(1,2) [OF C(1)] by (auto intro: order_trans [OF Min_le Max_ge])
    then show ?thesis using C(2) rectify_squares by simp
  qed
  ultimately show ?thesis using c(2-4) by (auto simp: reach_def adj_def Image_def)
qed

lemma clusterStars_components_witness:
  "clusterStars 3 1 (\<lambda>x y. x \<noteq> 1) = [(0, 0, 0, 0), (2, 0, 2, 0)] \<and>
   (\<exists>comps :: pixel set list. \<Union> (set comps) = {(0, 0), (2, 0)} \<and> length comps = length (clusterStars 3 1 (\<lambda>x y. x \<noteq> 1)))"
proof
  show "clusterStars 3 1 (\<lambda>x y. x \<noteq> 1) = [(0, 0, 0, 0), (2, 0, 2, 0)]" by code_simp
  have "{(0, 0), (2, 0)} = {(x, y). 0 \<le> x \<and> x < 3 \<and> 0 \<le> y \<and> y < (1 :: int) \<and> x \<noteq> (1 :: int)}" by auto
  from clusterStars_components [OF this] obtain comps :: "pixel set list" where
    "\<Union> (set comps) = {(0, 0), (2, 0)}"
    "clusterStars 3 1 (\<lambda>x y. x \<noteq> 1) = map (\<lambda>C. (Min (fst ` C), Min (snd ` C), Max (fst ` C), Max (snd ` C))) comps"
    by blast
  then show "\<exists>comps :: pixel set list. \<Union> (set comps) = {(0, 0), (2, 0)} \<and>
      length comps = length (clusterStars 3 1 (\<lambda>x y. x \<noteq> 1))" by (intro exI [of _ comps]) simp
qed

end
