(* ===== verification/Terminal.thy ===== *)
theory Terminal
  imports Json
begin

text \<open>
  The command line of \<open>src/src/components/debug/terminal.cpp\<close> and \<open>terminal.hpp\<close>: registered commands,
  the history with its iterator, and the keys. \<open>call f arg\<close> is a command function at work.
  \<open>realloc n\<close> says whether a vector of \<open>n\<close> elements moves its storage to take one more. The
  function-local static variables of the source are fields here, and \<open>calls\<close> records which functions
  have been called.
\<close>

section \<open>State\<close>

text \<open>An iterator into a vector: a position, up to the end, or one that the vector has invalidated.\<close>

datatype iter = Pos nat | Invalid

record 'f command_manager =
  commands :: "(string \<times> 'f) list"
  futures :: "string result option list"
  command_history :: "string list"
  history_index :: int
  hist_iter :: iter
  static_result :: "string option"
  static_unknown :: "string option"
  static_list :: "string list option"
  calls :: "('f \<times> string) list"

definition CommandManager :: "'f command_manager" where
  "CommandManager = \<lparr>commands = [], futures = [], command_history = [], history_index = 0, hist_iter = Pos 0,
     static_result = None, static_unknown = None, static_list = None, calls = []\<rparr>"

text \<open>
  \<open>emplace_back\<close> invalidates the end iterator, and every iterator when the storage moves. The first
  element always needs new storage.
\<close>

definition iter_after_push :: "(nat \<Rightarrow> bool) \<Rightarrow> string list \<Rightarrow> iter \<Rightarrow> iter" where
  "iter_after_push realloc xs it = (case it of
     Pos i \<Rightarrow> if i < length xs \<and> \<not> realloc (length xs) then Pos i else Invalid
   | Invalid \<Rightarrow> Invalid)"

definition push_history :: "(nat \<Rightarrow> bool) \<Rightarrow> string \<Rightarrow> 'f command_manager \<Rightarrow> 'f command_manager" where
  "push_history realloc s m =
     m\<lparr>command_history := command_history m @ [s], history_index := int (Suc (length (command_history m))),
       hist_iter := iter_after_push realloc (command_history m) (hist_iter m)\<rparr>"

section \<open>Commands\<close>

text \<open>\<open>emplace\<close> keeps a command that is registered already.\<close>

definition registerCommand :: "string \<Rightarrow> 'f \<Rightarrow> 'f command_manager \<Rightarrow> 'f command_manager" where
  "registerCommand cmd func m =
     (if map_of (commands m) cmd = None then m\<lparr>commands := obj_put cmd func (commands m)\<rparr> else m)"

definition unknown_text :: "string \<Rightarrow> string" where
  "unknown_text cmd = CHR 0x1B # ''[31mUnknown command: '' @ cmd @ CHR 0x1B # ''[0m'' @ [CHR 0x0A]"

text \<open>A static variable whose initialiser throws is initialised by the next call.\<close>

definition runCommand :: "('f \<Rightarrow> string \<Rightarrow> string result) \<Rightarrow> (nat \<Rightarrow> bool) \<Rightarrow> string \<Rightarrow> string
    \<Rightarrow> 'f command_manager \<Rightarrow> 'f command_manager \<times> string result" where
  "runCommand call realloc cmd arg m = (case map_of (commands m) cmd of
     Some f \<Rightarrow>
       let m = push_history realloc (cmd @ '' '' @ arg) m in
       (case static_result m of
          Some r \<Rightarrow> (m, Inr r)
        | None \<Rightarrow>
            let m = m\<lparr>calls := calls m @ [(f, arg)]\<rparr> in
            (case call f arg of
               Inl e \<Rightarrow> (m, Inl e)
             | Inr r \<Rightarrow> (m\<lparr>static_result := Some r\<rparr>, Inr r)))
   | None \<Rightarrow>
       (case static_unknown m of
          Some r \<Rightarrow> (m, Inr r)
        | None \<Rightarrow> (m\<lparr>static_unknown := Some (unknown_text cmd)\<rparr>, Inr (unknown_text cmd))))"

text \<open>\<open>held\<close> says whether the calling thread has locked \<open>mutex_\<close>.\<close>

definition addFuture :: "bool \<Rightarrow> string result option \<Rightarrow> 'f command_manager \<Rightarrow> 'f command_manager outcome" where
  "addFuture held future m = (if held then Deadlocks else Returns (m\<lparr>futures := futures m @ [future]\<rparr>))"

text \<open>The task of the future runs beside; its result is what \<open>call\<close> gives. The returned future was moved from.\<close>

definition runCommandAsync :: "('f \<Rightarrow> string \<Rightarrow> string result) \<Rightarrow> string \<Rightarrow> string
    \<Rightarrow> 'f command_manager \<Rightarrow> ('f command_manager \<times> string result option) outcome" where
  "runCommandAsync call cmd arg m = (case map_of (commands m) cmd of
     Some f \<Rightarrow> (case addFuture True (Some (call f arg)) m of
         Returns m' \<Rightarrow> Returns (m', None)
       | Waits \<Rightarrow> Waits
       | Deadlocks \<Rightarrow> Deadlocks)
   | None \<Rightarrow> Returns (m, Some (Inr (CHR 0x1B # ''[31mUnknown command'' @ CHR 0x1B # ''[0m''))))"

text \<open>What \<open>join\<close> prints: results that are not empty, and exceptions.\<close>

definition join_futures :: "'f command_manager \<Rightarrow> 'f command_manager \<times> string result list" where
  "join_futures m = (m\<lparr>futures := []\<rparr>,
     filter (\<lambda>r. r \<noteq> Inr []) (concat (map (\<lambda>f. case f of Some r \<Rightarrow> [r] | None \<Rightarrow> []) (futures m))))"

definition getRegisteredCommands :: "'f command_manager \<Rightarrow> 'f command_manager \<times> string list" where
  "getRegisteredCommands m = (case static_list m of
     Some l \<Rightarrow> (m, l)
   | None \<Rightarrow> (m\<lparr>static_list := Some (map fst (commands m))\<rparr>, map fst (commands m)))"

section \<open>The history\<close>

text \<open>\<open>end() - 1\<close> of an empty vector, and moving past the end, are undefined.\<close>

definition hasPrevCommand :: "'f command_manager \<Rightarrow> bool result" where
  "hasPrevCommand m = (case hist_iter m of Invalid \<Rightarrow> Inl Dangling | Pos i \<Rightarrow> Inr (i \<noteq> 0))"

definition hasNextCommand :: "'f command_manager \<Rightarrow> bool result" where
  "hasNextCommand m = (case hist_iter m of
     Invalid \<Rightarrow> Inl Dangling
   | Pos i \<Rightarrow> if command_history m = [] then Inl OutOfBounds else Inr (i \<noteq> length (command_history m) - 1))"

definition history_text :: "'f command_manager \<Rightarrow> string result" where
  "history_text m =
     (if 0 \<le> history_index m \<and> history_index m < int (length (command_history m)) then
        (case hist_iter m of
           Invalid \<Rightarrow> Inl Dangling
         | Pos i \<Rightarrow> if i < length (command_history m) then Inr (command_history m ! i) else Inl OutOfBounds)
      else Inr [])"

definition getPrevCommand :: "'f command_manager \<Rightarrow> ('f command_manager \<times> string) result" where
  "getPrevCommand m = rbind (hasPrevCommand m) (\<lambda>b.
     let m' = (if b then (case hist_iter m of
         Pos i \<Rightarrow> m\<lparr>hist_iter := Pos (i - 1), history_index := int (i - 1)\<rparr> | Invalid \<Rightarrow> m) else m) in
     rbind (history_text m') (\<lambda>s. Inr (m', s)))"

definition getNextCommand :: "'f command_manager \<Rightarrow> ('f command_manager \<times> string) result" where
  "getNextCommand m = rbind (hasNextCommand m) (\<lambda>b.
     rbind (if b then (case hist_iter m of
         Pos i \<Rightarrow> if i = length (command_history m) then Inl OutOfBounds
           else Inr (m\<lparr>hist_iter := Pos (Suc i), history_index := int (Suc i)\<rparr>)
       | Invalid \<Rightarrow> Inl Dangling) else Inr m) (\<lambda>m'.
     rbind (history_text m') (\<lambda>s. Inr (m', s))))"

definition addCommandHistory :: "(nat \<Rightarrow> bool) \<Rightarrow> string \<Rightarrow> 'f command_manager \<Rightarrow> 'f command_manager" where
  "addCommandHistory realloc cmd m = (push_history realloc cmd m)\<lparr>hist_iter := Pos (Suc (length (command_history m)))\<rparr>"

section \<open>Keys\<close>

text \<open>The end of input counts as a newline, so the loop has no exit. \<open>Arrow c\<close> is the sequence
  \<open>ESC [ c\<close>, and \<open>Escape c\<close> any other character after \<open>ESC\<close>.\<close>

datatype key = Newline | EndOfInput | Erase | Arrow char | Escape char | Plain char

record 'f terminal =
  manager :: "'f command_manager"
  typed :: string
  printed :: "string list"

definition press :: "('f \<Rightarrow> string \<Rightarrow> string result) \<Rightarrow> (nat \<Rightarrow> bool) \<Rightarrow> key \<Rightarrow> 'f terminal \<Rightarrow> 'f terminal result" where
  "press call realloc k t = (case k of
     Plain c \<Rightarrow> Inr (t\<lparr>typed := typed t @ [c]\<rparr>)
   | Erase \<Rightarrow> Inr (t\<lparr>typed := butlast (typed t)\<rparr>)
   | Escape c \<Rightarrow> Inr t
   | Arrow c \<Rightarrow>
       if c = CHR ''B'' then
         rbind (hasNextCommand (manager t)) (\<lambda>b.
           if b then rbind (getNextCommand (manager t)) (\<lambda>(m, s). Inr (t\<lparr>manager := m, typed := s\<rparr>)) else Inr t)
       else if c = CHR ''A'' then
         rbind (hasPrevCommand (manager t)) (\<lambda>b.
           if b then rbind (getPrevCommand (manager t)) (\<lambda>(m, s). Inr (t\<lparr>manager := m, typed := s\<rparr>)) else Inr t)
       else Inr t
   | _ \<Rightarrow>
       if typed t = [] then Inr t
       else (case runCommand call realloc (typed t) [] (addCommandHistory realloc (typed t) (manager t)) of
           (m, Inl e) \<Rightarrow> Inl e
         | (m, Inr output) \<Rightarrow> Inr (t\<lparr>manager := m, printed := printed t @ [output], typed := []\<rparr>)))"

fun presses :: "('f \<Rightarrow> string \<Rightarrow> string result) \<Rightarrow> (nat \<Rightarrow> bool) \<Rightarrow> key list \<Rightarrow> 'f terminal \<Rightarrow> 'f terminal result" where
  "presses call realloc [] t = Inr t"
| "presses call realloc (k # ks) t = rbind (press call realloc k t) (presses call realloc ks)"

section \<open>Sequences of commands\<close>

fun run_all :: "('f \<Rightarrow> string \<Rightarrow> string result) \<Rightarrow> (nat \<Rightarrow> bool) \<Rightarrow> (string \<times> string) list
    \<Rightarrow> 'f command_manager \<Rightarrow> 'f command_manager \<times> string result list" where
  "run_all call realloc [] m = (m, [])"
| "run_all call realloc ((cmd, arg) # cs) m =
     (let (m1, r) = runCommand call realloc cmd arg m; (m2, rs) = run_all call realloc cs m1 in (m2, r # rs))"

section \<open>Lemmas\<close>

definition known :: "'f command_manager \<Rightarrow> string \<Rightarrow> bool" where
  "known m cmd \<longleftrightarrow> map_of (commands m) cmd \<noteq> None"

definition returned :: "('f \<Rightarrow> string \<Rightarrow> string result) \<Rightarrow> 'f command_manager \<Rightarrow> ('f \<times> string) list" where
  "returned call m = filter (\<lambda>(f, arg). \<exists>r. call f arg = Inr r) (calls m)"

text \<open>A function has returned exactly if its result was stored, and then never again.\<close>

definition once :: "('f \<Rightarrow> string \<Rightarrow> string result) \<Rightarrow> 'f command_manager \<Rightarrow> bool" where
  "once call m \<longleftrightarrow> length (returned call m) = (if static_result m = None then 0 else 1)"

lemma push_history_simps [simp]:
  "commands (push_history realloc s m) = commands m" "static_result (push_history realloc s m) = static_result m"
  "static_unknown (push_history realloc s m) = static_unknown m" "calls (push_history realloc s m) = calls m"
  "command_history (push_history realloc s m) = command_history m @ [s]"
  "hist_iter (push_history realloc s m) = iter_after_push realloc (command_history m) (hist_iter m)"
  by (simp_all add: push_history_def)

lemma runCommand_step:
  assumes "runCommand call realloc cmd arg m = (m', r)"
  shows "commands m' = commands m \<and> (once call m \<longrightarrow> once call m') \<and>
    (\<forall>s. static_result m = Some s \<longrightarrow> static_result m' = Some s) \<and>
    (\<forall>s. static_unknown m = Some s \<longrightarrow> static_unknown m' = Some s) \<and>
    (\<forall>s. r = Inr s \<longrightarrow> (if known m cmd then static_result m' else static_unknown m') = Some s) \<and>
    (\<not> known m cmd \<longrightarrow> r \<in> range Inr) \<and>
    command_history m' = command_history m @ (if known m cmd then [cmd @ '' '' @ arg] else [])"
proof (cases "map_of (commands m) cmd")
  case None
  with assms show ?thesis by (auto simp: runCommand_def known_def once_def returned_def split: option.splits)
next
  case f: (Some f)
  show ?thesis
  proof (cases "static_result m")
    case None
    show ?thesis
    proof (cases "call f arg")
      case (Inl e)
      with None assms f show ?thesis by (auto simp: runCommand_def known_def once_def returned_def Let_def)
    next
      case (Inr y)
      with None assms f show ?thesis
        by (auto simp: runCommand_def known_def once_def returned_def Let_def intro!: exI [of _ y])
    qed
  next
    case (Some s)
    with assms f show ?thesis by (auto simp: runCommand_def known_def once_def returned_def Let_def)
  qed
qed

lemma run_all_spec:
  assumes "run_all call realloc cs m = (m', rs)" "once call m"
  shows "once call m' \<and> commands m' = commands m \<and> length rs = length cs \<and>
    (\<forall>s. static_result m = Some s \<longrightarrow> static_result m' = Some s) \<and>
    (\<forall>s. static_unknown m = Some s \<longrightarrow> static_unknown m' = Some s) \<and>
    (\<forall>i < length cs. \<forall>s. rs ! i = Inr s \<longrightarrow>
       (if known m (fst (cs ! i)) then static_result m' else static_unknown m') = Some s) \<and>
    (\<forall>i < length cs. \<not> known m (fst (cs ! i)) \<longrightarrow> rs ! i \<in> range Inr) \<and>
    command_history m' = command_history m @
      map (\<lambda>(c, a). c @ '' '' @ a) (filter (\<lambda>c. known m (fst c)) cs)"
  using assms
proof (induction cs arbitrary: m m' rs)
  case (Cons c cs)
  obtain cmd arg where c: "c = (cmd, arg)" by (cases c)
  obtain m1 r where 1: "runCommand call realloc cmd arg m = (m1, r)" by (cases "runCommand call realloc cmd arg m")
  obtain m2 rs2 where 2: "run_all call realloc cs m1 = (m2, rs2)" by (cases "run_all call realloc cs m1")
  from Cons.prems(1) c 1 2 have eq: "m' = m2" "rs = r # rs2" by simp_all
  note step = runCommand_step [OF 1]
  with Cons.prems(2) have "once call m1" by blast
  note IH = Cons.IH [OF 2 this]
  have k: "known m1 = known m" using step by (simp add: known_def fun_eq_iff)
  have first: "(if known m cmd then static_result m2 else static_unknown m2) = Some s" if "r = Inr s" for s
    using step IH that by (auto split: if_splits)
  show ?case
  proof (intro conjI allI impI, goal_cases)
    case (6 i s)
    with first IH k c eq show ?case by (cases i) auto
  next
    case (7 i)
    with step IH k c eq show ?case by (cases i) auto
  qed (use step IH k c eq in auto)
qed simp

section \<open>Properties\<close>

text \<open>The result of a command is kept in a static variable: over any sequence of commands, at most one
  call of a command function ever returns (later commands are recorded in the history and not run),
  every known command that gives a result gives that same one, and every unknown command gives the
  message of the first unknown one.\<close>

theorem commands_run_once:
  assumes "calls m = []" and "static_result m = None" and "run_all call realloc cs m = (m', rs)"
  shows "length (filter (\<lambda>(f, arg). \<exists>r. call f arg = Inr r) (calls m')) \<le> 1 \<and>
    (\<forall>i j s s'. i < length cs \<and> j < length cs \<and> rs ! i = Inr s \<and> rs ! j = Inr s' \<and>
       (map_of (commands m) (fst (cs ! i)) = None) = (map_of (commands m) (fst (cs ! j)) = None) \<longrightarrow> s = s') \<and>
    (\<forall>i < length cs. map_of (commands m) (fst (cs ! i)) = None \<longrightarrow> rs ! i \<in> range Inr) \<and>
    command_history m' = command_history m @
      map (\<lambda>(c, a). c @ '' '' @ a) (filter (\<lambda>c. map_of (commands m) (fst c) \<noteq> None) cs)"
proof -
  have "once call m" using assms(1,2) by (simp add: once_def returned_def)
  note spec = run_all_spec [OF assms(3) this]
  have "length (returned call m') \<le> 1" using spec by (simp add: once_def)
  moreover have "s = s'" if "i < length cs" "j < length cs" "rs ! i = Inr s" "rs ! j = Inr s'"
    "(map_of (commands m) (fst (cs ! i)) = None) = (map_of (commands m) (fst (cs ! j)) = None)" for i j s s'
  proof -
    have "(if known m (fst (cs ! i)) then static_result m' else static_unknown m') = Some s"
      "(if known m (fst (cs ! j)) then static_result m' else static_unknown m') = Some s'"
      using spec that(1-4) by blast+
    with that(5) show ?thesis by (auto simp: known_def split: if_splits)
  qed
  ultimately show ?thesis using spec by (auto simp: returned_def known_def)
qed

definition two_commands :: "nat command_manager" where
  "two_commands = registerCommand ''pwd'' 1 (registerCommand ''ls'' 0 CommandManager)"

definition say :: "nat \<Rightarrow> string \<Rightarrow> string result" where
  "say f arg = Inr (if f = 0 then ''files'' else ''place'')"

lemma two_commands_eq: "map_of (commands two_commands) = [''ls'' \<mapsto> 0, ''pwd'' \<mapsto> 1]"
  "calls two_commands = []" "static_result two_commands = None"
  by (simp_all add: two_commands_def registerCommand_def CommandManager_def fun_eq_iff)

lemma commands_run_once_witness:
  "\<exists>m s. run_all say (\<lambda>_. True) [(''ls'', []), (''pwd'', [])] two_commands = (m, [Inr s, Inr s])"
proof -
  obtain m rs where r: "run_all say (\<lambda>_. True) [(''ls'', []), (''pwd'', [])] two_commands = (m, rs)"
    by (cases "run_all say (\<lambda>_. True) [(''ls'', []), (''pwd'', [])] two_commands")
  then have "\<exists>s s'. rs = [Inr s, Inr s']"
    by (auto simp: runCommand_def two_commands_eq say_def Let_def)
  then obtain s s' where s: "rs = [Inr s, Inr s']" by blast
  have "s = s'"
    using commands_run_once [OF two_commands_eq(2,3) r, THEN conjunct2, THEN conjunct1, rule_format, of 0 1 s s'] s
    by (simp add: two_commands_eq)
  with r s show ?thesis by blast
qed

text \<open>What the arrow keys do after a line was entered. After an unknown command, up shows the line again
  and down moves the iterator past the end. After a known command the history has grown behind the
  iterator: up and down use an invalid iterator, in whatever state the terminal was.\<close>

theorem arrows_after_line:
  assumes "press call realloc k t = Inr t'" and "k = Newline \<or> k = EndOfInput" and "typed t \<noteq> []"
  shows "(map_of (commands (manager t)) (typed t) \<noteq> None \<longrightarrow>
      press call realloc (Arrow (CHR ''A'')) t' = Inl Dangling \<and>
      press call realloc (Arrow (CHR ''B'')) t' = Inl Dangling) \<and>
    (map_of (commands (manager t)) (typed t) = None \<longrightarrow>
      (\<exists>t''. press call realloc (Arrow (CHR ''A'')) t' = Inr t'' \<and> typed t'' = typed t) \<and>
      press call realloc (Arrow (CHR ''B'')) t' = Inl OutOfBounds)"
proof -
  let ?m = "addCommandHistory realloc (typed t) (manager t)"
  obtain m r where run: "runCommand call realloc (typed t) [] ?m = (m, r)"
    by (cases "runCommand call realloc (typed t) [] ?m")
  with assms obtain out where t': "r = Inr out" "manager t' = m" "typed t' = []"
    by (auto simp: press_def split: sum.splits)
  have cmd: "commands ?m = commands (manager t)" by (simp add: addCommandHistory_def)
  show ?thesis
  proof (cases "map_of (commands (manager t)) (typed t)")
    case None
    with run have m: "hist_iter m = hist_iter ?m" "command_history m = command_history ?m"
      by (auto simp: runCommand_def cmd split: option.splits)
    with None t' show ?thesis
      by (simp add: press_def hasPrevCommand_def hasNextCommand_def getPrevCommand_def getNextCommand_def
          history_text_def addCommandHistory_def nth_append)
  next
    case (Some f)
    with run t'(1) have "hist_iter m = Invalid"
      by (auto simp: runCommand_def cmd Let_def addCommandHistory_def iter_after_push_def
          split: option.splits sum.splits)
    with Some t' show ?thesis by (simp add: press_def hasPrevCommand_def hasNextCommand_def)
  qed
qed

lemma arrows_after_line_witness:
  "presses say (\<lambda>_. False) [Plain (CHR ''l''), Plain (CHR ''s''), Newline, Arrow (CHR ''A'')]
     \<lparr>manager = two_commands, typed = [], printed = []\<rparr> = Inl Dangling"
proof -
  let ?t = "\<lparr>manager = two_commands, typed = ''ls'', printed = []\<rparr>"
  have "\<exists>t'. press say (\<lambda>_. False) Newline ?t = Inr t'"
    by (simp add: press_def runCommand_def addCommandHistory_def two_commands_eq say_def Let_def)
  then obtain t' where t': "press say (\<lambda>_. False) Newline ?t = Inr t'" by blast
  have "press say (\<lambda>_. False) (Arrow (CHR ''A'')) t' = Inl Dangling"
    using arrows_after_line [OF t'] by (simp add: two_commands_eq)
  with t' show ?thesis by (simp add: press_def [of _ _ "Plain c" for c])
qed

end
