(* ===== verification/ModLoader.thy ===== *)
theory ModLoader
  imports Config "HOL-Library.AList"
begin

text \<open>
  The module loader of \<open>src/src/components/module/modloader.cpp\<close> and \<open>modloader.hpp\<close>. The dynamic linker
  is an argument: \<open>dlopen\<close> gives the handle of a library, \<open>dlclose_fails\<close> the handles it refuses to
  close, \<open>dlsym\<close> a function by name, of the whole program for a null handle. It counts the references to
  a library, in \<open>refs\<close>.
\<close>

section \<open>Libraries\<close>

record 'f linker =
  exists_file :: "string \<Rightarrow> bool"
  open_file :: "string \<Rightarrow> file_content"
  dlopen :: "string \<Rightarrow> nat option"
  dlclose_fails :: "nat \<Rightarrow> bool"
  dlsym :: "nat option \<Rightarrow> string \<Rightarrow> 'f option"

record module_loader =
  handles :: "(string \<times> nat) list"
  refs :: "nat \<Rightarrow> nat"

definition ModuleLoader :: module_loader where
  "ModuleLoader = \<lparr>handles = [], refs = (\<lambda>_. 0)\<rparr>"

definition close_library :: "nat \<Rightarrow> module_loader \<Rightarrow> module_loader" where
  "close_library h m = m\<lparr>refs := (refs m)(h := refs m h - 1)\<rparr>"

definition destroy_ModuleLoader :: "'f linker \<Rightarrow> module_loader \<Rightarrow> module_loader" where
  "destroy_ModuleLoader ld m =
     fold (\<lambda>(name, h) m. if dlclose_fails ld h then m else close_library h m) (handles m) m"

text \<open>\<open>replace_extension(".json")\<close>.\<close>

definition config_path :: "string \<Rightarrow> string" where
  "config_path path =
     (let name = (case find_last_of ''/'' path of None \<Rightarrow> path | Some i \<Rightarrow> drop (i + 1) path) in
      take (length path - length (extension_of name)) path @ ''.json'')"

text \<open>What reading the description of a library may throw; its results are only logged.\<close>

definition check_config :: "json \<Rightarrow> unit result" where
  "check_config config =
     (if j_contains ''name'' config \<and> j_contains ''version'' config \<and> j_contains ''author'' config then
        rbind (rbind (j_slot ''version'' config) j_get_string) (\<lambda>version.
        rbind (rbind (j_slot ''author'' config) j_get_string) (\<lambda>author.
        rbind (j_value_string ''license'' [] config) (\<lambda>license.
        rbind (j_value_string ''name'' ''Unknown'' config) (\<lambda>name. Inr ()))))
      else Inr ())"

definition read_config :: "'f linker \<Rightarrow> string \<Rightarrow> unit result" where
  "read_config ld path =
     (if exists_file ld (config_path path) then
        (case open_file ld (config_path path) of
           Parsed config \<Rightarrow> check_config config
         | _ \<Rightarrow> Inl (Throw ''parse_error.101''))
      else Inr ())"

definition LoadModule :: "'f linker \<Rightarrow> string \<Rightarrow> string \<Rightarrow> module_loader \<Rightarrow> module_loader \<times> bool" where
  "LoadModule ld path name m =
     (if \<not> exists_file ld path then (m, False)
      else (case dlopen ld path of
          None \<Rightarrow> (m, False)
        | Some handle \<Rightarrow>
            let m = m\<lparr>refs := (refs m)(handle := Suc (refs m handle))\<rparr> in
            (case read_config ld path of
               Inl e \<Rightarrow> (m, False)
             | Inr u \<Rightarrow> (m\<lparr>handles := AList.update name handle (handles m)\<rparr>, True))))"

definition UnloadModule :: "'f linker \<Rightarrow> string \<Rightarrow> module_loader \<Rightarrow> module_loader \<times> bool" where
  "UnloadModule ld name m = (case map_of (handles m) name of
     None \<Rightarrow> (m, False)
   | Some h \<Rightarrow>
       if dlclose_fails ld h then (m, False)
       else ((close_library h m)\<lparr>handles := AList.delete name (handles m)\<rparr>, True))"

text \<open>The library is opened and closed again.\<close>

definition CheckModuleExists :: "'f linker \<Rightarrow> string \<Rightarrow> module_loader \<Rightarrow> module_loader \<times> bool" where
  "CheckModuleExists ld name m = (case dlopen ld name of
     None \<Rightarrow> (m, False)
   | Some h \<Rightarrow>
       let m' = m\<lparr>refs := (refs m)(h := Suc (refs m h))\<rparr> in
       (if dlclose_fails ld h then m' else close_library h m', True))"

definition HasModule :: "string \<Rightarrow> module_loader \<Rightarrow> bool" where
  "HasModule name m \<longleftrightarrow> map_of (handles m) name \<noteq> None"

definition GetHandle :: "string \<Rightarrow> module_loader \<Rightarrow> nat option" where
  "GetHandle name m = map_of (handles m) name"

definition GetFunction :: "'f linker \<Rightarrow> string \<Rightarrow> string \<Rightarrow> module_loader \<Rightarrow> 'f option" where
  "GetFunction ld module_name function_name m = (case map_of (handles m) module_name of
     None \<Rightarrow> None
   | Some h \<Rightarrow> dlsym ld (Some h) function_name)"

definition GetInstance ::
    "'f linker \<Rightarrow> ('f \<Rightarrow> json \<Rightarrow> 'p option) \<Rightarrow> string \<Rightarrow> json \<Rightarrow> string \<Rightarrow> module_loader \<Rightarrow> 'p option" where
  "GetInstance ld call module_name config symbol_name m = (case map_of (handles m) module_name of
     None \<Rightarrow> None
   | Some h \<Rightarrow> (case GetFunction ld module_name symbol_name m of
         None \<Rightarrow> None
       | Some f \<Rightarrow> call f config))"

text \<open>
  The function that runs, if any. A missing module is looked up as the null handle, and the thread
  manager is a pointer no constructor sets. The value returned is always 0.
\<close>

definition LoadAndRunFunction :: "'f linker \<Rightarrow> string \<Rightarrow> string \<Rightarrow> bool \<Rightarrow> module_loader \<Rightarrow> 'f option result" where
  "LoadAndRunFunction ld module_name func_name runasync m =
     (case dlsym ld (GetHandle module_name m) func_name of
        None \<Rightarrow> Inr None
      | Some f \<Rightarrow> if runasync then Inl Uninitialised else Inr (Some f))"

section \<open>The modules directory\<close>

definition read_config_file :: "file_content \<Rightarrow> json" where
  "read_config_file f = (case f of
     CannotOpen \<Rightarrow> JObj [(''error'', JStr ''Failed to open config file'')]
   | BadJson \<Rightarrow> JObj [(''error'', JStr ''Failed to read config file'')]
   | Parsed j \<Rightarrow> j)"

text \<open>Reading through the mutable \<open>operator[]\<close> leaves a null behind where there was nothing.\<close>

definition j_touch :: "string \<Rightarrow> json \<Rightarrow> (json \<times> json) result" where
  "j_touch k j = rbind (j_slot k j) (\<lambda>v. rbind (j_put k v j) (\<lambda>j'. Inr (v, j')))"

definition module_entry :: "string \<Rightarrow> file_content \<Rightarrow> json \<Rightarrow> json result" where
  "module_entry dir f config =
     rbind (j_assign [dir, ''path''] (JStr dir) config) (\<lambda>config.
     rbind (j_assign [dir, ''config''] (JStr (path_join dir ''info.json'')) config) (\<lambda>config.
     rbind (j_touch ''name'' (read_config_file f)) (\<lambda>(name, mc).
     rbind (j_assign [dir, ''name''] name config) (\<lambda>config.
     rbind (j_touch ''version'' mc) (\<lambda>(version, mc).
     rbind (j_assign [dir, ''version''] version config) (\<lambda>config.
     rbind (j_touch ''author'' mc) (\<lambda>(author, mc).
     rbind (j_assign [dir, ''author''] author config) (\<lambda>config.
     rbind (j_value_string ''license'' [] mc) (\<lambda>license.
     rbind (j_assign [dir, ''license''] (JStr license) config) (\<lambda>config.
     rbind (j_value_string ''description'' [] mc) (\<lambda>description.
     j_assign [dir, ''description''] (JStr description) config)))))))))))"

text \<open>The directories in the order of the iteration, each with its \<open>info.json\<close> if it has one.\<close>

fun module_entries :: "(string \<times> file_content option) list \<Rightarrow> json \<Rightarrow> json result" where
  "module_entries [] config = Inr config"
| "module_entries ((dir, None) # ds) config = module_entries ds config"
| "module_entries ((dir, Some f) # ds) config = rbind (module_entry dir f config) (module_entries ds)"

definition error_json :: "string \<Rightarrow> json" where
  "error_json s = JObj [(''error'', JStr s)]"

text \<open>\<open>None\<close> when the directory is missing and cannot be created.\<close>

definition iterator_modules_dir :: "(string \<times> file_content option) list option \<Rightarrow> json result" where
  "iterator_modules_dir modules_dir = (case modules_dir of
     None \<Rightarrow> Inr (error_json ''Failed to create modules directory'')
   | Some ds \<Rightarrow> (case module_entries ds JNull of
         Inl (Throw e) \<Rightarrow> Inr (error_json ''Failed to iterate modules directory'')
       | Inl e \<Rightarrow> Inl e
       | Inr config \<Rightarrow> if j_empty config then j_put ''message'' (JStr ''No module found'') config else Inr config))"

section \<open>References to libraries\<close>

datatype ml_call = Load string string | Unload string | CheckExists string

fun ml_do :: "'f linker \<Rightarrow> ml_call \<Rightarrow> module_loader \<Rightarrow> module_loader" where
  "ml_do ld (Load path name) m = fst (LoadModule ld path name m)"
| "ml_do ld (Unload name) m = fst (UnloadModule ld name m)"
| "ml_do ld (CheckExists name) m = fst (CheckModuleExists ld name m)"

text \<open>
  The references to \<open>h\<close> a call takes and no name holds afterwards: those of a library whose
  description cannot be read, those of a name that is loaded again, and those that cannot be closed.
\<close>

fun lost :: "'f linker \<Rightarrow> ml_call \<Rightarrow> module_loader \<Rightarrow> nat \<Rightarrow> nat" where
  "lost ld (Load path name) m h =
     (if exists_file ld path \<and> dlopen ld path \<noteq> None then
        (if read_config ld path \<in> range Inl then (if dlopen ld path = Some h then 1 else 0)
         else (if map_of (handles m) name = Some h then 1 else 0))
      else 0)"
| "lost ld (Unload name) m h = 0"
| "lost ld (CheckExists name) m h = (if dlopen ld name = Some h \<and> dlclose_fails ld h then 1 else 0)"

fun all_lost :: "'f linker \<Rightarrow> ml_call list \<Rightarrow> module_loader \<Rightarrow> nat \<Rightarrow> nat" where
  "all_lost ld [] m h = 0"
| "all_lost ld (c # cs) m h = lost ld c m h + all_lost ld cs (ml_do ld c m) h"

definition held :: "module_loader \<Rightarrow> nat \<Rightarrow> nat" where
  "held m h = count_list (map snd (handles m)) h"

lemma count_update:
  "distinct (map fst al) \<Longrightarrow>
     count_list (map snd (AList.update k v al)) h + (if map_of al k = Some h then 1 else 0) =
     count_list (map snd al) h + (if v = h then 1 else 0)"
proof (induction al)
  case (Cons p al)
  then show ?case by (cases p) auto
qed simp

lemma count_absent: "k \<notin> fst ` set al \<Longrightarrow> AList.delete k al = al"
  by (induction al) auto

lemma count_delete:
  "distinct (map fst al) \<Longrightarrow>
     count_list (map snd (AList.delete k al)) h + (if map_of al k = Some h then 1 else 0) = count_list (map snd al) h"
proof (induction al)
  case (Cons p al)
  then show ?case by (cases p) (auto simp: count_absent)
qed simp

lemma ml_do_refs:
  assumes "distinct (map fst (handles m))" "\<forall>h. held m h \<le> refs m h"
  shows "distinct (map fst (handles (ml_do ld c m))) \<and>
    refs (ml_do ld c m) h + held m h = held (ml_do ld c m) h + refs m h + lost ld c m h"
proof (cases c)
  case (Load path name)
  show ?thesis
  proof (cases "exists_file ld path \<and> dlopen ld path \<noteq> None")
    case True
    then obtain h' where h': "exists_file ld path" "dlopen ld path = Some h'" by auto
    show ?thesis
    proof (cases "read_config ld path")
      case (Inl e)
      with Load h' assms show ?thesis by (auto simp: LoadModule_def held_def Let_def)
    next
      case (Inr u)
      with Load h' assms(1) count_update [OF assms(1), of name h' h] show ?thesis
        by (auto simp: LoadModule_def held_def Let_def distinct_update)
    qed
  next
    case False
    with Load assms show ?thesis by (auto simp: LoadModule_def held_def)
  qed
next
  case (Unload name)
  show ?thesis
  proof (cases "map_of (handles m) name")
    case (Some h0)
    have "0 < held m h0"
      using Some count_delete [OF assms(1), of name h0] by (simp add: held_def)
    then have "0 < refs m h0" using assms(2) by (meson less_le_trans)
    with Unload Some assms(1) count_delete [OF assms(1), of name h] show ?thesis
      by (auto simp: UnloadModule_def held_def close_library_def distinct_delete)
  qed (use Unload assms in \<open>simp add: UnloadModule_def\<close>)
next
  case (CheckExists name)
  with assms show ?thesis
    by (cases "dlopen ld name") (auto simp: CheckModuleExists_def held_def close_library_def Let_def)
qed

lemma ml_run_refs:
  assumes "distinct (map fst (handles m))" "\<forall>h. held m h \<le> refs m h"
  shows "distinct (map fst (handles (fold (ml_do ld) cs m))) \<and>
    refs (fold (ml_do ld) cs m) h + held m h = held (fold (ml_do ld) cs m) h + refs m h + all_lost ld cs m h"
  using assms
proof (induction cs arbitrary: m)
  case (Cons c cs)
  note step = ml_do_refs [OF Cons.prems, of ld c]
  have "held (ml_do ld c m) h' \<le> refs (ml_do ld c m) h'" for h'
    using step [of h'] Cons.prems(2) [rule_format, of h'] by linarith
  then have "distinct (map fst (handles (fold (ml_do ld) cs (ml_do ld c m)))) \<and>
      refs (fold (ml_do ld) cs (ml_do ld c m)) h + held (ml_do ld c m) h =
      held (fold (ml_do ld) cs (ml_do ld c m)) h + refs (ml_do ld c m) h + all_lost ld cs (ml_do ld c m) h"
    using Cons.IH step by blast
  with step [of h] Cons.prems(2) show ?case by simp
qed simp

lemma destroy_refs:
  assumes "\<forall>h. \<not> dlclose_fails ld h"
  shows "refs (destroy_ModuleLoader ld m) h = refs m h - held m h"
proof -
  have "refs (fold (\<lambda>(name, h) m. if dlclose_fails ld h then m else close_library h m) hs m') h =
      refs m' h - count_list (map snd hs) h" for hs and m' :: module_loader
    using assms by (induction hs arbitrary: m') (auto simp: close_library_def)
  then show ?thesis by (simp add: destroy_ModuleLoader_def held_def)
qed

section \<open>The listing\<close>

definition field :: "string \<Rightarrow> json \<Rightarrow> json" where
  "field k mc = (case j_find k mc of None \<Rightarrow> JNull | Some v \<Rightarrow> v)"

definition field_text :: "string \<Rightarrow> json \<Rightarrow> string" where
  "field_text k mc = (case j_find k mc of Some (JStr s) \<Rightarrow> s | _ \<Rightarrow> [])"

text \<open>The descriptions that are listed; any other makes the listing fail.\<close>

definition readable :: "json \<Rightarrow> bool" where
  "readable mc \<longleftrightarrow> (mc = JNull \<or> is_object mc) \<and>
     (\<forall>k \<in> {''license'', ''description''}. j_find k mc \<in> insert None (range (Some \<circ> JStr)))"

definition entry_of :: "string \<Rightarrow> json \<Rightarrow> (string \<times> json) list" where
  "entry_of dir mc = obj_put ''description'' (JStr (field_text ''description'' mc))
    (obj_put ''license'' (JStr (field_text ''license'' mc))
    (obj_put ''author'' (field ''author'' mc)
    (obj_put ''version'' (field ''version'' mc)
    (obj_put ''name'' (field ''name'' mc)
    (obj_put ''config'' (JStr (path_join dir ''info.json''))
    (obj_put ''path'' (JStr dir) []))))))"

definition members :: "json \<Rightarrow> (string \<times> json) list" where
  "members j = (case j of JObj m \<Rightarrow> m | _ \<Rightarrow> [])"

lemma obj_put_put [simp]: "obj_put k x (obj_put k y m) = obj_put k x m"
  by (induction m) auto

lemma assign_new:
  assumes "config = JNull \<or> is_object config" "map_of (members config) d = None"
  shows "j_assign [d, k] v config = Inr (JObj (obj_put d (JObj (obj_put k v [])) (members config)))"
  using assms by (cases config) (simp_all add: members_def)

lemma assign_old:
  "j_assign [d, k] v (JObj (obj_put d (JObj e) m)) = Inr (JObj (obj_put d (JObj (obj_put k v e)) m))"
  by simp

lemma touch_ok:
  "mc = JNull \<or> is_object mc \<Longrightarrow> j_touch k mc = Inr (field k mc, JObj (obj_put k (field k mc) (members mc)))"
  by (cases mc) (auto simp: j_touch_def field_def members_def split: option.splits)

lemma touch_bad: "\<not> (mc = JNull \<or> is_object mc) \<Longrightarrow> j_touch k mc = Inl (Throw ''type_error.305'')"
  by (cases mc) (auto simp: j_touch_def)

lemma value_string:
  "j_value_string k [] (JObj p) =
     (if map_of p k \<in> insert None (range (Some \<circ> JStr)) then Inr (field_text k (JObj p)) else Inl (Throw ''type_error.302''))"
proof (cases "map_of p k")
  case (Some v)
  then show ?thesis by (cases v) (auto simp: field_text_def)
qed (simp add: field_text_def)

lemma module_entry_eq:
  assumes "config = JNull \<or> is_object config" "map_of (members config) dir = None" "read_config_file f = mc"
  shows "module_entry dir f config =
    (if readable mc then Inr (JObj (obj_put dir (JObj (entry_of dir mc)) (members config)))
     else Inl (Throw (if mc = JNull \<or> is_object mc then ''type_error.302'' else ''type_error.305'')))"
proof (cases "mc = JNull \<or> is_object mc")
  case False
  then show ?thesis
    by (auto simp: module_entry_def assign_new [OF assms(1,2)] assign_old assms(3) touch_bad readable_def
        simp del: j_assign.simps)
next
  case True
  define p where "p = members mc"
  define q where "q = obj_put ''author'' (field ''author'' mc) (obj_put ''version'' (field ''version'' mc)
    (obj_put ''name'' (field ''name'' mc) p))"
  have find: "j_find k mc = map_of p k" for k using True by (cases mc) (auto simp: p_def members_def)
  have fld: "field k (JObj r) = field k mc" if "map_of r k = map_of p k" for k r
    using that by (simp add: field_def find)
  have t1: "j_touch ''name'' mc = Inr (field ''name'' mc, JObj (obj_put ''name'' (field ''name'' mc) p))"
    using touch_ok [OF True] by (simp add: p_def)
  have t2: "j_touch ''version'' (JObj (obj_put ''name'' (field ''name'' mc) p)) =
      Inr (field ''version'' mc, JObj (obj_put ''version'' (field ''version'' mc) (obj_put ''name'' (field ''name'' mc) p)))"
    by (subst touch_ok) (simp_all add: fld members_def)
  have t3: "j_touch ''author'' (JObj (obj_put ''version'' (field ''version'' mc) (obj_put ''name'' (field ''name'' mc) p))) =
      Inr (field ''author'' mc, JObj q)"
    by (subst touch_ok) (simp_all add: fld members_def q_def)
  have q: "map_of q ''license'' = j_find ''license'' mc" "map_of q ''description'' = j_find ''description'' mc"
    by (simp_all add: q_def find)
  have texts: "field_text ''license'' (JObj q) = field_text ''license'' mc"
    "field_text ''description'' (JObj q) = field_text ''description'' mc"
    by (simp_all add: field_text_def q)
  have r: "readable mc \<longleftrightarrow> map_of q ''license'' \<in> insert None (range (Some \<circ> JStr)) \<and>
      map_of q ''description'' \<in> insert None (range (Some \<circ> JStr))"
    using True by (simp add: readable_def q)
  show ?thesis
    unfolding module_entry_def assign_new [OF assms(1,2)] rbind.simps assign_old assms(3) t1 t2 t3 prod.case
      value_string texts r entry_of_def
    using True by simp
qed

fun infos :: "(string \<times> file_content option) list \<Rightarrow> (string \<times> json) list" where
  "infos [] = []"
| "infos ((dir, None) # ds) = infos ds"
| "infos ((dir, Some f) # ds) = (dir, read_config_file f) # infos ds"

lemma fst_infos: "fst ` set (infos ds) \<subseteq> fst ` set ds"
  by (induction ds rule: infos.induct) auto

lemma module_entries_spec:
  assumes "distinct (map fst ds)" "config = JNull \<or> is_object config"
    "\<forall>d \<in> fst ` set ds. map_of (members config) d = None"
  shows "if \<forall>(d, mc) \<in> set (infos ds). readable mc
    then \<exists>config'. module_entries ds config = Inr config' \<and> (config' = config \<and> infos ds = [] \<or> is_object config') \<and>
      (\<forall>d. map_of (members config') d = (case map_of (infos ds) d of
         Some mc \<Rightarrow> Some (JObj (entry_of d mc)) | None \<Rightarrow> map_of (members config) d))
    else \<exists>e. module_entries ds config = Inl (Throw e)"
  using assms
proof (induction ds config rule: module_entries.induct)
  case (1 config)
  then show ?case by auto
next
  case (2 dir ds config)
  then show ?case by simp
next
  case (3 dir f ds config)
  let ?mc = "read_config_file f"
  have new: "map_of (members config) dir = None" using 3(4) by simp
  note entry = module_entry_eq [OF 3(3) new refl, of f]
  show ?case
  proof (cases "readable ?mc")
    case True
    define config1 where "config1 = JObj (obj_put dir (JObj (entry_of dir ?mc)) (members config))"
    have e: "module_entry dir f config = Inr config1" using entry True by (simp add: config1_def)
    have m1: "map_of (members config1) = (map_of (members config))(dir \<mapsto> JObj (entry_of dir ?mc))"
      by (simp add: config1_def members_def)
    have obj: "is_object config1" by (simp add: config1_def)
    have fresh: "\<forall>d \<in> fst ` set ds. map_of (members config1) d = None" using 3(2,4) m1 by auto
    have nd: "map_of (infos ds) dir = None"
      using 3(2) fst_infos [of ds] by (auto simp: map_of_eq_None_iff)
    have IH: "if \<forall>(d, mc) \<in> set (infos ds). readable mc
      then \<exists>config'. module_entries ds config1 = Inr config' \<and> (config' = config1 \<and> infos ds = [] \<or> is_object config') \<and>
        (\<forall>d. map_of (members config') d = (case map_of (infos ds) d of
           Some mc \<Rightarrow> Some (JObj (entry_of d mc)) | None \<Rightarrow> map_of (members config1) d))
      else \<exists>e. module_entries ds config1 = Inl (Throw e)"
      using 3(1) [of config1] e 3(2) obj fresh by simp
    show ?thesis
    proof (cases "\<forall>(d, mc) \<in> set (infos ds). readable mc")
      case all: True
      from IH [unfolded if_P [OF all]] obtain config' where c: "module_entries ds config1 = Inr config'"
        "config' = config1 \<and> infos ds = [] \<or> is_object config'"
        "\<forall>d. map_of (members config') d = (case map_of (infos ds) d of
           Some mc \<Rightarrow> Some (JObj (entry_of d mc)) | None \<Rightarrow> map_of (members config1) d)" by blast
      have "map_of (members config') d = (case map_of (infos ((dir, Some f) # ds)) d of
          Some mc \<Rightarrow> Some (JObj (entry_of d mc)) | None \<Rightarrow> map_of (members config) d)" for d
        using c(3) [rule_format, of d] m1 nd by (cases "d = dir") (simp_all cong: option.case_cong)
      with c(1,2) e obj all True show ?thesis by auto
    next
      case False
      with IH e True show ?thesis by auto
    qed
  next
    case False
    with entry show ?thesis by auto
  qed
qed

section \<open>Properties\<close>

text \<open>C23. References to libraries: over any calls, every library has one reference for each name it is loaded
  under, and one for each call that lost one: a load that fails after the library was opened, a load under
  a name in use, a library that cannot be closed. So a loaded module is never closed under its name, and
  the destructor closes every library exactly if no reference was lost.\<close>

theorem module_references:
  assumes "m = fold (ml_do ld) cs ModuleLoader"
  shows "refs m h = count_list (map snd (handles m)) h + all_lost ld cs ModuleLoader h \<and>
    distinct (map fst (handles m)) \<and>
    (GetHandle name m = Some h \<longrightarrow> 0 < refs m h) \<and>
    ((\<forall>h. \<not> dlclose_fails ld h) \<longrightarrow>
       (refs (destroy_ModuleLoader ld m) h = 0 \<longleftrightarrow> all_lost ld cs ModuleLoader h = 0)) \<and>
    (snd (LoadModule ld path name m) \<longrightarrow> HasModule name (fst (LoadModule ld path name m))) \<and>
    (snd (UnloadModule ld name m) \<longrightarrow> \<not> HasModule name (fst (UnloadModule ld name m)))"
proof -
  have "\<forall>h. held ModuleLoader h \<le> refs ModuleLoader h" "distinct (map fst (handles ModuleLoader))"
    by (simp_all add: held_def ModuleLoader_def)
  from ml_run_refs [OF this(2,1), of ld cs h] assms
  have run: "distinct (map fst (handles m))" "refs m h = held m h + all_lost ld cs ModuleLoader h"
    by (simp_all add: held_def ModuleLoader_def)
  have "0 < refs m h" if "GetHandle name m = Some h"
    using that run count_delete [OF run(1), of name h] by (simp add: GetHandle_def held_def)
  moreover have "snd (LoadModule ld path name m) \<longrightarrow> HasModule name (fst (LoadModule ld path name m))"
    by (auto simp: LoadModule_def HasModule_def Let_def update_conv' split: option.splits sum.splits)
  moreover have "snd (UnloadModule ld name m) \<longrightarrow> \<not> HasModule name (fst (UnloadModule ld name m))"
    by (auto simp: UnloadModule_def HasModule_def delete_conv' split: option.splits)
  ultimately show ?thesis using run destroy_refs [of ld m h] by (auto simp: held_def)
qed

definition one_library :: "unit linker" where
  "one_library = \<lparr>exists_file = (\<lambda>p. p = ''m.so''), open_file = (\<lambda>_. CannotOpen), dlopen = (\<lambda>_. Some 7),
     dlclose_fails = (\<lambda>_. False), dlsym = (\<lambda>_ _. None)\<rparr>"

lemma one_library_load: "LoadModule one_library ''m.so'' n m =
    (m\<lparr>refs := (refs m)(7 := Suc (refs m 7)), handles := AList.update n 7 (handles m)\<rparr>, True)"
proof -
  have "config_path ''m.so'' = ''m.json''" by code_simp
  then show ?thesis by (simp add: LoadModule_def one_library_def read_config_def Let_def)
qed

lemma module_references_witness:
  "refs (destroy_ModuleLoader one_library
     (fold (ml_do one_library) [Load ''m.so'' ''a'', Load ''m.so'' ''a''] ModuleLoader)) 7 \<noteq> 0"
proof -
  let ?m = "fold (ml_do one_library) [Load ''m.so'' ''a''] ModuleLoader"
  have "map_of (handles ?m) ''a'' = Some 7" by (simp add: one_library_load ModuleLoader_def)
  moreover have "read_config one_library ''m.so'' = Inr ()"
  proof -
    have "config_path ''m.so'' = ''m.json''" by code_simp
    then show ?thesis by (simp add: read_config_def one_library_def)
  qed
  ultimately have "all_lost one_library [Load ''m.so'' ''a'', Load ''m.so'' ''a''] ModuleLoader 7 = 1"
    by (auto simp: one_library_def ModuleLoader_def)
  moreover have "\<forall>h. \<not> dlclose_fails one_library h" by (simp add: one_library_def)
  ultimately show ?thesis
    using module_references [OF refl, of one_library "[Load ''m.so'' ''a'', Load ''m.so'' ''a'']" 7] by simp
qed

text \<open>The listing of the modules directory: without any description it is a message. Otherwise, if every
  description is an object (or null, or cannot be read) whose license and description, if present,
  are strings, it has exactly one entry for each directory with a description, with its fields, null
  where they are absent; and a single other description hides every module behind an error.\<close>

theorem modules_listing:
  assumes "distinct (map fst ds)"
  shows "(infos ds = [] \<longrightarrow> iterator_modules_dir (Some ds) = Inr (JObj [(''message'', JStr ''No module found'')])) \<and>
    (infos ds \<noteq> [] \<and> (\<forall>(d, mc) \<in> set (infos ds). readable mc) \<longrightarrow>
      (\<exists>m. iterator_modules_dir (Some ds) = Inr (JObj m) \<and>
        (\<forall>d. map_of m d = (case map_of (infos ds) d of Some mc \<Rightarrow> Some (JObj (entry_of d mc)) | None \<Rightarrow> None)))) \<and>
    ((\<exists>(d, mc) \<in> set (infos ds). \<not> readable mc) \<longrightarrow>
      iterator_modules_dir (Some ds) = Inr (error_json ''Failed to iterate modules directory''))"
proof -
  have e: "members JNull = []" by (simp add: members_def)
  then have "JNull = JNull \<or> is_object JNull" "\<forall>d \<in> fst ` set ds. map_of (members JNull) d = None" by simp_all
  note spec = module_entries_spec [OF assms this]
  show ?thesis
  proof (cases "\<forall>(d, mc) \<in> set (infos ds). readable mc")
    case True
    from spec [unfolded if_P [OF True]] obtain config where
      c: "module_entries ds JNull = Inr config" "config = JNull \<and> infos ds = [] \<or> is_object config"
        "\<forall>d. map_of (members config) d =
          (case map_of (infos ds) d of Some mc \<Rightarrow> Some (JObj (entry_of d mc)) | None \<Rightarrow> map_of (members JNull) d)"
      by blast
    have m: "config = JNull \<and> infos ds = [] \<or> config = JObj (members config)"
      using c(2) by (cases config) (auto simp: members_def)
    have "members config = [] \<longleftrightarrow> infos ds = []"
    proof -
      have "members config = [] \<longleftrightarrow> (\<forall>d. map_of (members config) d = None)"
        by (metis map_of_eq_empty_iff)
      also have "\<dots> \<longleftrightarrow> (\<forall>d. map_of (infos ds) d = None)" using c(3) e by (auto split: option.splits)
      also have "\<dots> \<longleftrightarrow> infos ds = []" by (metis map_of_eq_empty_iff)
      finally show ?thesis .
    qed
    then have emp: "j_empty config \<longleftrightarrow> infos ds = []" using m by (metis j_empty.simps(1,3))
    show ?thesis
    proof (cases "infos ds = []")
      case none: True
      then have "config = JNull \<or> config = JObj []"
        using m \<open>members config = [] \<longleftrightarrow> infos ds = []\<close> by metis
      with none c(1) emp True show ?thesis by (auto simp: iterator_modules_dir_def)
    next
      case False
      with m have "config = JObj (members config)" by blast
      then have "iterator_modules_dir (Some ds) = Inr (JObj (members config))"
        using c(1) emp False by (simp add: iterator_modules_dir_def)
      with c(3) e False True show ?thesis by (auto cong: option.case_cong)
    qed
  next
    case False
    from spec [unfolded if_not_P [OF False]] obtain w where "module_entries ds JNull = Inl (Throw w)" by blast
    with False show ?thesis by (auto simp: iterator_modules_dir_def)
  qed
qed

lemma modules_listing_witness:
  "iterator_modules_dir (Some [(''modules/a'', Some (Parsed (JObj [(''license'', JInt 3)]))), (''modules/b'', Some CannotOpen)]) =
     Inr (error_json ''Failed to iterate modules directory'')"
proof -
  let ?ds = "[(''modules/a'', Some (Parsed (JObj [(''license'', JInt 3)]))), (''modules/b'', Some CannotOpen)]"
  have "(''modules/a'', JObj [(''license'', JInt 3)]) \<in> set (infos ?ds)" by (simp add: read_config_file_def)
  moreover have "\<not> readable (JObj [(''license'', JInt 3)])" by (auto simp: readable_def)
  ultimately have "\<exists>(d, mc) \<in> set (infos ?ds). \<not> readable mc" by blast
  moreover have "distinct (map fst ?ds)" by simp
  ultimately show ?thesis using modules_listing [THEN conjunct2, THEN conjunct2] by blast
qed

end
