(* ===== verification/Spec2Isabelle.thy ===== *)
theory Spec2Isabelle
  imports FileTree TcpClient HttpClient Database Messages SysInfo Base64 Sha256 Startup WsServer
    TaskRunner Device DeviceManager INDITelescope INDIFocuser INDICamera ThreadPool
    ThreadManager Downloader Achievements AptLogger GlobSearch FileIO TimeSync Launcher Solvers
    ModCompiler Images Compress Xml StarClusters Terminal Logs ModLoader
begin

text \<open>
  A verification development for OpenAPT, a server that controls astronomical equipment (C++, the
  program's own code is under \<open>src/src\<close>). It covers the components below; each theory opens with what
  it holds. Definitions keep the names of the code, one per function or handler, with its guards and
  early returns in their order.

  \<^bold>\<open>Parts of the program and the theories that model them.\<close>

  \<^item> Start and command line. \<open>Startup\<close>: \<open>openapt.cpp\<close>, the options and the configuration they write, the
    check of the port, the search for older instances. \<open>Terminal\<close>: \<open>components/debug/terminal.cpp\<close>, the
    registered commands, history and keys. \<open>Launcher\<close>: \<open>components/launcher/launcher.cpp\<close>, a program of
    its own that checks and fetches resources and starts the server.
  \<^item> Server. \<open>Dispatcher\<close>: \<open>components/server/commander.cpp\<close>, handlers in a table indexed by a hash.
    \<open>WsServer\<close>: \<open>components/server/wsserver.cpp\<close>, connections, the client file and the command protocol,
    which calls the dispatcher.
  \<^item> Devices. \<open>Device\<close> and \<open>DeviceManager\<close>: \<open>components/device\<close>, messages and observers of a device, and
    the lists of devices by type and name. \<open>Indi\<close>: what the drivers of \<open>components/driver/indi\<close> share,
    the vectors of the INDI library as objects behind pointers that the drivers keep, and
    \<open>components/api/indiclient.cpp\<close>. \<open>INDIFilterwheel\<close>, \<open>INDITelescope\<close>, \<open>INDIFocuser\<close>, \<open>INDICamera\<close>:
    the four drivers, with a definition for each callback and each operation.
  \<^item> Tasks and threads. \<open>Task\<close>: \<open>components/task/task.hpp\<close>. \<open>TaskRunner\<close>: \<open>runner.cpp\<close>, tasks made from a
    document, the list of shared tasks, and passes over it while another thread may ask to stop.
    \<open>ThreadPool\<close>: \<open>components/thread/threadpool.cpp\<close> as a relation of interleaved steps.
    \<open>ThreadManager\<close>: \<open>components/thread/thread.cpp\<close>.
  \<^item> Configuration and state on disk. \<open>Config\<close>: \<open>components/config/configor.cpp\<close>. \<open>Achievements\<close>:
    \<open>achievement.cpp\<close> and \<open>achievement_list.cpp\<close>, a list of shared objects and its file. \<open>Downloader\<close>:
    \<open>components/network/downloader.cpp\<close>, the list of downloads, its file and the loop of a download.
  \<^item> Files and archives. \<open>Paths\<close>, \<open>Regex\<close>, \<open>Glob\<close>, \<open>GlobSearch\<close>: \<open>components/io/glob.hpp\<close> and what it
    uses of \<open>std::filesystem::path\<close> and \<open>std::regex\<close>. \<open>FileIO\<close>: \<open>components/io/file.cpp\<close> and paths of \<open>io.cpp\<close>.
    \<open>FileTree\<close>: the functions of \<open>io.cpp\<close> that create, move and delete.
    \<open>Compress\<close>: \<open>components/io/compress.cpp\<close>, archives of files and of folders, and zip files,
    with zlib as an argument.
  \<^item> Logs. \<open>AptLogger\<close>: \<open>components/logger/aptlogger.cpp\<close>, the logger and its background thread as
    interleaved steps. \<open>Logs\<close>: \<open>log_manager.cpp\<close>, reading and analysing log files.
  \<^item> Modules. \<open>ModLoader\<close>: \<open>components/module/modloader.cpp\<close>, libraries and their reference counts.
    \<open>ModCompiler\<close>: \<open>compiler.cpp\<close>.
  \<^item> Images and the sky. \<open>Images\<close>: \<open>components/image/image.cpp\<close> with the buffers of \<open>CImg\<close>.
    \<open>StarClusters\<close>: the clusters of white pixels in \<open>draw.cpp\<close>. \<open>Solvers\<close>: \<open>components/api/astrometry.cpp\<close>
    and \<open>astap.cpp\<close>.
  \<^item> Documents and messages. \<open>Xml\<close>: \<open>components/property/xml.cpp\<close>, files, texts of nodes and conversion to
    JSON. \<open>Messages\<close>: \<open>components/property/imessage.cpp\<close>, the texts of messages.
  \<^item> Outside services. \<open>TcpClient\<close>, \<open>HttpClient\<close>: \<open>socketclient.cpp\<close> and \<open>httpclient.cpp\<close> of
    \<open>components/network\<close>. \<open>Database\<close>: \<open>components/database/database.cpp\<close>. \<open>SysInfo\<close>:
    \<open>components/system/system.cpp\<close> and the list of connections in \<open>components/network/utils.cpp\<close>.
  \<^item> Shared code. \<open>Json\<close>: the operations of \<open>nlohmann::json\<close> the program calls. \<open>Base64\<close>, \<open>Sha256\<close>:
    \<open>components/property\<close>, on words of the width the code uses. \<open>TimeSync\<close>: \<open>components/network/time.cpp\<close>.
    \<open>Prelude\<close> and \<open>Strings\<close> hold the outcomes of C++ code, searching in vectors and in strings.

  \<^bold>\<open>How the code is read.\<close> A function that may throw or run into undefined behaviour returns a value of
  type \<open>result\<close>: an exception with the start of its text, a null dereference, a read out of bounds or of
  an uninitialised object, an overflow, a self-deadlock, \<open>std::terminate\<close>. State is a record that is
  passed and returned; shared objects live in a store and are reached by address, so that an update
  through one pointer is seen through all. Threads are inductive step relations whose state holds the
  locks, queues and flags of the code; properties of them range over all reachable states. A loop that
  may not end is a \<open>partial_function (option)\<close>, with \<open>None\<close> for a run that does not return; where it
  ends this is a theorem of its own (\<open>Paths.walk_ends\<close>, \<open>GlobSearch.glob_returns\<close>). There is no fuel
  anywhere. Integers are words or carry their range where the width matters.

  \<^bold>\<open>Arguments of the definitions.\<close> What is not part of the repository is an argument: the parser and
  printer of JSON text, HTTP, the dynamic linker, the INDI library's server, clocks, sockets, the shell,
  pipes, the file system where its answers matter, OpenSSL, zlib, FITS. Hypotheses on them state what
  their documentation promises, and each property that has one has a witness with a concrete function.

  \<^bold>\<open>Interfaces.\<close> \<open>Hashing.byte_hash\<close> is the contract of the two string hashes (interpreted by the
  dispatcher's and by the task generator's hash); \<open>Registry.named_list\<close> and \<open>named_registry\<close> that of a
  list of named objects (thread manager, task manager, achievements); \<open>Config.path_store\<close> the laws of
  reading and writing by path; \<open>Indi.indi_client\<close> what a client of a serial driver may rely on
  (filter wheel, telescope, focuser).

  \<^bold>\<open>What the lemmas show.\<close> Each theory proves the behaviour of its operations on every branch and the
  invariants they keep; the properties, numbered C1 and on, are the consequences a user of the
  component relies on, or the reason why he cannot: several state that the code does not do what it
  is meant to, for every input (a launcher that never succeeds, images that are never flipped, plate
  solvers that never report a position). Codecs and hashes are proved equal to their reference
  definitions, files on disk are proved to be read back as they were written, interleaved components
  are proved to keep order and to lose nothing, or shown how they do.

  \<^bold>\<open>Not modelled.\<close> Computation with floating point beyond what is exact: filters, noise, exposure times
  and quality measures of \<open>image.cpp\<close>, centroids, half-flux diameters and curve fits of \<open>draw.cpp\<close>. Code
  that only passes one call on and logs: symbolic links in \<open>io.cpp\<close>, the options of \<open>socketclient.cpp\<close>,
  \<open>phd2client.cpp\<close>, which parses what it receives and drops it, and uploading logs. The text of crash
  reports (\<open>crash.cpp\<close>), made of facts of the operating system. Variants for Windows and macOS. Log lines.
  The vendored libraries under \<open>src/libs\<close> beyond the parts named, the web server, scripts, assets. Where
  a driver uses members its header no longer declares, the model identifies them with what they give or
  keeps their value as an argument.
\<close>

section \<open>Drivers and their clients\<close>

text \<open>C1. Filter wheel, telescope and focuser drivers answer a client's sequence of connection requests
  and server losses like one boolean: a call reaches the server only while the driver does not count as
  connected, and losing the server does not clear that. Once a connection was made, every later call
  answers true and nothing is sent to the server again. The telescope needs an address for this.\<close>

theorem connection_protocol:
  "(\<exists>w'. replay (\<lambda>n ok d. Inr (INDIFilterwheel.connect n ok d))
        (serverDisconnected INDIFilterwheel.IndiServerDisconnected) es w = Inr (w', answers (is_connected w) es) \<and>
      requests w' = requests w @ concat (map (dial (hostname w) (port w)) (dialled (is_connected w) es))) \<and>
   (\<exists>f'. replay (\<lambda>n ok d. Inr (INDIFocuser.connect n ok d))
        (serverDisconnected INDIFocuser.IndiServerDisconnected) es f = Inr (f', answers (is_connected f) es) \<and>
      requests f' = requests f @ concat (map (dial (hostname f) (port f)) (dialled (is_connected f) es))) \<and>
   (hostname t \<noteq> [] \<and> port t \<noteq> 0 \<longrightarrow>
     (\<exists>t'. replay INDITelescope.connect
        (serverDisconnected INDITelescope.IndiServerDisconnected) es t = Inr (t', answers (is_connected t) es) \<and>
      requests t' = requests t @ concat (map (dial (hostname t) (port t)) (dialled (is_connected t) es)))) \<and>
   dialled True es = [] \<and> set (answers True es) \<subseteq> {True}"
  using fw.replay_spec [where d = w and es = es] fo.replay_spec [where d = f and es = es]
    ts.replay_spec [where d = t and es = es]
    dialled_up [of es] answers_up [of es] by auto

lemma connection_protocol_witness:
  "\<exists>t'. replay INDITelescope.connect (serverDisconnected INDITelescope.IndiServerDisconnected)
       [Connect ''EQ6'' False, Connect ''EQ6'' True, ServerLost (- 1), Connect ''EQ6'' False]
       (INDITelescope.INDITelescope False False ''EQ6'') = Inr (t', [False, True, True])"
  using connection_protocol [where es = "[Connect ''EQ6'' False, Connect ''EQ6'' True, ServerLost (- 1), Connect ''EQ6'' False]"
      and t = "INDITelescope.INDITelescope False False ''EQ6''", THEN conjunct2, THEN conjunct2, THEN conjunct1]
  by (auto simp: INDITelescope.INDITelescope_def serial_init_def)

end
